(* ===== verification/Prelude.thy ===== *)
theory Prelude
  imports Main "HOL-Library.Word"
begin

text \<open>
  What every component shares: the lemma collections, the model of Go's map iteration, and a few
  generic facts on maps and lists.

  A Go map (\<open>map[string]*T\<close>) is a partial function \<open>string \<rightharpoonup> 'v\<close>. The order in which \<open>range\<close>
  visits a Go map is not determined: the runtime chooses one for every loop. An operation that
  ranges over a map therefore takes the visiting order as an argument (a list of keys), and the
  theorems hold for every order that \<open>iterates\<close> the map.
\<close>

named_theorems state_simps "field-level effect of the operations of the cluster state"
named_theorems go_consts "distinctness of the string constants of the source"

type_synonym go_string = string
type_synonym i64 = "64 word"

section \<open>Go maps and the order of a range loop\<close>

definition iterates :: "'k list \<Rightarrow> ('k \<rightharpoonup> 'v) \<Rightarrow> bool" where
  "iterates ks m \<longleftrightarrow> distinct ks \<and> set ks = dom m"

text \<open>An operation that ranges over one map several times takes one order per loop.\<close>

definition orders :: "('i \<Rightarrow> 'k list) \<Rightarrow> ('k \<rightharpoonup> 'v) \<Rightarrow> bool" where
  "orders ord m \<longleftrightarrow> (\<forall>i. iterates (ord i) m)"

lemma ordersD [simp]: "orders ord m \<Longrightarrow> iterates (ord i) m"
  by (simp add: orders_def)

lemma orders_empty [simp]: "orders (\<lambda>_. []) Map.empty"
  by (simp add: orders_def iterates_def)

fun range_vals :: "'k list \<Rightarrow> ('k \<rightharpoonup> 'v) \<Rightarrow> 'v list" where
  "range_vals [] m = []"
| "range_vals (k # ks) m =
     (case m k of None \<Rightarrow> range_vals ks m | Some v \<Rightarrow> v # range_vals ks m)"

lemma iterates_distinct [simp]: "iterates ks m \<Longrightarrow> distinct ks"
  by (simp add: iterates_def)

lemma iterates_set [simp]: "iterates ks m \<Longrightarrow> set ks = dom m"
  by (simp add: iterates_def)

lemma iterates_empty [simp]: "iterates [] Map.empty"
  by (simp add: iterates_def)

lemma set_range_vals: "set (range_vals ks m) = {v. \<exists>k\<in>set ks. m k = Some v}"
  by (induction ks) (auto split: option.splits)

lemma set_range_vals_iterates [simp]: "iterates ks m \<Longrightarrow> set (range_vals ks m) = ran m"
  by (auto simp: set_range_vals ran_def dom_def)

lemma range_vals_append [simp]: "range_vals (ks @ ls) m = range_vals ks m @ range_vals ls m"
  by (induction ks) (auto split: option.splits)

lemma length_range_vals_iterates: "iterates ks m \<Longrightarrow> length (range_vals ks m) = card (dom m)"
proof -
  assume it: "iterates ks m"
  have "set ks \<subseteq> dom m \<Longrightarrow> length (range_vals ks m) = length ks"
    by (induction ks) (auto split: option.splits)
  with it show ?thesis
    by (metis iterates_def distinct_card order_refl)
qed

lemma map_keys_range_vals:
  assumes "\<And>k v. m k = Some v \<Longrightarrow> key v = k" and "set ks \<subseteq> dom m"
  shows "map key (range_vals ks m) = ks"
  using assms(2) by (induction ks) (auto split: option.splits dest: assms(1))

section \<open>Scanning a list for its best element\<close>

text \<open>
  The loop \<open>best := xs[0]; for x in xs[1:] { if better(x, best) { best = x } }\<close>. When \<open>better\<close>
  compares a key in a linear order, the loop ends with the first element of least key.
\<close>

fun scan :: "('a \<Rightarrow> 'a \<Rightarrow> bool) \<Rightarrow> 'a \<Rightarrow> 'a list \<Rightarrow> 'a" where
  "scan better best [] = best"
| "scan better best (x # xs) = scan better (if better x best then x else best) xs"

definition first_least :: "('a \<Rightarrow> 'k :: linorder) \<Rightarrow> 'a \<Rightarrow> 'a list \<Rightarrow> bool" where
  "first_least key w xs \<longleftrightarrow> (\<exists>ys zs. xs = ys @ w # zs \<and>
     (\<forall>y\<in>set ys. key w < key y) \<and> (\<forall>z\<in>set zs. key w \<le> key z))"

lemma first_least_before:
  assumes "first_least key w (b # xs)" and "key b < key a"
  shows "first_least key w (a # b # xs)"
proof -
  obtain ys zs where w: "b # xs = ys @ w # zs" "\<forall>y\<in>set ys. key w < key y"
      "\<forall>z\<in>set zs. key w \<le> key z"
    using assms(1) by (auto simp: first_least_def)
  then have "key w \<le> key b" by (cases ys) auto
  with assms(2) w show ?thesis
    unfolding first_least_def by (intro exI [of _ "a # ys"] exI [of _ zs]) auto
qed

lemma first_least_after:
  assumes "first_least key w (b # xs)" and "key b \<le> key a"
  shows "first_least key w (b # a # xs)"
proof -
  obtain ys zs where w: "b # xs = ys @ w # zs" "\<forall>y\<in>set ys. key w < key y"
      "\<forall>z\<in>set zs. key w \<le> key z"
    using assms(1) by (auto simp: first_least_def)
  show ?thesis
  proof (cases ys)
    case Nil
    with w assms(2) show ?thesis
      unfolding first_least_def by (intro exI [of _ "[]"] exI [of _ "a # xs"]) auto
  next
    case (Cons y ys')
    with w assms(2) show ?thesis
      unfolding first_least_def by (intro exI [of _ "b # a # ys'"] exI [of _ zs]) auto
  qed
qed

lemma scan_first_least:
  assumes "\<And>x y. x \<in> insert b (set xs) \<Longrightarrow> y \<in> insert b (set xs) \<Longrightarrow> better x y \<longleftrightarrow> key x < key y"
  shows "first_least key (scan better b xs) (b # xs)"
  using assms
proof (induction xs arbitrary: b)
  case Nil
  show ?case unfolding first_least_def by (intro exI [of _ "[]"]) simp
next
  case (Cons x xs)
  have "first_least key (scan better (if better x b then x else b) xs) ((if better x b then x else b) # xs)"
    using Cons.prems by (intro Cons.IH) (auto split: if_splits)
  with Cons.prems [of x b] show ?case
    by (auto intro: first_least_before first_least_after split: if_splits)
qed

text \<open>
  Where the map changes while a procedure runs, the order of each of its loops depends on the map it
  finds: a \<open>chooser\<close> gives an order for every finite map.
\<close>

definition chooser :: "(('k \<rightharpoonup> 'v) \<Rightarrow> 'k list) \<Rightarrow> bool" where
  "chooser ord \<longleftrightarrow> (\<forall>m. finite (dom m) \<longrightarrow> iterates (ord m) m)"

lemma chooserD: "chooser ord \<Longrightarrow> finite (dom m) \<Longrightarrow> iterates (ord m) m"
  by (simp add: chooser_def)

lemma chooser_sorted: "chooser (\<lambda>m :: 'k :: linorder \<rightharpoonup> 'v. sorted_list_of_set (dom m))"
  by (simp add: chooser_def iterates_def)

section \<open>Formatting\<close>

text \<open>The verb \<open>%d\<close> and \<open>strconv.Itoa\<close>.\<close>

fun digits :: "nat \<Rightarrow> go_string" where
  "digits n = (if n < 10 then [char_of (48 + n)] else digits (n div 10) @ [char_of (48 + n mod 10)])"

declare digits.simps [simp del]

definition format_int :: "int \<Rightarrow> go_string" where
  "format_int i = (if i < 0 then ''-'' @ digits (nat (- i)) else digits (nat i))"

text \<open>The characters and the value of a decimal number.\<close>

definition digit_chars :: "char set" where
  "digit_chars = set ''0123456789''"

definition dec_value :: "go_string \<Rightarrow> nat" where
  "dec_value s = foldl (\<lambda>a c. 10 * a + (of_char c - 48)) 0 s"

lemma char_of_digit: "(m :: nat) < 10 \<Longrightarrow> char_of (48 + m) \<in> digit_chars"
proof -
  assume "m < 10"
  then have "m \<in> set [0..<10]" by simp
  moreover have "list_all (\<lambda>m. char_of (48 + m) \<in> digit_chars) [0..<10 :: nat]" by code_simp
  ultimately show ?thesis by (auto simp: list_all_iff)
qed

lemma digits_subset: "set (digits n) \<subseteq> digit_chars"
proof (induction n rule: digits.induct)
  case (1 n)
  then show ?case by (subst digits.simps) (auto intro: char_of_digit simp del: of_char_of)
qed

lemma digits_not_Nil [simp]: "digits n \<noteq> []"
  by (subst digits.simps) simp

lemma of_char_digit: "(m :: nat) < 10 \<Longrightarrow> of_char (char_of (48 + m) :: char) = 48 + m"
  by simp

lemma dec_value_digits [simp]: "dec_value (digits n) = n"
proof (induction n rule: digits.induct)
  case (1 n)
  show ?case
  proof (cases "n < 10")
    case True
    then show ?thesis by (subst digits.simps) (simp add: dec_value_def of_char_digit)
  next
    case False
    have "of_char (char_of (48 + n mod 10) :: char) - 48 = n mod 10"
      by (subst of_char_digit) simp_all
    then show ?thesis using 1 [OF False] False
      by (subst digits.simps) (simp add: dec_value_def)
  qed
qed

lemma digits_eq [simp]: "digits m = digits n \<longleftrightarrow> m = n"
  by (metis dec_value_digits)

section \<open>Running a procedure step by step\<close>

text \<open>\<open>reaches f x y\<close>: some number of steps \<open>f\<close> leads from \<open>x\<close> to \<open>y\<close>.\<close>

definition reaches :: "('a \<Rightarrow> 'a) \<Rightarrow> 'a \<Rightarrow> 'a \<Rightarrow> bool" where
  "reaches f x y \<longleftrightarrow> (\<exists>m. (f ^^ m) x = y)"

lemma reaches_refl [simp]: "reaches f x x"
  unfolding reaches_def by (intro exI [of _ 0]) simp

lemma reaches_step: "reaches f (f x) y \<Longrightarrow> reaches f x y"
  unfolding reaches_def by (metis funpow_Suc_right comp_apply)

lemma reaches_trans: "reaches f x y \<Longrightarrow> reaches f y z \<Longrightarrow> reaches f x z"
  unfolding reaches_def by (metis funpow_add comp_apply)

lemma reaches_then: "reaches f x y \<Longrightarrow> f y = z \<Longrightarrow> reaches f z w \<Longrightarrow> reaches f x w"
  using reaches_trans reaches_step by metis

lemma reaches_first: "f x = y \<Longrightarrow> reaches f y z \<Longrightarrow> reaches f x z"
  using reaches_step by metis

lemma reaches_one: "f x = y \<Longrightarrow> reaches f x y"
  using reaches_first reaches_refl by metis

lemma reaches_map:
  assumes "reaches f x y" and "\<And>x. g (h x) = h (f x)"
  shows "reaches g (h x) (h y)"
proof -
  have "(g ^^ m) (h x) = h ((f ^^ m) x)" for m
    by (induction m) (simp_all add: assms(2))
  then show ?thesis using assms(1) by (metis reaches_def)
qed

end
