(* ===== verification/Float64.thy ===== *)
theory Float64
  imports Prelude Complex_Main "HOL-Library.Log_Nat"
begin

text \<open>
  Go's \<open>float64\<close>: IEEE 754 binary64 with round to nearest, ties to even. A finite value is kept
  as the rational number it stands for; every operation computes the exact result and rounds it
  with \<open>rnd\<close>. Subnormals, overflow to infinity and NaN are modelled. The two zeros are one value:
  nothing the program computes tells them apart (it divides only by totals it has found positive).
\<close>

section \<open>Rounding to 53 significant bits\<close>

definition ilog2 :: "rat \<Rightarrow> int" where
  "ilog2 x =
     (let (n, d) = quotient_of x; e = bitlen n - bitlen d
      in if 2 powi e \<le> x then e else e - 1)"

definition ulp_exp :: "rat \<Rightarrow> int" where
  "ulp_exp x = max (ilog2 \<bar>x\<bar> - 52) (-1074)"

definition round_half_even :: "rat \<Rightarrow> int" where
  "round_half_even x =
     (let f = \<lfloor>x\<rfloor>; r = x - of_int f
      in if r < 1/2 then f else if r > 1/2 then f + 1 else if even f then f else f + 1)"

definition rnd :: "rat \<Rightarrow> rat" where
  "rnd x =
     (if x = 0 then 0
      else let e = ulp_exp x in of_int (round_half_even (x / 2 powi e)) * 2 powi e)"

subsection \<open>Powers of two\<close>

lemma pow2_pos [simp]: "0 < (2::rat) powi e"
  by simp

lemma pow2_mono: "a \<le> b \<Longrightarrow> (2::rat) powi a \<le> 2 powi b"
  by (simp add: power_int_increasing)

lemma pow2_strict_mono: "a < b \<Longrightarrow> (2::rat) powi a < 2 powi b"
  by (simp add: power_int_strict_increasing)

lemma pow2_less_iff: "(2::rat) powi a < 2 powi b \<longleftrightarrow> a < b"
  by (meson linorder_not_less pow2_mono pow2_strict_mono)

lemma pow2_split: "(2::rat) powi a = 2 powi b * 2 powi (a - b)"
  by (simp flip: power_int_add)

lemma pow2_int: "0 \<le> k \<Longrightarrow> (2::rat) powi k = of_int (2 ^ nat k)"
  by (simp add: power_int_def)

lemma pow2_Suc: "(2::rat) powi (e + 1) = 2 * 2 powi e"
  by (simp add: power_int_add)

lemma bitlen_pow2_bounds:
  assumes "0 < n"
  shows "(2::rat) powi (bitlen n - 1) \<le> of_int n" and "of_int n < (2::rat) powi bitlen n"
proof -
  have 1: "1 \<le> bitlen n"
    using assms bitlen_eq_zero_iff [of n] bitlen_nonneg [of n] by linarith
  have b: "2 ^ nat (bitlen n - 1) \<le> n \<and> n < 2 ^ nat (bitlen n)"
    by (rule bitlen_bounds [OF assms])
  have "(2::rat) powi (bitlen n - 1) = of_int (2 ^ nat (bitlen n - 1))"
    using 1 by (simp add: power_int_def)
  also have "\<dots> \<le> of_int n"
    using b by (simp only: of_int_le_iff)
  finally show "(2::rat) powi (bitlen n - 1) \<le> of_int n" .
  have "(of_int n :: rat) < of_int (2 ^ nat (bitlen n))"
    using b by (simp only: of_int_less_iff)
  also have "\<dots> = 2 powi bitlen n"
    using 1 by (simp add: power_int_def)
  finally show "of_int n < (2::rat) powi bitlen n" .
qed

lemma ilog2_bounds:
  assumes x: "0 < x"
  shows "2 powi ilog2 x \<le> x" and "x < 2 powi (ilog2 x + 1)"
proof -
  obtain n d where q: "quotient_of x = (n, d)" by (cases "quotient_of x")
  have d: "0 < d" by (rule quotient_of_denom_pos [OF q])
  have xq: "x = of_int n / of_int d" by (rule quotient_of_div [OF q])
  have n: "0 < n" using x d by (simp add: xq zero_less_divide_iff)
  define e where "e = bitlen n - bitlen d"
  have lo: "2 powi (e - 1) < x"
  proof -
    have "2 powi (e - 1) * of_int d < 2 powi (e - 1) * (2::rat) powi bitlen d"
      using bitlen_pow2_bounds(2) [OF d] by simp
    also have "\<dots> = 2 powi (bitlen n - 1)"
      by (simp add: e_def flip: power_int_add)
    also have "\<dots> \<le> of_int n" by (rule bitlen_pow2_bounds(1) [OF n])
    finally show ?thesis using d by (simp add: xq pos_less_divide_eq)
  qed
  have hi: "x < 2 powi (e + 1)"
  proof -
    have "of_int n < (2::rat) powi bitlen n" by (rule bitlen_pow2_bounds(2) [OF n])
    also have "\<dots> = 2 powi (e + 1) * 2 powi (bitlen d - 1)"
      by (simp add: e_def flip: power_int_add)
    also have "\<dots> \<le> 2 powi (e + 1) * of_int d"
      using bitlen_pow2_bounds(1) [OF d] by simp
    finally show ?thesis using d by (simp add: xq pos_divide_less_eq)
  qed
  have eq: "ilog2 x = (if 2 powi e \<le> x then e else e - 1)"
    by (simp add: ilog2_def q e_def)
  show "2 powi ilog2 x \<le> x" using lo by (simp add: eq)
  show "x < 2 powi (ilog2 x + 1)" using hi by (simp add: eq)
qed

lemma ilog2_unique:
  assumes "2 powi e \<le> x" and "x < 2 powi (e + 1)"
  shows "ilog2 x = e"
proof -
  have x: "0 < x" using assms(1) pow2_pos [of e] by linarith
  have "(2::rat) powi e < 2 powi (ilog2 x + 1)" and "(2::rat) powi ilog2 x < 2 powi (e + 1)"
    using ilog2_bounds [OF x] assms by linarith+
  then show ?thesis by (simp add: pow2_less_iff)
qed

lemma ilog2_mono: "0 < x \<Longrightarrow> x \<le> y \<Longrightarrow> ilog2 x \<le> ilog2 y"
proof -
  assume "0 < x" "x \<le> y"
  then have "(2::rat) powi ilog2 x < 2 powi (ilog2 y + 1)"
    using ilog2_bounds(1) [of x] ilog2_bounds(2) [of y] by linarith
  then show ?thesis by (simp add: pow2_less_iff)
qed

subsection \<open>Rounding to an integer\<close>

lemma round_half_even_of_int [simp]: "round_half_even (of_int n) = n"
  by (simp add: round_half_even_def)

lemma round_half_even_error: "\<bar>of_int (round_half_even x) - x\<bar> \<le> 1/2"
proof -
  have "of_int \<lfloor>x\<rfloor> \<le> x" and "x < of_int \<lfloor>x\<rfloor> + 1"
    by linarith+
  then show ?thesis
    by (simp add: round_half_even_def Let_def abs_le_iff)
qed

lemma round_half_even_mono: "x \<le> y \<Longrightarrow> round_half_even x \<le> round_half_even y"
proof -
  assume xy: "x \<le> y"
  then have f: "\<lfloor>x\<rfloor> \<le> \<lfloor>y\<rfloor>" by (rule floor_mono)
  show ?thesis
  proof (cases "\<lfloor>x\<rfloor> = \<lfloor>y\<rfloor>")
    case True
    with xy show ?thesis by (auto simp: round_half_even_def Let_def)
  next
    case False
    with f have "\<lfloor>x\<rfloor> + 1 \<le> \<lfloor>y\<rfloor>" by linarith
    moreover have "round_half_even x \<le> \<lfloor>x\<rfloor> + 1" "\<lfloor>y\<rfloor> \<le> round_half_even y"
      by (simp_all add: round_half_even_def Let_def)
    ultimately show ?thesis by linarith
  qed
qed

lemma round_half_even_le_int: "x \<le> of_int n \<Longrightarrow> round_half_even x \<le> n"
  using round_half_even_mono [of x "of_int n"] by simp

lemma round_half_even_ge_int: "of_int n \<le> x \<Longrightarrow> n \<le> round_half_even x"
  using round_half_even_mono [of "of_int n" x] by simp

lemma round_half_even_uminus: "round_half_even (- x) = - round_half_even x"
proof (cases "x = of_int \<lfloor>x\<rfloor>")
  case True
  then show ?thesis by (metis of_int_minus round_half_even_of_int)
next
  case False
  then have c: "\<lfloor>- x\<rfloor> = - \<lfloor>x\<rfloor> - 1"
    using of_int_floor_le [of x] floor_correct [of x] by (intro floor_unique) (auto, linarith+)
  show ?thesis by (auto simp: round_half_even_def Let_def c)
qed

subsection \<open>Rounding to the grid of the floating point numbers\<close>

lemma rnd_0 [simp]: "rnd 0 = 0"
  by (simp add: rnd_def)

lemma ulp_exp_uminus [simp]: "ulp_exp (- x) = ulp_exp x"
  by (simp add: ulp_exp_def)

lemma ulp_exp_ge: "-1074 \<le> ulp_exp x"
  by (simp add: ulp_exp_def)

lemma ulp_exp_mono: "0 < \<bar>x\<bar> \<Longrightarrow> \<bar>x\<bar> \<le> \<bar>y\<bar> \<Longrightarrow> ulp_exp x \<le> ulp_exp y"
  using ilog2_mono [of "\<bar>x\<bar>" "\<bar>y\<bar>"] by (auto simp: ulp_exp_def)

lemma rnd_uminus [simp]: "rnd (- x) = - rnd x"
  by (simp add: rnd_def Let_def round_half_even_uminus flip: minus_divide_left)

lemma grid_scale:
  assumes "e \<le> k"
  shows "of_int m * 2 powi k / (2::rat) powi e = of_int (m * 2 ^ nat (k - e))"
  using assms by (simp add: pow2_split [of k e] pow2_int)

lemma rnd_le_grid:
  assumes "x \<le> of_int m * 2 powi k" and "ulp_exp x \<le> k" and "x \<noteq> 0"
  shows "rnd x \<le> of_int m * 2 powi k"
proof -
  let ?e = "ulp_exp x"
  have "x / 2 powi ?e \<le> of_int m * 2 powi k / 2 powi ?e"
    using assms(1) by (simp add: divide_right_mono)
  then have "round_half_even (x / 2 powi ?e) \<le> m * 2 ^ nat (k - ?e)"
    using grid_scale [OF assms(2)] by (intro round_half_even_le_int) simp
  then have "of_int (round_half_even (x / 2 powi ?e)) \<le> (of_int (m * 2 ^ nat (k - ?e)) :: rat)"
    by (simp only: of_int_le_iff)
  also have "\<dots> = of_int m * 2 powi k / 2 powi ?e"
    by (simp only: grid_scale [OF assms(2)])
  finally show ?thesis
    using assms(3) by (simp add: rnd_def Let_def pos_le_divide_eq)
qed

lemma rnd_ge_grid:
  assumes "of_int m * 2 powi k \<le> x" and "ulp_exp x \<le> k" and "x \<noteq> 0"
  shows "of_int m * 2 powi k \<le> rnd x"
  using rnd_le_grid [of "- x" "- m" k] assms by simp

lemma rnd_on_grid:
  assumes "ulp_exp (of_int m * 2 powi k) \<le> k"
  shows "rnd (of_int m * 2 powi k) = of_int m * 2 powi k"
proof (cases "m = 0")
  case False
  then have "(of_int m * 2 powi k :: rat) \<noteq> 0" by simp
  with assms show ?thesis
    using rnd_le_grid [of "of_int m * 2 powi k" m k] rnd_ge_grid [of m k "of_int m * 2 powi k"]
    by simp
qed simp

lemma ulp_exp_grid:
  assumes "\<bar>m\<bar> < 2 ^ 53" and "-1074 \<le> k" and "m \<noteq> 0"
  shows "ulp_exp (of_int m * 2 powi k) \<le> k"
proof -
  let ?x = "\<bar>of_int m * 2 powi k :: rat\<bar>"
  have x: "0 < ?x" using assms(3) by simp
  have "of_int \<bar>m\<bar> < (of_int (2 ^ 53) :: rat)"
    using assms(1) by (simp only: of_int_less_iff)
  then have "of_int \<bar>m\<bar> * 2 powi k < 2 ^ 53 * (2::rat) powi k"
    by simp
  then have "?x < 2 powi (53 + k)"
    by (simp add: abs_mult power_int_add)
  then have "(2::rat) powi ilog2 ?x < 2 powi (53 + k)"
    using ilog2_bounds(1) [OF x] by linarith
  then have "ilog2 ?x < 53 + k" by (simp add: pow2_less_iff)
  then show ?thesis using assms(2) by (simp add: ulp_exp_def)
qed

text \<open>Every multiple \<open>m * 2\<^sup>k\<close> with at most 53 bits is a fixed point of rounding.\<close>

lemma rnd_grid:
  assumes "\<bar>m\<bar> \<le> 2 ^ 53" and "-1074 \<le> k"
  shows "rnd (of_int m * 2 powi k) = of_int m * 2 powi k"
proof (cases "\<bar>m\<bar> = 2 ^ 53")
  case True
  define m' :: int where "m' = sgn m * 2 ^ 52"
  have "m = m' * 2"
    using True by (cases "0 \<le> m") (auto simp: m'_def sgn_if)
  then have eq: "(of_int m * 2 powi k :: rat) = of_int m' * 2 powi (k + 1)"
    by (simp add: pow2_Suc)
  have "rnd (of_int m' * 2 powi (k + 1)) = of_int m' * 2 powi (k + 1)"
    using assms(2) True by (intro rnd_on_grid ulp_exp_grid) (auto simp: m'_def sgn_if)
  then show ?thesis by (simp only: eq)
next
  case False
  show ?thesis
  proof (cases "m = 0")
    case False
    with \<open>\<bar>m\<bar> \<noteq> 2 ^ 53\<close> assms show ?thesis by (intro rnd_on_grid ulp_exp_grid) auto
  qed simp
qed

lemma rnd_of_int: "\<bar>n\<bar> \<le> 2 ^ 53 \<Longrightarrow> rnd (of_int n) = of_int n"
  using rnd_grid [of n 0] by simp

lemma rnd_numeral [simp]: "(numeral n :: int) \<le> 2 ^ 53 \<Longrightarrow> rnd (numeral n) = numeral n"
  using rnd_of_int [of "numeral n"] by simp

lemma rnd_1 [simp]: "rnd 1 = 1"
  using rnd_of_int [of 1] by simp

lemma rnd_mono_pos:
  assumes "0 < x" and "x \<le> y"
  shows "rnd x \<le> rnd y"
proof (cases "ulp_exp x = ulp_exp y")
  case True
  have "x / 2 powi ulp_exp y \<le> y / 2 powi ulp_exp y"
    using assms(2) by (simp add: divide_right_mono)
  then have "round_half_even (x / 2 powi ulp_exp y) \<le> round_half_even (y / 2 powi ulp_exp y)"
    by (rule round_half_even_mono)
  with assms True show ?thesis by (simp add: rnd_def Let_def)
next
  case False
  with assms have lt: "ulp_exp x < ulp_exp y"
    using ulp_exp_mono [of x y] by simp
  have ey: "ulp_exp y = ilog2 y - 52" and exy: "ilog2 x < ilog2 y"
    using lt assms by (auto simp: ulp_exp_def split: if_splits)
  have "x < 2 powi (ilog2 x + 1)" using ilog2_bounds(2) assms(1) by blast
  also have "\<dots> \<le> 2 powi ilog2 y" using exy by (intro pow2_mono) simp
  finally have "rnd x \<le> of_int 1 * 2 powi ilog2 y"
    using assms lt ey by (intro rnd_le_grid) auto
  also have "\<dots> \<le> rnd y"
    using assms ilog2_bounds(1) [of y] ey by (intro rnd_ge_grid) auto
  finally show ?thesis .
qed

lemma rnd_nonneg: "0 \<le> x \<Longrightarrow> 0 \<le> rnd x"
proof (cases "x = 0")
  case False
  assume "0 \<le> x"
  with False have "0 \<le> round_half_even (x / 2 powi ulp_exp x)"
    using round_half_even_ge_int [of 0 "x / 2 powi ulp_exp x"] by simp
  with False show ?thesis by (simp add: rnd_def Let_def)
qed simp

lemma rnd_mono: "x \<le> y \<Longrightarrow> rnd x \<le> rnd y"
proof -
  assume xy: "x \<le> y"
  consider "0 < x" | "x \<le> 0" "0 \<le> y" | "y < 0" by linarith
  then show ?thesis
  proof cases
    case 1 then show ?thesis using xy by (rule rnd_mono_pos)
  next
    case 2 then show ?thesis
      using rnd_nonneg [of "- x"] rnd_nonneg [of y] by simp
  next
    case 3 then show ?thesis using rnd_mono_pos [of "- y" "- x"] xy by simp
  qed
qed

lemma rnd_error: "\<bar>rnd x - x\<bar> \<le> 2 powi ulp_exp x / 2"
proof (cases "x = 0")
  case False
  let ?u = "2 powi ulp_exp x :: rat"
  have "\<bar>of_int (round_half_even (x / ?u)) - x / ?u\<bar> * ?u \<le> 1/2 * ?u"
    by (intro mult_right_mono round_half_even_error) simp
  moreover have "\<bar>of_int (round_half_even (x / ?u)) - x / ?u\<bar> * ?u
      = \<bar>(of_int (round_half_even (x / ?u)) - x / ?u) * ?u\<bar>"
    by (simp add: abs_mult)
  moreover have "(of_int (round_half_even (x / ?u)) - x / ?u) * ?u = rnd x - x"
    using False by (simp add: rnd_def Let_def left_diff_distrib)
  ultimately show ?thesis by simp
qed simp

lemma rnd_multiple: "\<exists>m. rnd x = of_int m * 2 powi ulp_exp x \<and> \<bar>m\<bar> \<le> 2 ^ 53"
proof (cases "x = 0")
  case True
  then show ?thesis by (intro exI [of _ 0]) simp
next
  case False
  let ?u = "2 powi ulp_exp x :: rat"
  have "\<bar>x\<bar> < 2 powi (ilog2 \<bar>x\<bar> + 1)" using False by (intro ilog2_bounds(2)) simp
  also have "\<dots> \<le> 2 powi (53 + ulp_exp x)"
    by (intro pow2_mono) (simp add: ulp_exp_def)
  finally have "\<bar>x\<bar> < 2 ^ 53 * ?u" by (simp add: power_int_add)
  then have a: "\<bar>x / ?u\<bar> \<le> 2 ^ 53" by (simp add: abs_divide pos_divide_le_eq)
  have hi: "x / ?u \<le> of_int (2 ^ 53)" and lo: "of_int (- (2 ^ 53)) \<le> x / ?u"
    using abs_le_D1 [OF a] abs_le_D2 [OF a] by simp_all
  have "\<bar>round_half_even (x / ?u)\<bar> \<le> 2 ^ 53"
    using round_half_even_le_int [OF hi] round_half_even_ge_int [OF lo] by linarith
  with False show ?thesis by (intro exI [of _ "round_half_even (x / ?u)"]) (simp add: rnd_def Let_def)
qed

lemma rnd_idem [simp]: "rnd (rnd x) = rnd x"
  using rnd_multiple [of x] rnd_grid [OF _ ulp_exp_ge] by metis

text \<open>The values of a binary64 are multiples of the least subnormal.\<close>

lemma rnd_fixed_multiple:
  assumes "rnd x = x"
  obtains k :: int where "x = of_int k * 2 powi (-1074)"
proof -
  obtain m where m: "x = of_int m * 2 powi ulp_exp x"
    using rnd_multiple [of x] assms by auto
  have "(2::rat) powi ulp_exp x = 2 powi (-1074) * of_int (2 ^ nat (ulp_exp x + 1074))"
    using ulp_exp_ge [of x] by (simp add: pow2_split [of "ulp_exp x" "-1074"] pow2_int)
  with m have "x = of_int (m * 2 ^ nat (ulp_exp x + 1074)) * 2 powi (-1074)"
    by (simp add: ac_simps)
  then show ?thesis by (rule that)
qed

lemma rnd_difference_neg:
  assumes "rnd x = x" and "rnd y = y" and "x < y"
  shows "rnd (x - y) < 0"
proof -
  obtain a b where "x = of_int a * 2 powi (-1074)" "y = of_int b * 2 powi (-1074)"
    using assms(1,2) rnd_fixed_multiple by metis
  then have d: "x - y = of_int (a - b) * 2 powi (-1074)" by (simp add: left_diff_distrib)
  have "of_int (a - b) < (0::rat)"
    using assms(3) pow2_pos [of "-1074"] d
    by (metis diff_less_0_iff_less mult_less_0_iff order_less_asym)
  then have "a - b \<le> -1" by simp
  then have "(of_int (a - b) :: rat) \<le> of_int (-1)" by (simp only: of_int_le_iff)
  then have "x - y \<le> of_int (-1) * 2 powi (-1074)"
    unfolding d by (intro mult_right_mono) simp_all
  then have "rnd (x - y) \<le> rnd (of_int (-1) * 2 powi (-1074))" by (rule rnd_mono)
  also have "\<dots> = of_int (-1) * 2 powi (-1074)" by (rule rnd_grid) simp_all
  also have "\<dots> < 0" by simp
  finally show ?thesis .
qed

subsection \<open>An integral total absorbs the rounding error\<close>

lemma round_half_even_half: "even n \<Longrightarrow> round_half_even (of_int n + 1/2) = n"
proof -
  assume "even n"
  moreover have "\<lfloor>of_int n + 1/2 :: rat\<rfloor> = n" by (intro floor_unique) simp_all
  ultimately show ?thesis by (simp add: round_half_even_def Let_def)
qed

lemma rnd_integral_absorbs:
  assumes "0 < t" and "t < 2 ^ 52"
  shows "rnd (of_int t + 2 powi ulp_exp (of_int t) / 2) = of_int t"
proof -
  define k where "k = ilog2 (of_int t)"
  have t: "2 powi k \<le> (of_int t :: rat)" "of_int t < (2::rat) powi (k + 1)"
    using ilog2_bounds [of "of_int t"] assms(1) by (simp_all add: k_def)
  have "of_int t < (of_int (2 ^ 52) :: rat)" using assms(2) by (simp only: of_int_less_iff)
  then have "(2::rat) powi k < 2 powi 52" using t(1) by simp
  then have k52: "k < 52" by (simp only: pow2_less_iff)
  have "1 \<le> (of_int t :: rat)" using assms(1) by simp
  then have "(2::rat) powi 0 < 2 powi (k + 1)" using t(2) by simp
  then have k0: "0 \<le> k" by (simp only: pow2_less_iff)
  have e: "ulp_exp (of_int t) = k - 52"
    using assms(1) k0 by (simp add: ulp_exp_def k_def)
  define h :: rat where "h = 2 powi (k - 52) / 2"
  have "(2::rat) powi (k - 52) \<le> 2 powi (-1)" using k52 by (intro pow2_mono) simp
  then have h: "0 < h" "h < 1" by (simp_all add: h_def power_int_minus)
  have "t < 2 ^ nat (k + 1)"
  proof -
    have "(of_int t :: rat) < of_int (2 ^ nat (k + 1))" using t(2) k0 by (simp add: pow2_int)
    then show ?thesis by (simp only: of_int_less_iff)
  qed
  then have "(of_int (t + 1) :: rat) \<le> of_int (2 ^ nat (k + 1))"
    by (simp only: of_int_le_iff)
  then have th: "of_int t + h < 2 powi (k + 1)"
    using h k0 by (simp add: pow2_int)
  have "ilog2 (of_int t + h) = k" using t h th by (intro ilog2_unique) linarith+
  then have eh: "ulp_exp (of_int t + h) = k - 52"
    using assms(1) h k0 by (simp add: ulp_exp_def)
  have q: "(of_int t + h) / 2 powi (k - 52) = of_int (t * 2 ^ nat (52 - k)) + 1/2"
    using grid_scale [of "k - 52" 0 t] k52 by (simp add: h_def add_divide_distrib)
  have "round_half_even ((of_int t + h) / 2 powi (k - 52)) = t * 2 ^ nat (52 - k)"
    unfolding q using k52 by (intro round_half_even_half) simp
  moreover have "of_int (t * 2 ^ nat (52 - k)) * 2 powi (k - 52) = (of_int t :: rat)"
  proof -
    have "(of_int (2 ^ nat (52 - k)) :: rat) = 2 powi (52 - k)"
      using k52 by (simp add: pow2_int)
    moreover have "(2::rat) powi (52 - k) * 2 powi (k - 52) = 1"
      by (simp flip: power_int_add)
    ultimately show ?thesis by (simp only: of_int_mult mult.assoc mult_1_right)
  qed
  ultimately have "rnd (of_int t + h) = of_int t"
    using assms(1) h by (simp add: rnd_def Let_def eh)
  then show ?thesis by (simp add: e h_def)
qed

lemma rnd_placement_le_total:
  assumes u: "0 \<le> u" "rnd u = u" and t: "0 \<le> t" "t < 2 ^ 52"
    and r: "0 \<le> r" "r \<le> rnd (of_int t - u)"
  shows "rnd (u + r) \<le> of_int t"
proof -
  let ?x = "of_int t - u"
  have rt: "rnd (of_int t) = of_int t" using t by (intro rnd_of_int) simp
  consider "?x < 0" | "?x = 0" | "0 < ?x" by linarith
  then show ?thesis
  proof cases
    case 1
    then have "rnd ?x < 0" using rnd_difference_neg [OF rt u(2)] by simp
    with r show ?thesis by simp
  next
    case 2
    with r rt show ?thesis by simp
  next
    case 3
    then have t0: "0 < t" using u(1) by simp
    have "u + r \<le> u + rnd ?x" using r by simp
    also have "\<dots> \<le> of_int t + 2 powi ulp_exp ?x / 2"
      using abs_le_D1 [OF rnd_error [of ?x]] by linarith
    also have "\<dots> \<le> of_int t + 2 powi ulp_exp (of_int t) / 2"
      using 3 u(1) by (simp add: pow2_mono ulp_exp_mono)
    finally have "rnd (u + r) \<le> rnd (of_int t + 2 powi ulp_exp (of_int t) / 2)"
      by (rule rnd_mono)
    then show ?thesis by (simp add: rnd_integral_absorbs [OF t0 t(2)])
  qed
qed

section \<open>The type and its operations\<close>

datatype f64 = NaN | PosInf | NegInf | Fin rat

definition f64_of_rat :: "rat \<Rightarrow> f64" where
  "f64_of_rat x =
     (let r = rnd x
      in if 2 ^ 1024 \<le> r then PosInf else if r \<le> - (2 ^ 1024) then NegInf else Fin r)"

definition f64_of_int :: "int \<Rightarrow> f64" where
  "f64_of_int n = f64_of_rat (of_int n)"

fun f64_neg :: "f64 \<Rightarrow> f64" where
  "f64_neg NaN = NaN"
| "f64_neg PosInf = NegInf"
| "f64_neg NegInf = PosInf"
| "f64_neg (Fin x) = Fin (- x)"

fun f64_add :: "f64 \<Rightarrow> f64 \<Rightarrow> f64" where
  "f64_add NaN _ = NaN"
| "f64_add _ NaN = NaN"
| "f64_add PosInf NegInf = NaN"
| "f64_add NegInf PosInf = NaN"
| "f64_add PosInf _ = PosInf"
| "f64_add _ PosInf = PosInf"
| "f64_add NegInf _ = NegInf"
| "f64_add _ NegInf = NegInf"
| "f64_add (Fin x) (Fin y) = f64_of_rat (x + y)"

definition f64_sub :: "f64 \<Rightarrow> f64 \<Rightarrow> f64" where
  "f64_sub x y = f64_add x (f64_neg y)"

text \<open>
  Division is used under the guard that the divisor is positive; a zero divisor is the positive
  zero here.
\<close>

fun f64_div :: "f64 \<Rightarrow> f64 \<Rightarrow> f64" where
  "f64_div NaN _ = NaN"
| "f64_div _ NaN = NaN"
| "f64_div (Fin x) (Fin y) =
     (if y = 0 then (if x = 0 then NaN else if 0 < x then PosInf else NegInf)
      else f64_of_rat (x / y))"
| "f64_div (Fin x) _ = Fin 0"
| "f64_div PosInf (Fin y) = (if y < 0 then NegInf else PosInf)"
| "f64_div NegInf (Fin y) = (if y < 0 then PosInf else NegInf)"
| "f64_div _ _ = NaN"

fun f64_le :: "f64 \<Rightarrow> f64 \<Rightarrow> bool" where
  "f64_le NaN _ = False"
| "f64_le _ NaN = False"
| "f64_le NegInf _ = True"
| "f64_le _ PosInf = True"
| "f64_le (Fin x) (Fin y) = (x \<le> y)"
| "f64_le _ _ = False"

fun f64_lt :: "f64 \<Rightarrow> f64 \<Rightarrow> bool" where
  "f64_lt NaN _ = False"
| "f64_lt _ NaN = False"
| "f64_lt (Fin x) (Fin y) = (x < y)"
| "f64_lt NegInf NegInf = False"
| "f64_lt NegInf _ = True"
| "f64_lt PosInf PosInf = False"
| "f64_lt _ PosInf = True"
| "f64_lt _ _ = False"

text \<open>Go's comparison and arithmetic operators on \<open>float64\<close> are HOL's overloaded ones.\<close>

instantiation f64 :: "{zero, plus, minus, ord}"
begin
definition zero_f64 where "0 = Fin 0"
definition plus_f64 where "x + y = f64_add x y"
definition minus_f64 where "x - y = f64_sub x y"
definition less_eq_f64 where "x \<le> y = f64_le x y"
definition less_f64 where "x < y = f64_lt x y"
instance ..
end

lemma f64_le_Fin [simp]: "Fin x \<le> Fin y \<longleftrightarrow> x \<le> y"
  by (simp add: less_eq_f64_def)

lemma f64_less_Fin [simp]: "Fin x < Fin y \<longleftrightarrow> x < y"
  by (simp add: less_f64_def)

lemma f64_plus_Fin: "Fin x + Fin y = f64_of_rat (x + y)"
  by (simp add: plus_f64_def)

lemma f64_minus_Fin: "Fin x - Fin y = f64_of_rat (x - y)"
  by (simp add: minus_f64_def f64_sub_def)

lemma f64_not_NaN_le [simp]: "\<not> NaN \<le> (x :: f64)" "\<not> (x :: f64) \<le> NaN"
  by (cases x; simp add: less_eq_f64_def)+

subsection \<open>Values a \<open>float64\<close> can hold\<close>

fun f64_ok :: "f64 \<Rightarrow> bool" where
  "f64_ok (Fin x) = (rnd x = x \<and> \<bar>x\<bar> < 2 ^ 1024)"
| "f64_ok _ = True"

lemma f64_ok_of_rat [simp]: "f64_ok (f64_of_rat x)"
  by (auto simp: f64_of_rat_def Let_def)

lemma f64_ok_neg: "f64_ok x \<Longrightarrow> f64_ok (f64_neg x)"
  by (cases x) simp_all

lemma f64_ok_plus: "f64_ok x \<Longrightarrow> f64_ok y \<Longrightarrow> f64_ok (x + y)"
  unfolding plus_f64_def by (cases x; cases y) simp_all

lemma f64_ok_minus: "f64_ok x \<Longrightarrow> f64_ok y \<Longrightarrow> f64_ok (x - y)"
  unfolding minus_f64_def f64_sub_def
  by (cases x; cases y) (simp_all add: f64_ok_neg)

lemma f64_of_rat_le_Fin:
  "f64_of_rat x \<le> Fin y \<Longrightarrow> \<bar>y\<bar> < 2 ^ 1024 \<Longrightarrow> rnd x \<le> y"
  by (auto simp: f64_of_rat_def Let_def less_eq_f64_def split: if_splits)

lemma Fin_le_f64_of_rat:
  "Fin y \<le> f64_of_rat x \<Longrightarrow> \<bar>y\<bar> < 2 ^ 1024 \<Longrightarrow> y \<le> rnd x"
  by (auto simp: f64_of_rat_def Let_def less_eq_f64_def split: if_splits)

text \<open>
  The step of the scheduler: where the free capacity \<open>total - used\<close>, computed in floating point,
  covers the request, the new \<open>used + request\<close>, computed in floating point, does not exceed an
  integral total.
\<close>

lemma f64_placement_le_total:
  assumes u: "0 \<le> u" "f64_ok (Fin u)" and t: "0 \<le> t" "t < 2 ^ 52"
    and r: "0 \<le> r" "f64_ok (Fin r)"
    and fits: "Fin r \<le> Fin (of_int t) - Fin u"
  obtains v where "Fin u + Fin r = Fin v" and "0 \<le> v" and "v \<le> of_int t" and "f64_ok (Fin v)"
proof -
  have "r \<le> rnd (of_int t - u)"
    using fits r(2) by (intro Fin_le_f64_of_rat) (simp_all add: f64_minus_Fin)
  then have le: "rnd (u + r) \<le> of_int t"
    using u t r(1) by (intro rnd_placement_le_total) simp_all
  have ge: "0 \<le> rnd (u + r)" using u(1) r(1) by (simp add: rnd_nonneg)
  have "(of_int t :: rat) < of_int (2 ^ 52)" using t(2) by (simp only: of_int_less_iff)
  then have small: "(of_int t :: rat) < 2 ^ 1024" by simp
  have eq: "Fin u + Fin r = Fin (rnd (u + r))"
    using le ge small by (auto simp: f64_plus_Fin f64_of_rat_def Let_def)
  show ?thesis
    using le ge small by (intro that [OF eq]) auto
qed

section \<open>Multiplication and conversions\<close>

fun f64_mul :: "f64 \<Rightarrow> f64 \<Rightarrow> f64" where
  "f64_mul NaN _ = NaN"
| "f64_mul _ NaN = NaN"
| "f64_mul (Fin x) (Fin y) = f64_of_rat (x * y)"
| "f64_mul (Fin x) y = (if x = 0 then NaN else if 0 < x then y else f64_neg y)"
| "f64_mul x (Fin y) = (if y = 0 then NaN else if 0 < y then x else f64_neg x)"
| "f64_mul x y = (if x = y then PosInf else NegInf)"

text \<open>
  \<open>int64(x)\<close> drops the fraction. For a NaN, an infinity or a value outside of the range of \<open>int64\<close>
  Go leaves the result to the implementation: \<open>None\<close>.
\<close>

definition f64_to_int64 :: "f64 \<Rightarrow> int option" where
  "f64_to_int64 x =
     (case x of
        Fin r \<Rightarrow>
          (let t = (if 0 \<le> r then \<lfloor>r\<rfloor> else \<lceil>r\<rceil>)
           in if - (2 ^ 63) \<le> t \<and> t < 2 ^ 63 then Some t else None)
      | _ \<Rightarrow> None)"

lemma f64_mul_finite_nonneg:
  assumes "f64_mul (Fin x) (Fin y) = Fin z" and "0 \<le> x" and "0 \<le> y"
  shows "0 \<le> z"
  using assms rnd_nonneg [of "x * y"] by (auto simp: f64_of_rat_def Let_def split: if_splits)

end
