(* ===== verification/Domain.thy ===== *)
theory Domain
  imports Float64
begin

text \<open>
  The data models of \<open>internal/domain/models.go\<close>: the status and role constants, one record per
  struct (the field \<open>Status\<close> of \<open>Node\<close> is \<open>nStatus\<close>, and so on), and the methods. Statuses and roles
  are strings in the code, not an enumeration, and stay strings here: a log entry can carry any
  text. \<open>float64\<close> is \<^typ>\<open>f64\<close>, \<open>int64\<close> is a 64-bit word compared as signed, \<open>int\<close> fields that are
  only copied, compared or counted are integers. \<open>EnvVars\<close>, a map from strings to strings, is an
  association list with distinct keys.
\<close>

section \<open>Constants\<close>

definition NodeAlive :: go_string where "NodeAlive = ''ALIVE''"
definition NodeSuspect :: go_string where "NodeSuspect = ''SUSPECT''"
definition NodeDead :: go_string where "NodeDead = ''DEAD''"
definition NodeRemoved :: go_string where "NodeRemoved = ''REMOVED''"
definition ContainerPending :: go_string where "ContainerPending = ''PENDING''"
definition ContainerScheduled :: go_string where "ContainerScheduled = ''SCHEDULED''"
definition ContainerRunning :: go_string where "ContainerRunning = ''RUNNING''"
definition ContainerFailed :: go_string where "ContainerFailed = ''FAILED''"
definition ContainerRescheduling :: go_string where "ContainerRescheduling = ''RESCHEDULING''"
definition ContainerStopped :: go_string where "ContainerStopped = ''STOPPED''"
definition RoleAdmin :: go_string where "RoleAdmin = ''ADMIN''"
definition RoleWriter :: go_string where "RoleWriter = ''WRITER''"
definition RoleReader :: go_string where "RoleReader = ''READER''"

lemmas node_status_defs = NodeAlive_def NodeSuspect_def NodeDead_def NodeRemoved_def

lemmas container_status_defs = ContainerPending_def ContainerScheduled_def ContainerRunning_def
  ContainerFailed_def ContainerRescheduling_def ContainerStopped_def

lemma distinct_node_statuses: "distinct [NodeAlive, NodeSuspect, NodeDead, NodeRemoved]"
  by (simp add: node_status_defs)

lemma distinct_container_statuses:
  "distinct [ContainerPending, ContainerScheduled, ContainerRunning, ContainerFailed,
     ContainerRescheduling, ContainerStopped]"
  by (simp add: container_status_defs)

lemma distinct_roles: "distinct [RoleAdmin, RoleWriter, RoleReader]"
  by (simp add: RoleAdmin_def RoleWriter_def RoleReader_def)

lemma node_status_neq [go_consts, simp]:
  "NodeAlive \<noteq> NodeSuspect" "NodeAlive \<noteq> NodeDead" "NodeAlive \<noteq> NodeRemoved"
  "NodeSuspect \<noteq> NodeAlive" "NodeSuspect \<noteq> NodeDead" "NodeSuspect \<noteq> NodeRemoved"
  "NodeDead \<noteq> NodeAlive" "NodeDead \<noteq> NodeSuspect" "NodeDead \<noteq> NodeRemoved"
  "NodeRemoved \<noteq> NodeAlive" "NodeRemoved \<noteq> NodeSuspect" "NodeRemoved \<noteq> NodeDead"
  using distinct_node_statuses by auto

lemma container_status_neq [go_consts, simp]:
  "ContainerPending \<noteq> ContainerScheduled" "ContainerPending \<noteq> ContainerRunning"
  "ContainerPending \<noteq> ContainerFailed" "ContainerPending \<noteq> ContainerRescheduling" "ContainerPending \<noteq> ContainerStopped"
  "ContainerScheduled \<noteq> ContainerPending" "ContainerScheduled \<noteq> ContainerRunning"
  "ContainerScheduled \<noteq> ContainerFailed" "ContainerScheduled \<noteq> ContainerRescheduling" "ContainerScheduled \<noteq> ContainerStopped"
  "ContainerRunning \<noteq> ContainerPending" "ContainerRunning \<noteq> ContainerScheduled"
  "ContainerRunning \<noteq> ContainerFailed" "ContainerRunning \<noteq> ContainerRescheduling" "ContainerRunning \<noteq> ContainerStopped"
  "ContainerFailed \<noteq> ContainerPending" "ContainerFailed \<noteq> ContainerScheduled" "ContainerFailed \<noteq> ContainerRunning"
  "ContainerFailed \<noteq> ContainerRescheduling" "ContainerFailed \<noteq> ContainerStopped"
  "ContainerRescheduling \<noteq> ContainerPending" "ContainerRescheduling \<noteq> ContainerScheduled" "ContainerRescheduling \<noteq> ContainerRunning"
  "ContainerRescheduling \<noteq> ContainerFailed" "ContainerRescheduling \<noteq> ContainerStopped"
  "ContainerStopped \<noteq> ContainerPending" "ContainerStopped \<noteq> ContainerScheduled" "ContainerStopped \<noteq> ContainerRunning"
  "ContainerStopped \<noteq> ContainerFailed" "ContainerStopped \<noteq> ContainerRescheduling"
  using distinct_container_statuses by auto

section \<open>Time\<close>

text \<open>
  A \<open>time.Time\<close> is the number of nanoseconds since the Unix epoch; the zero \<open>Time\<close> is the first of
  January of year 1. A \<open>time.Duration\<close> is a signed 64-bit number of nanoseconds, and \<open>Time.Sub\<close>
  saturates at its ends.
\<close>

type_synonym go_time = int
type_synonym duration = int

definition second :: duration where "second = 1000000000"

definition zero_time :: go_time where "zero_time = -62135596800 * second"

definition time_Sub :: "go_time \<Rightarrow> go_time \<Rightarrow> duration" where
  "time_Sub t u = max (- (2 ^ 63)) (min (2 ^ 63 - 1) (t - u))"

lemma time_Sub_exact: "- (2 ^ 63) \<le> t - u \<Longrightarrow> t - u < 2 ^ 63 \<Longrightarrow> time_Sub t u = t - u"
  by (simp add: time_Sub_def)

lemma time_Sub_antimono: "u \<le> v \<Longrightarrow> time_Sub t v \<le> time_Sub t u"
  unfolding time_Sub_def by (intro max.mono min.mono) simp_all

section \<open>Structs\<close>

record container =
  cID :: go_string
  cServiceID :: go_string
  cNodeID :: go_string
  cDockerID :: go_string
  cStatus :: go_string
  cStartedAt :: go_time

record node =
  nID :: go_string
  nAddress :: go_string
  nStatus :: go_string
  nTotalCPU :: f64
  nUsedCPU :: f64
  nTotalRAM :: i64
  nUsedRAM :: i64
  nLastHeartbeat :: go_time
  nContainers :: "container list"

record service =
  sID :: go_string
  sName :: go_string
  sImage :: go_string
  sRequiredCPU :: f64
  sRequiredRAM :: i64
  sReplicas :: int
  sDesiredReplicas :: int
  sPoolID :: go_string
  sContainers :: "container list"
  sCreatedBy :: go_string
  sEnvVars :: "(go_string \<times> go_string) list"
  sPorts :: "int list"
  sCmd :: "go_string list"

record resource_pool =
  pID :: go_string
  pName :: go_string
  pMinCPU :: f64
  pMaxCPU :: f64
  pMinRAM :: i64
  pMaxRAM :: i64
  pNodeIDs :: "go_string list"

record audit_entry =
  aTimestamp :: go_time
  aUserID :: go_string
  aAction :: go_string
  aResource :: go_string
  aDetails :: go_string

record user =
  uID :: go_string
  uUsername :: go_string
  uRole :: go_string
  uTokenHash :: go_string

record heartbeat =
  hbNodeID :: go_string
  hbAddress :: go_string
  hbTotalCPU :: f64
  hbUsedCPU :: f64
  hbTotalRAM :: i64
  hbUsedRAM :: i64
  hbContainers :: "go_string list"

text \<open>The zero values of the structs, which a composite literal starts from.\<close>

definition zero_container :: container where
  "zero_container = \<lparr>cID = '''', cServiceID = '''', cNodeID = '''', cDockerID = '''', cStatus = '''',
     cStartedAt = zero_time\<rparr>"

definition zero_node :: node where
  "zero_node = \<lparr>nID = '''', nAddress = '''', nStatus = '''', nTotalCPU = 0, nUsedCPU = 0,
     nTotalRAM = 0, nUsedRAM = 0, nLastHeartbeat = zero_time, nContainers = []\<rparr>"

definition zero_service :: service where
  "zero_service = \<lparr>sID = '''', sName = '''', sImage = '''', sRequiredCPU = 0, sRequiredRAM = 0,
     sReplicas = 0, sDesiredReplicas = 0, sPoolID = '''', sContainers = [], sCreatedBy = '''',
     sEnvVars = [], sPorts = [], sCmd = []\<rparr>"

definition zero_pool :: resource_pool where
  "zero_pool = \<lparr>pID = '''', pName = '''', pMinCPU = 0, pMaxCPU = 0, pMinRAM = 0, pMaxRAM = 0,
     pNodeIDs = []\<rparr>"

definition zero_user :: user where
  "zero_user = \<lparr>uID = '''', uUsername = '''', uRole = '''', uTokenHash = ''''\<rparr>"

definition zero_audit_entry :: audit_entry where
  "zero_audit_entry = \<lparr>aTimestamp = zero_time, aUserID = '''', aAction = '''', aResource = '''',
     aDetails = ''''\<rparr>"

definition zero_heartbeat :: heartbeat where
  "zero_heartbeat = \<lparr>hbNodeID = '''', hbAddress = '''', hbTotalCPU = 0, hbUsedCPU = 0,
     hbTotalRAM = 0, hbUsedRAM = 0, hbContainers = []\<rparr>"

section \<open>Methods\<close>

definition IsAlive :: "node \<Rightarrow> bool" where
  "IsAlive n \<longleftrightarrow> nStatus n = NodeAlive"

definition AvailableCPU :: "node \<Rightarrow> f64" where
  "AvailableCPU n = nTotalCPU n - nUsedCPU n"

definition AvailableRAM :: "node \<Rightarrow> i64" where
  "AvailableRAM n = nTotalRAM n - nUsedRAM n"

definition MatchesNode :: "resource_pool \<Rightarrow> node \<Rightarrow> bool" where
  "MatchesNode p n \<longleftrightarrow>
     pMinCPU p \<le> nTotalCPU n \<and> nTotalCPU n \<le> pMaxCPU p \<and>
     pMinRAM p <=s nTotalRAM n \<and> nTotalRAM n <=s pMaxRAM p"

fun AvailableCapacity_loop :: "f64 \<Rightarrow> i64 \<Rightarrow> node list \<Rightarrow> f64 \<times> i64" where
  "AvailableCapacity_loop cpu ram [] = (cpu, ram)"
| "AvailableCapacity_loop cpu ram (n # ns) =
     (if IsAlive n
      then AvailableCapacity_loop (cpu + AvailableCPU n) (ram + AvailableRAM n) ns
      else AvailableCapacity_loop cpu ram ns)"

definition AvailableCapacity :: "node list \<Rightarrow> f64 \<times> i64" where
  "AvailableCapacity ns = AvailableCapacity_loop 0 0 ns"

lemma AvailableCapacity_alive_only:
  "AvailableCapacity ns = AvailableCapacity (filter IsAlive ns)"
proof -
  have "AvailableCapacity_loop c r ns = AvailableCapacity_loop c r (filter IsAlive ns)" for c r
    by (induction ns arbitrary: c r) simp_all
  then show ?thesis by (simp add: AvailableCapacity_def)
qed

text \<open>Signed 64-bit subtraction does not wrap between nonnegative values.\<close>

lemma sint_i64_range: "- (2 ^ 63) \<le> sint (w :: i64)" "sint (w :: i64) < 2 ^ 63"
  using sint_range_size [of w] by (simp_all add: word_size)

lemma sint_diff_nonneg:
  fixes t u :: i64
  assumes "0 \<le> sint t" and "0 \<le> sint u"
  shows "sint (t - u) = sint t - sint u"
proof -
  have "- (2 ^ 63) \<le> sint t - sint u" "sint t - sint u < 2 ^ 63"
    using assms sint_i64_range [of t] sint_i64_range [of u] by linarith+
  then show ?thesis
    by (simp add: sint_word_ariths(2) signed_take_bit_int_eq_self)
qed

lemma sint_add_bounded:
  fixes u r :: i64
  assumes "0 \<le> sint u" and "0 \<le> sint r" and "sint u + sint r < 2 ^ 63"
  shows "sint (u + r) = sint u + sint r"
  using assms by (simp add: sint_word_ariths(1) signed_take_bit_int_eq_self)

end
