(* ===== verification/AccessControl.thy ===== *)
theory AccessControl
  imports Domain
begin

text \<open>
  The access control lists of \<open>internal/security/acl.go\<close>: the rules per role, and the check the
  authentication middleware of the API makes for every protected route.
\<close>

section \<open>Rules\<close>

record permission =
  pmResource :: go_string
  pmAction :: go_string

definition allow :: "go_string \<Rightarrow> go_string \<Rightarrow> permission" where
  "allow resource action = \<lparr>pmResource = resource, pmAction = action\<rparr>"

definition aclRules :: "go_string \<rightharpoonup> permission list" where
  "aclRules =
     [RoleAdmin \<mapsto>
        [allow ''services'' ''read'', allow ''services'' ''create'', allow ''services'' ''delete'',
         allow ''nodes'' ''read'', allow ''pools'' ''read'', allow ''users'' ''read'',
         allow ''users'' ''create'', allow ''audit'' ''read''],
      RoleWriter \<mapsto>
        [allow ''services'' ''read'', allow ''services'' ''create'', allow ''services'' ''delete'',
         allow ''nodes'' ''read'', allow ''pools'' ''read'', allow ''audit'' ''read''],
      RoleReader \<mapsto>
        [allow ''services'' ''read'', allow ''nodes'' ''read'', allow ''pools'' ''read'',
         allow ''audit'' ''read'']]"

fun CheckPermission_loop :: "go_string \<Rightarrow> go_string \<Rightarrow> permission list \<Rightarrow> bool" where
  "CheckPermission_loop resource action [] = False"
| "CheckPermission_loop resource action (p # ps) =
     (if pmResource p = resource \<and> pmAction p = action then True
      else CheckPermission_loop resource action ps)"

definition CheckPermission :: "go_string \<Rightarrow> go_string \<Rightarrow> go_string \<Rightarrow> bool" where
  "CheckPermission role resource action =
     (case aclRules role of
        None \<Rightarrow> False
      | Some perms \<Rightarrow> CheckPermission_loop resource action perms)"

section \<open>What the rules allow\<close>

lemma role_neq [go_consts, simp]:
  "RoleAdmin \<noteq> RoleWriter" "RoleAdmin \<noteq> RoleReader" "RoleWriter \<noteq> RoleAdmin"
  "RoleWriter \<noteq> RoleReader" "RoleReader \<noteq> RoleAdmin" "RoleReader \<noteq> RoleWriter"
  using distinct_roles by auto

lemma CheckPermission_loop_iff:
  "CheckPermission_loop resource action ps \<longleftrightarrow> allow resource action \<in> set ps"
proof (induction ps)
  case (Cons p ps)
  have "pmResource p = resource \<and> pmAction p = action \<longleftrightarrow> allow resource action = p"
    by (cases p) (auto simp: allow_def)
  with Cons show ?case by simp
qed simp

lemma allow_eq [simp]: "allow r a = allow r' a' \<longleftrightarrow> r = r' \<and> a = a'"
  by (simp add: allow_def)

lemma CheckPermission_iff:
  "CheckPermission role r a \<longleftrightarrow> (\<exists>ps. aclRules role = Some ps \<and> allow r a \<in> set ps)"
  by (simp add: CheckPermission_def CheckPermission_loop_iff split: option.split)

lemma aclRules_simps [simp]:
  "CheckPermission RoleReader r a \<longleftrightarrow>
     a = ''read'' \<and> r \<in> {''services'', ''nodes'', ''pools'', ''audit''}"
  "CheckPermission RoleWriter r a \<longleftrightarrow>
     a = ''read'' \<and> r \<in> {''services'', ''nodes'', ''pools'', ''audit''} \<or>
     r = ''services'' \<and> a \<in> {''create'', ''delete''}"
  "CheckPermission RoleAdmin r a \<longleftrightarrow>
     a = ''read'' \<and> r \<in> {''services'', ''nodes'', ''pools'', ''audit'', ''users''} \<or>
     r = ''services'' \<and> a \<in> {''create'', ''delete''} \<or> r = ''users'' \<and> a = ''create''"
  by (auto simp: CheckPermission_iff aclRules_def)

lemma CheckPermission_known_role:
  "CheckPermission role r a \<Longrightarrow> role \<in> {RoleAdmin, RoleWriter, RoleReader}"
  by (auto simp: CheckPermission_iff aclRules_def split: if_splits)

section \<open>Properties\<close>

text \<open>
  The roles form a hierarchy and nothing else is allowed. What a reader may do a writer may do,
  and what a writer may do an admin may do; a role outside the three is denied everything; an action
  other than reading is denied to readers, and to writers except on services; the user accounts are
  for admins only.
\<close>

theorem acl_hierarchy:
  "(CheckPermission RoleReader r a \<longrightarrow> CheckPermission RoleWriter r a) \<and>
   (CheckPermission RoleWriter r a \<longrightarrow> CheckPermission RoleAdmin r a) \<and>
   (role \<notin> {RoleAdmin, RoleWriter, RoleReader} \<longrightarrow> \<not> CheckPermission role r a) \<and>
   (CheckPermission role r a \<and> a \<noteq> ''read'' \<longrightarrow>
      role = RoleAdmin \<or> role = RoleWriter \<and> r = ''services'') \<and>
   (CheckPermission role ''users'' a \<longrightarrow> role = RoleAdmin)"
proof (intro conjI impI)
  show "\<not> CheckPermission role r a" if "role \<notin> {RoleAdmin, RoleWriter, RoleReader}"
    using that CheckPermission_known_role by blast
  show "role = RoleAdmin \<or> role = RoleWriter \<and> r = ''services''"
    if "CheckPermission role r a \<and> a \<noteq> ''read''"
    using that CheckPermission_known_role [of role r a] by auto
  show "role = RoleAdmin" if "CheckPermission role ''users'' a"
    using that CheckPermission_known_role [OF that] by auto
qed auto

theorem acl_hierarchy_witness:
  "CheckPermission RoleWriter ''nodes'' ''read'' \<and> \<not> CheckPermission ''GUEST'' ''nodes'' ''read'' \<and>
   \<not> CheckPermission RoleReader ''services'' ''delete''"
proof -
  have "CheckPermission RoleReader ''nodes'' ''read''" by simp
  moreover have "''GUEST'' \<notin> {RoleAdmin, RoleWriter, RoleReader}"
    by (simp add: RoleAdmin_def RoleWriter_def RoleReader_def)
  ultimately show ?thesis
    using acl_hierarchy [of "''nodes''" "''read''" "''GUEST''"]
      acl_hierarchy [of "''services''" "''delete''" RoleReader] by simp
qed

end
