(* ===== verification/ClusterState.thy ===== *)
theory ClusterState
  imports Domain "HOL-Library.Sublist"
begin

text \<open>
  The in-memory cluster state of \<open>internal/cluster/state.go\<close>: five maps from IDs to entities and the
  audit log. Every method of \<open>State\<close> holds the mutex from its first to its last line, so each is one
  atomic step: a function from the state to the result and the new state. A map holds pointers; a
  method that writes through a pointer it has looked up updates the entry of that key here.

  The interface the other components rely on is the locale \<open>entity_table\<close> (what a lookup returns
  after an insert) and its extension \<open>removable_table\<close>; both are interpreted on the five tables.
\<close>

section \<open>The state\<close>

record state =
  nodes :: "go_string \<rightharpoonup> node"
  services :: "go_string \<rightharpoonup> service"
  containers :: "go_string \<rightharpoonup> container"
  pools :: "go_string \<rightharpoonup> resource_pool"
  users :: "go_string \<rightharpoonup> user"
  audit :: "audit_entry list"

datatype state_error = NodeNotFound go_string | ContainerNotFound go_string

definition NewState :: state where
  "NewState = \<lparr>nodes = Map.empty, services = Map.empty, containers = Map.empty,
     pools = Map.empty, users = Map.empty, audit = []\<rparr>"

subsection \<open>Nodes\<close>

definition AddNode :: "node \<Rightarrow> state \<Rightarrow> state" where
  "AddNode node s = s\<lparr>nodes := (nodes s)(nID node \<mapsto> node)\<rparr>"

definition GetNode :: "go_string \<Rightarrow> state \<Rightarrow> node option" where
  "GetNode i s = nodes s i"

definition GetAllNodes :: "go_string list \<Rightarrow> state \<Rightarrow> node list" where
  "GetAllNodes ord s = range_vals ord (nodes s)"

definition RemoveNode :: "go_string \<Rightarrow> state \<Rightarrow> state" where
  "RemoveNode i s = s\<lparr>nodes := (nodes s)(i := None)\<rparr>"

definition UpdateNodeFromHeartbeat ::
  "go_time \<Rightarrow> heartbeat \<Rightarrow> state \<Rightarrow> state_error option \<times> state" where
  "UpdateNodeFromHeartbeat now hb s =
     (case nodes s (hbNodeID hb) of
        None \<Rightarrow> (Some (NodeNotFound (hbNodeID hb)), s)
      | Some n \<Rightarrow>
          (let n1 = n\<lparr>nAddress := hbAddress hb, nTotalCPU := hbTotalCPU hb,
                 nUsedCPU := hbUsedCPU hb, nTotalRAM := hbTotalRAM hb,
                 nUsedRAM := hbUsedRAM hb, nLastHeartbeat := now\<rparr>;
               n2 = (if nStatus n1 \<noteq> NodeDead then n1\<lparr>nStatus := NodeAlive\<rparr> else n1)
           in (None, s\<lparr>nodes := (nodes s)(hbNodeID hb \<mapsto> n2)\<rparr>)))"

definition SetNodeStatus ::
  "go_string \<Rightarrow> go_string \<Rightarrow> state \<Rightarrow> state_error option \<times> state" where
  "SetNodeStatus nodeID status s =
     (case nodes s nodeID of
        None \<Rightarrow> (Some (NodeNotFound nodeID), s)
      | Some n \<Rightarrow> (None, s\<lparr>nodes := (nodes s)(nodeID \<mapsto> n\<lparr>nStatus := status\<rparr>)\<rparr>))"

subsection \<open>Services\<close>

definition AddService :: "service \<Rightarrow> state \<Rightarrow> state" where
  "AddService svc s = s\<lparr>services := (services s)(sID svc \<mapsto> svc)\<rparr>"

definition GetService :: "go_string \<Rightarrow> state \<Rightarrow> service option" where
  "GetService i s = services s i"

definition GetAllServices :: "go_string list \<Rightarrow> state \<Rightarrow> service list" where
  "GetAllServices ord s = range_vals ord (services s)"

definition RemoveService :: "go_string \<Rightarrow> state \<Rightarrow> state" where
  "RemoveService i s = s\<lparr>services := (services s)(i := None)\<rparr>"

subsection \<open>Containers\<close>

definition AddContainer :: "container \<Rightarrow> state \<Rightarrow> state" where
  "AddContainer c s = s\<lparr>containers := (containers s)(cID c \<mapsto> c)\<rparr>"

definition GetContainer :: "go_string \<Rightarrow> state \<Rightarrow> container option" where
  "GetContainer i s = containers s i"

definition GetContainersByNode :: "go_string list \<Rightarrow> go_string \<Rightarrow> state \<Rightarrow> container list" where
  "GetContainersByNode ord nodeID s =
     filter (\<lambda>c. cNodeID c = nodeID) (range_vals ord (containers s))"

definition GetActiveContainersByNode ::
  "go_string list \<Rightarrow> go_string \<Rightarrow> state \<Rightarrow> container list" where
  "GetActiveContainersByNode ord nodeID s =
     filter (\<lambda>c. cNodeID c = nodeID \<and>
         (cStatus c = ContainerRunning \<or> cStatus c = ContainerScheduled))
       (range_vals ord (containers s))"

definition GetContainersByStatus :: "go_string list \<Rightarrow> go_string \<Rightarrow> state \<Rightarrow> container list" where
  "GetContainersByStatus ord status s =
     filter (\<lambda>c. cStatus c = status) (range_vals ord (containers s))"

definition GetContainersByService :: "go_string list \<Rightarrow> go_string \<Rightarrow> state \<Rightarrow> container list" where
  "GetContainersByService ord serviceID s =
     filter (\<lambda>c. cServiceID c = serviceID) (range_vals ord (containers s))"

definition RemoveContainer :: "go_string \<Rightarrow> state \<Rightarrow> state" where
  "RemoveContainer i s = s\<lparr>containers := (containers s)(i := None)\<rparr>"

definition SetContainerStatus ::
  "go_string \<Rightarrow> go_string \<Rightarrow> state \<Rightarrow> state_error option \<times> state" where
  "SetContainerStatus containerID status s =
     (case containers s containerID of
        None \<Rightarrow> (Some (ContainerNotFound containerID), s)
      | Some c \<Rightarrow>
          (None, s\<lparr>containers := (containers s)(containerID \<mapsto> c\<lparr>cStatus := status\<rparr>)\<rparr>))"

subsection \<open>Resource pools\<close>

definition AddPool :: "resource_pool \<Rightarrow> state \<Rightarrow> state" where
  "AddPool pool s = s\<lparr>pools := (pools s)(pID pool \<mapsto> pool)\<rparr>"

definition GetPool :: "go_string \<Rightarrow> state \<Rightarrow> resource_pool option" where
  "GetPool i s = pools s i"

definition GetAllPools :: "go_string list \<Rightarrow> state \<Rightarrow> resource_pool list" where
  "GetAllPools ord s = range_vals ord (pools s)"

text \<open>
  \<open>AssignNodeToPool\<close> stops at the first pool, in the order of the range loop, whose ranges hold the
  node's resources.
\<close>

fun AssignNodeToPool ::
  "go_string list \<Rightarrow> go_string \<Rightarrow> node \<Rightarrow> state \<Rightarrow> bool \<times> state" where
  "AssignNodeToPool [] nodeID node s = (False, s)"
| "AssignNodeToPool (k # ks) nodeID node s =
     (case pools s k of
        None \<Rightarrow> AssignNodeToPool ks nodeID node s
      | Some pool \<Rightarrow>
          if MatchesNode pool node then
            (if nodeID \<in> set (pNodeIDs pool) then (True, s)
             else (True, s\<lparr>pools := (pools s)(k \<mapsto> pool\<lparr>pNodeIDs := pNodeIDs pool @ [nodeID]\<rparr>)\<rparr>))
          else AssignNodeToPool ks nodeID node s)"

definition GetPoolNodes :: "go_string \<Rightarrow> state \<Rightarrow> node list" where
  "GetPoolNodes poolID s =
     (case pools s poolID of
        None \<Rightarrow> []
      | Some pool \<Rightarrow> range_vals (pNodeIDs pool) (nodes s))"

subsection \<open>Users and audit\<close>

definition AddUser :: "user \<Rightarrow> state \<Rightarrow> state" where
  "AddUser user s = s\<lparr>users := (users s)(uID user \<mapsto> user)\<rparr>"

definition GetAllUsers :: "go_string list \<Rightarrow> state \<Rightarrow> user list" where
  "GetAllUsers ord s = range_vals ord (users s)"

definition GetUserByUsername :: "go_string list \<Rightarrow> go_string \<Rightarrow> state \<Rightarrow> user option" where
  "GetUserByUsername ord username s =
     List.find (\<lambda>u. uUsername u = username) (range_vals ord (users s))"

definition AppendAudit :: "audit_entry \<Rightarrow> state \<Rightarrow> state" where
  "AppendAudit entry s = s\<lparr>audit := audit s @ [entry]\<rparr>"

text \<open>The filter is a nillable function value: \<open>None\<close> keeps every entry.\<close>

definition GetAuditLog :: "(audit_entry \<Rightarrow> bool) option \<Rightarrow> state \<Rightarrow> audit_entry list" where
  "GetAuditLog f s =
     filter (\<lambda>e. case f of None \<Rightarrow> True | Some g \<Rightarrow> g e) (audit s)"

subsection \<open>Snapshot and restore\<close>

record snapshot =
  snNodes :: "node list"
  snServices :: "service list"
  snContainers :: "container list"
  snPools :: "resource_pool list"
  snUsers :: "user list"
  snAudit :: "audit_entry list"

text \<open>\<open>Snapshot\<close> ranges over the five maps, each in an order of its own.\<close>

definition Snapshot ::
  "go_string list \<Rightarrow> go_string list \<Rightarrow> go_string list \<Rightarrow> go_string list \<Rightarrow> go_string list \<Rightarrow>
   state \<Rightarrow> snapshot" where
  "Snapshot on os oc op ou s =
     \<lparr>snNodes = range_vals on (nodes s), snServices = range_vals os (services s),
      snContainers = range_vals oc (containers s), snPools = range_vals op (pools s),
      snUsers = range_vals ou (users s), snAudit = audit s\<rparr>"

definition index_by :: "('v \<Rightarrow> go_string) \<Rightarrow> 'v list \<Rightarrow> (go_string \<rightharpoonup> 'v)" where
  "index_by key vs = foldl (\<lambda>m v. m(key v \<mapsto> v)) Map.empty vs"

definition Restore :: "snapshot \<Rightarrow> state \<Rightarrow> state" where
  "Restore snap s =
     s\<lparr>nodes := index_by nID (snNodes snap), services := index_by sID (snServices snap),
       containers := index_by cID (snContainers snap), pools := index_by pID (snPools snap),
       users := index_by uID (snUsers snap), audit := snAudit snap\<rparr>"

section \<open>The interface of a table\<close>

definition keyed :: "('v \<Rightarrow> go_string) \<Rightarrow> (go_string \<rightharpoonup> 'v) \<Rightarrow> bool" where
  "keyed key m \<longleftrightarrow> (\<forall>k v. m k = Some v \<longrightarrow> key v = k)"

lemma keyedD: "keyed key m \<Longrightarrow> m k = Some v \<Longrightarrow> key v = k"
  by (simp add: keyed_def)

lemma keyed_empty [simp]: "keyed key Map.empty"
  by (simp add: keyed_def)

lemma keyed_upd [intro]: "keyed key m \<Longrightarrow> key v = k \<Longrightarrow> keyed key (m(k \<mapsto> v))"
  by (auto simp: keyed_def)

lemma keyed_del [intro]: "keyed key m \<Longrightarrow> keyed key (m(k := None))"
  by (auto simp: keyed_def)

locale entity_table =
  fixes lookup :: "'s \<Rightarrow> go_string \<rightharpoonup> 'v" and add :: "'v \<Rightarrow> 's \<Rightarrow> 's" and key :: "'v \<Rightarrow> go_string"
  assumes lookup_add: "lookup (add v s) = (lookup s)(key v \<mapsto> v)"
begin

lemma lookup_add_same: "lookup (add v s) (key v) = Some v"
  by (simp add: lookup_add)

lemma lookup_add_other: "k \<noteq> key v \<Longrightarrow> lookup (add v s) k = lookup s k"
  by (simp add: lookup_add)

lemma keyed_add: "keyed key (lookup s) \<Longrightarrow> keyed key (lookup (add v s))"
  by (auto simp: lookup_add)

lemma finite_add: "finite (dom (lookup s)) \<Longrightarrow> finite (dom (lookup (add v s)))"
  by (simp add: lookup_add)

text \<open>Of several inserts under one key the last wins; inserts under distinct keys commute.\<close>

lemma lookup_add_overwrite: "key v = key w \<Longrightarrow> lookup (add v (add w s)) = lookup (add v s)"
  by (simp add: lookup_add)

lemma lookup_add_commute:
  "key v \<noteq> key w \<Longrightarrow> lookup (add v (add w s)) = lookup (add w (add v s))"
  by (simp add: lookup_add fun_upd_twist)

lemma lookup_add_all:
  "lookup (fold add vs s) k =
     (case List.find (\<lambda>v. key v = k) (rev vs) of None \<Rightarrow> lookup s k | Some v \<Rightarrow> Some v)"
proof (induction vs arbitrary: s rule: rev_induct)
  case (snoc v vs)
  then show ?case by (simp add: lookup_add)
qed simp

end

locale removable_table = entity_table lookup add key
  for lookup :: "'s \<Rightarrow> go_string \<rightharpoonup> 'v" and add :: "'v \<Rightarrow> 's \<Rightarrow> 's" and key :: "'v \<Rightarrow> go_string" +
  fixes del :: "go_string \<Rightarrow> 's \<Rightarrow> 's"
  assumes lookup_del: "lookup (del k s) = (lookup s)(k := None)"
begin

lemma lookup_del_add: "lookup (del (key v) (add v s)) = (lookup s)(key v := None)"
  by (simp add: lookup_add lookup_del)

lemma lookup_add_del: "lookup (add v (del (key v) s)) = lookup (add v s)"
  by (simp add: lookup_add lookup_del)

lemma keyed_remove: "keyed key (lookup s) \<Longrightarrow> keyed key (lookup (del k s))"
  by (auto simp: lookup_del)

end

interpretation node_table: removable_table nodes AddNode nID RemoveNode
  by unfold_locales (simp_all add: AddNode_def RemoveNode_def)

interpretation service_table: removable_table services AddService sID RemoveService
  by unfold_locales (simp_all add: AddService_def RemoveService_def)

interpretation container_table: removable_table containers AddContainer cID RemoveContainer
  by unfold_locales (simp_all add: AddContainer_def RemoveContainer_def)

interpretation pool_table: entity_table pools AddPool pID
  by unfold_locales (simp add: AddPool_def)

interpretation user_table: entity_table users AddUser uID
  by unfold_locales (simp add: AddUser_def)

lemma index_by_eq_map_of: "index_by key vs = map_of (rev (map (\<lambda>v. (key v, v)) vs))"
proof -
  have "foldl (\<lambda>m v. m(key v \<mapsto> v)) m vs = m ++ map_of (rev (map (\<lambda>v. (key v, v)) vs))" for m
    by (induction vs arbitrary: m) (simp_all add: map_add_upd_left)
  then show ?thesis by (simp add: index_by_def)
qed

lemma keyed_index_by [simp]: "keyed key (index_by key vs)"
  by (auto simp: keyed_def index_by_eq_map_of dest!: map_of_SomeD)

lemma dom_index_by [simp]: "dom (index_by key vs) = key ` set vs"
  by (simp add: index_by_eq_map_of dom_map_of_conv_image_fst image_image)

text \<open>Indexing the values of a range loop rebuilds the map, whatever the order was.\<close>

lemma index_by_range_vals:
  assumes "keyed key m" and "iterates ord m"
  shows "index_by key (range_vals ord m) = m"
proof
  fix k
  let ?vs = "range_vals ord m"
  have "map key ?vs = ord"
    using assms by (intro map_keys_range_vals) (auto dest: keyedD)
  then have d: "distinct (map fst (rev (map (\<lambda>v. (key v, v)) ?vs)))"
    using assms(2) by (simp add: rev_map [symmetric] comp_def)
  have mem: "(k, v) \<in> set (rev (map (\<lambda>v. (key v, v)) ?vs)) \<longleftrightarrow> m k = Some v" for v
    using assms by (auto simp: ran_def dest: keyedD)
  show "index_by key ?vs k = m k"
  proof (cases "m k")
    case None
    with mem show ?thesis
      by (metis index_by_eq_map_of map_of_SomeD not_Some_eq)
  next
    case (Some v)
    with mem d show ?thesis by (simp add: index_by_eq_map_of)
  qed
qed

section \<open>Effect of the operations\<close>

text \<open>What each operation leaves alone, field by field.\<close>

lemma state_frame [simp]:
  "services (AddNode n s) = services s" "containers (AddNode n s) = containers s"
  "pools (AddNode n s) = pools s" "users (AddNode n s) = users s" "audit (AddNode n s) = audit s"
  "nodes (AddService svc s) = nodes s" "containers (AddService svc s) = containers s"
  "pools (AddService svc s) = pools s" "users (AddService svc s) = users s"
  "audit (AddService svc s) = audit s"
  "nodes (AddContainer c s) = nodes s" "services (AddContainer c s) = services s"
  "pools (AddContainer c s) = pools s" "users (AddContainer c s) = users s"
  "audit (AddContainer c s) = audit s"
  "nodes (AddPool p s) = nodes s" "services (AddPool p s) = services s"
  "containers (AddPool p s) = containers s" "users (AddPool p s) = users s"
  "audit (AddPool p s) = audit s"
  "nodes (AddUser u s) = nodes s" "services (AddUser u s) = services s"
  "containers (AddUser u s) = containers s" "pools (AddUser u s) = pools s"
  "audit (AddUser u s) = audit s"
  "nodes (AppendAudit e s) = nodes s" "services (AppendAudit e s) = services s"
  "containers (AppendAudit e s) = containers s" "pools (AppendAudit e s) = pools s"
  "users (AppendAudit e s) = users s" "audit (AppendAudit e s) = audit s @ [e]"
  by (simp_all add: AddNode_def AddService_def AddContainer_def AddPool_def AddUser_def
      AppendAudit_def)

lemma remove_frame [simp]:
  "services (RemoveNode i s) = services s" "containers (RemoveNode i s) = containers s"
  "pools (RemoveNode i s) = pools s" "users (RemoveNode i s) = users s"
  "audit (RemoveNode i s) = audit s"
  "nodes (RemoveService i s) = nodes s" "containers (RemoveService i s) = containers s"
  "pools (RemoveService i s) = pools s" "users (RemoveService i s) = users s"
  "audit (RemoveService i s) = audit s"
  "nodes (RemoveContainer i s) = nodes s" "services (RemoveContainer i s) = services s"
  "pools (RemoveContainer i s) = pools s" "users (RemoveContainer i s) = users s"
  "audit (RemoveContainer i s) = audit s"
  by (simp_all add: RemoveNode_def RemoveService_def RemoveContainer_def)

lemma UpdateNodeFromHeartbeat_frame [simp]:
  "services (snd (UpdateNodeFromHeartbeat now hb s)) = services s"
  "containers (snd (UpdateNodeFromHeartbeat now hb s)) = containers s"
  "pools (snd (UpdateNodeFromHeartbeat now hb s)) = pools s"
  "users (snd (UpdateNodeFromHeartbeat now hb s)) = users s"
  "audit (snd (UpdateNodeFromHeartbeat now hb s)) = audit s"
  by (simp_all add: UpdateNodeFromHeartbeat_def Let_def split: option.split)

lemma SetNodeStatus_frame [simp]:
  "services (snd (SetNodeStatus i st s)) = services s"
  "containers (snd (SetNodeStatus i st s)) = containers s"
  "pools (snd (SetNodeStatus i st s)) = pools s" "users (snd (SetNodeStatus i st s)) = users s"
  "audit (snd (SetNodeStatus i st s)) = audit s"
  by (simp_all add: SetNodeStatus_def split: option.split)

lemma SetContainerStatus_frame [simp]:
  "nodes (snd (SetContainerStatus i st s)) = nodes s"
  "services (snd (SetContainerStatus i st s)) = services s"
  "pools (snd (SetContainerStatus i st s)) = pools s"
  "users (snd (SetContainerStatus i st s)) = users s"
  "audit (snd (SetContainerStatus i st s)) = audit s"
  by (simp_all add: SetContainerStatus_def split: option.split)

lemma nodes_SetNodeStatus [state_simps]:
  "nodes (snd (SetNodeStatus i st s)) =
     (nodes s)(i := map_option (\<lambda>n. n\<lparr>nStatus := st\<rparr>) (nodes s i))"
  by (auto simp: SetNodeStatus_def split: option.split)

lemma containers_SetContainerStatus [state_simps]:
  "containers (snd (SetContainerStatus i st s)) =
     (containers s)(i := map_option (\<lambda>c. c\<lparr>cStatus := st\<rparr>) (containers s i))"
  by (auto simp: SetContainerStatus_def split: option.split)

definition refresh_node :: "go_time \<Rightarrow> heartbeat \<Rightarrow> node \<Rightarrow> node" where
  "refresh_node now hb n =
     n\<lparr>nAddress := hbAddress hb, nTotalCPU := hbTotalCPU hb, nUsedCPU := hbUsedCPU hb,
       nTotalRAM := hbTotalRAM hb, nUsedRAM := hbUsedRAM hb, nLastHeartbeat := now,
       nStatus := (if nStatus n = NodeDead then NodeDead else NodeAlive)\<rparr>"

lemma nodes_UpdateNodeFromHeartbeat [state_simps]:
  "nodes (snd (UpdateNodeFromHeartbeat now hb s)) =
     (nodes s)(hbNodeID hb := map_option (refresh_node now hb) (nodes s (hbNodeID hb)))"
  by (auto simp: UpdateNodeFromHeartbeat_def refresh_node_def Let_def split: option.split)

lemma refresh_node_simps [simp]:
  "nID (refresh_node now hb n) = nID n"
  "nLastHeartbeat (refresh_node now hb n) = now"
  "nStatus (refresh_node now hb n) = (if nStatus n = NodeDead then NodeDead else NodeAlive)"
  by (simp_all add: refresh_node_def)

subsection \<open>Assignment to a pool\<close>

definition join_pool :: "go_string \<Rightarrow> resource_pool \<Rightarrow> resource_pool" where
  "join_pool nodeID p =
     (if nodeID \<in> set (pNodeIDs p) then p else p\<lparr>pNodeIDs := pNodeIDs p @ [nodeID]\<rparr>)"

lemma join_pool_simps [simp]:
  "pID (join_pool i p) = pID p" "set (pNodeIDs (join_pool i p)) = insert i (set (pNodeIDs p))"
  "distinct (pNodeIDs (join_pool i p)) = distinct (pNodeIDs p)"
  by (auto simp: join_pool_def)

text \<open>The pool the loop stops at: the first one, in visiting order, that matches.\<close>

definition first_match :: "go_string list \<Rightarrow> node \<Rightarrow> state \<Rightarrow> go_string option" where
  "first_match ord n s =
     List.find (\<lambda>k. case pools s k of None \<Rightarrow> False | Some p \<Rightarrow> MatchesNode p n) ord"

lemma AssignNodeToPool_eq:
  "AssignNodeToPool ord i n s =
     (case first_match ord n s of
        None \<Rightarrow> (False, s)
      | Some k \<Rightarrow> (True, s\<lparr>pools := (pools s)(k := map_option (join_pool i) (pools s k))\<rparr>))"
  by (induction ord)
    (auto simp: first_match_def join_pool_def fun_upd_idem split: option.splits)

lemma first_match_None_iff:
  "iterates ord (pools s) \<Longrightarrow>
     first_match ord n s = None \<longleftrightarrow> (\<forall>p\<in>ran (pools s). \<not> MatchesNode p n)"
  by (fastforce simp: first_match_def find_None_iff ran_def dom_def split: option.splits)

lemma first_match_SomeD:
  "first_match ord n s = Some k \<Longrightarrow> \<exists>p. pools s k = Some p \<and> MatchesNode p n"
  by (auto simp: first_match_def find_Some_iff split: option.splits)

lemma first_match_unique:
  assumes "\<And>k k' p p'. pools s k = Some p \<Longrightarrow> pools s k' = Some p' \<Longrightarrow>
      MatchesNode p n \<Longrightarrow> MatchesNode p' n \<Longrightarrow> k = k'"
    and ord: "iterates ord (pools s)" and ord': "iterates ord' (pools s)"
  shows "first_match ord n s = first_match ord' n s"
proof (cases "first_match ord n s")
  case None
  then have "first_match ord' n s = None"
    by (simp only: first_match_None_iff [OF ord] first_match_None_iff [OF ord'])
  with None show ?thesis by simp
next
  case (Some k)
  moreover have "first_match ord' n s = None \<longleftrightarrow> first_match ord n s = None"
    by (simp only: first_match_None_iff [OF ord] first_match_None_iff [OF ord'])
  ultimately have "first_match ord' n s \<noteq> None" by simp
  then obtain k' where k': "first_match ord' n s = Some k'" by blast
  obtain p p' where "pools s k = Some p" "MatchesNode p n" "pools s k' = Some p'" "MatchesNode p' n"
    using first_match_SomeD [OF Some] first_match_SomeD [OF k'] by blast
  then have "k = k'" using assms(1) by blast
  with Some k' show ?thesis by simp
qed

lemma AssignNodeToPool_frame [simp]:
  "nodes (snd (AssignNodeToPool ord i n s)) = nodes s"
  "services (snd (AssignNodeToPool ord i n s)) = services s"
  "containers (snd (AssignNodeToPool ord i n s)) = containers s"
  "users (snd (AssignNodeToPool ord i n s)) = users s"
  "audit (snd (AssignNodeToPool ord i n s)) = audit s"
  by (simp_all add: AssignNodeToPool_eq split: option.split)

section \<open>Well-formed states\<close>

text \<open>
  Every entity is filed under its own ID, the maps are finite, and no pool lists a node twice.
\<close>

definition wf_state :: "state \<Rightarrow> bool" where
  "wf_state s \<longleftrightarrow>
     keyed nID (nodes s) \<and> keyed sID (services s) \<and> keyed cID (containers s) \<and>
     keyed pID (pools s) \<and> keyed uID (users s) \<and>
     finite (dom (nodes s)) \<and> finite (dom (services s)) \<and> finite (dom (containers s)) \<and>
     finite (dom (pools s)) \<and> finite (dom (users s)) \<and>
     (\<forall>p\<in>ran (pools s). distinct (pNodeIDs p))"

lemma wf_state_keyed:
  assumes "wf_state s"
  shows "keyed nID (nodes s)" "keyed sID (services s)" "keyed cID (containers s)"
    "keyed pID (pools s)" "keyed uID (users s)"
  using assms by (simp_all add: wf_state_def)

lemma wf_NewState [simp]: "wf_state NewState"
  by (simp add: wf_state_def NewState_def)

lemma keyed_map_option:
  "keyed key m \<Longrightarrow> (\<And>v. key (f v) = key v) \<Longrightarrow> keyed key (m(k := map_option f (m k)))"
  by (auto simp: keyed_def)

lemma finite_dom_upd: "finite (dom m) \<Longrightarrow> finite (dom (m(k := x)))"
  by (cases x) auto

lemma ran_upd_subset: "v \<in> ran (m(k := x)) \<Longrightarrow> v \<in> ran m \<or> x = Some v"
  by (auto simp: ran_def split: if_splits)

lemmas wf_intros = keyed_map_option finite_dom_upd keyed_upd keyed_del

lemma wf_UpdateNodeFromHeartbeat:
  "wf_state s \<Longrightarrow> wf_state (snd (UpdateNodeFromHeartbeat now hb s))"
  by (auto simp: wf_state_def state_simps intro!: wf_intros)

lemma wf_SetNodeStatus: "wf_state s \<Longrightarrow> wf_state (snd (SetNodeStatus i st s))"
  by (auto simp: wf_state_def state_simps intro!: wf_intros)

lemma wf_SetContainerStatus: "wf_state s \<Longrightarrow> wf_state (snd (SetContainerStatus i st s))"
  by (auto simp: wf_state_def state_simps intro!: wf_intros)

lemma wf_AddNode: "wf_state s \<Longrightarrow> wf_state (AddNode n s)"
  by (auto simp: wf_state_def intro: node_table.keyed_add node_table.finite_add)

lemma wf_AddService: "wf_state s \<Longrightarrow> wf_state (AddService svc s)"
  by (auto simp: wf_state_def intro: service_table.keyed_add service_table.finite_add)

lemma wf_AddContainer: "wf_state s \<Longrightarrow> wf_state (AddContainer c s)"
  by (auto simp: wf_state_def intro: container_table.keyed_add container_table.finite_add)

lemma wf_AddUser: "wf_state s \<Longrightarrow> wf_state (AddUser u s)"
  by (auto simp: wf_state_def intro: user_table.keyed_add user_table.finite_add)

lemma wf_AddPool: "wf_state s \<Longrightarrow> distinct (pNodeIDs p) \<Longrightarrow> wf_state (AddPool p s)"
  by (auto simp: wf_state_def pool_table.lookup_add dest!: ran_upd_subset
      intro: pool_table.keyed_add pool_table.finite_add)

lemma wf_removes:
  assumes "wf_state s"
  shows "wf_state (RemoveNode i s)" "wf_state (RemoveService i s)" "wf_state (RemoveContainer i s)"
  using assms
  by (simp_all add: wf_state_def keyed_del node_table.lookup_del service_table.lookup_del
      container_table.lookup_del)

lemma wf_AssignNodeToPool: "wf_state s \<Longrightarrow> wf_state (snd (AssignNodeToPool ord i n s))"
  by (auto simp: wf_state_def AssignNodeToPool_eq intro!: wf_intros dest!: ran_upd_subset
      split: option.split) (auto simp: ran_def)

lemma wf_AppendAudit: "wf_state s \<Longrightarrow> wf_state (AppendAudit e s)"
  by (simp add: wf_state_def)

lemma wf_Restore:
  assumes "\<forall>p\<in>set (snPools snap). distinct (pNodeIDs p)"
  shows "wf_state (Restore snap s)"
proof -
  have "ran (index_by pID (snPools snap)) \<subseteq> set (snPools snap)"
    by (auto simp: index_by_eq_map_of ran_def dest!: map_of_SomeD)
  with assms show ?thesis by (auto simp: wf_state_def Restore_def)
qed

subsection \<open>Steps of the state\<close>

text \<open>
  The mutating methods as a step relation: the mutex makes each one atomic, so every interleaving
  of the goroutines of a master is a sequence of these steps.
\<close>

inductive state_step :: "state \<Rightarrow> state \<Rightarrow> bool" where
  AddNode: "state_step s (AddNode n s)"
| RemoveNode: "state_step s (RemoveNode i s)"
| UpdateNodeFromHeartbeat: "state_step s (snd (UpdateNodeFromHeartbeat now hb s))"
| SetNodeStatus: "state_step s (snd (SetNodeStatus i st s))"
| AddService: "state_step s (AddService svc s)"
| RemoveService: "state_step s (RemoveService i s)"
| AddContainer: "state_step s (AddContainer c s)"
| RemoveContainer: "state_step s (RemoveContainer i s)"
| SetContainerStatus: "state_step s (snd (SetContainerStatus i st s))"
| AddPool: "distinct (pNodeIDs p) \<Longrightarrow> state_step s (AddPool p s)"
| AssignNodeToPool: "state_step s (snd (AssignNodeToPool ord i n s))"
| AddUser: "state_step s (AddUser u s)"
| AppendAudit: "state_step s (AppendAudit e s)"

lemma state_step_wf: "state_step s t \<Longrightarrow> wf_state s \<Longrightarrow> wf_state t"
  by (induction rule: state_step.induct)
    (blast intro: wf_AddNode wf_removes wf_UpdateNodeFromHeartbeat wf_SetNodeStatus wf_AddService
      wf_AddContainer wf_SetContainerStatus wf_AddPool wf_AssignNodeToPool wf_AddUser
      wf_AppendAudit)+

lemma state_steps_wf: "state_step\<^sup>*\<^sup>* s t \<Longrightarrow> wf_state s \<Longrightarrow> wf_state t"
  by (induction rule: rtranclp_induct) (auto intro: state_step_wf)

lemma state_step_audit: "state_step s t \<Longrightarrow> prefix (audit s) (audit t)"
  by (induction rule: state_step.induct) simp_all

lemma state_steps_audit: "state_step\<^sup>*\<^sup>* s t \<Longrightarrow> prefix (audit s) (audit t)"
  by (induction rule: rtranclp_induct) (auto dest: state_step_audit)

text \<open>A master also replaces its whole state when Raft hands it a snapshot.\<close>

inductive master_step :: "state \<Rightarrow> state \<Rightarrow> bool" where
  atomic: "state_step s t \<Longrightarrow> master_step s t"
| restore: "\<forall>p\<in>set (snPools snap). distinct (pNodeIDs p) \<Longrightarrow> master_step s (Restore snap s)"

lemma master_step_wf: "master_step s t \<Longrightarrow> wf_state s \<Longrightarrow> wf_state t"
  by (induction rule: master_step.induct) (simp_all add: state_step_wf wf_Restore)

text \<open>Restoring what \<open>Snapshot\<close> collected gives back the state, whatever the orders were.\<close>

lemma Restore_Snapshot:
  assumes "wf_state s" and "iterates on (nodes s)" and "iterates os (services s)"
    and "iterates oc (containers s)" and "iterates op (pools s)" and "iterates ou (users s)"
  shows "Restore (Snapshot on os oc op ou s) t = s"
  using assms
  by (simp add: Restore_def Snapshot_def index_by_range_vals wf_state_keyed)

section \<open>Properties\<close>

text \<open>
  Every state a master reaches, by any interleaving of the methods of \<open>State\<close> and by restoring
  snapshots, is well formed: an entity is found under its own ID, in particular at most one entity
  has a given ID, and no pool lists a node twice.
\<close>

theorem reachable_states_wf:
  assumes "master_step\<^sup>*\<^sup>* NewState s"
  shows "wf_state s"
  using assms by (induction rule: rtranclp_induct) (simp_all add: master_step_wf)

theorem reachable_states_wf_witness:
  "wf_state (snd (SetNodeStatus ''a'' NodeDead NewState))"
  by (intro reachable_states_wf r_into_rtranclp atomic state_step.SetNodeStatus)

text \<open>
  Only \<open>SetNodeStatus\<close> on that node, or a new registration under its ID, takes a node out of the
  DEAD state; no heartbeat does, and no other operation of the state.
\<close>

theorem dead_node_stays_dead:
  assumes "state_step s t" and "nodes s i = Some n" and "nStatus n = NodeDead"
    and "nodes t i = Some m" and "nStatus m \<noteq> NodeDead"
  shows "t = snd (SetNodeStatus i (nStatus m) s) \<or> (\<exists>n'. nID n' = i \<and> t = AddNode n' s)"
  using assms
proof (cases rule: state_step.cases)
  case (AddNode n')
  with assms(2-5) show ?thesis by (cases "nID n' = i") (auto simp: node_table.lookup_add)
next
  case (SetNodeStatus j st)
  with assms(2-5) show ?thesis by (cases "j = i") (auto simp: state_simps)
qed (auto simp: state_simps node_table.lookup_del split: if_splits)

theorem dead_node_stays_dead_witness:
  "let n = \<lparr>nID = ''a'', nAddress = '''', nStatus = NodeDead, nTotalCPU = 0, nUsedCPU = 0,
      nTotalRAM = 0, nUsedRAM = 0, nLastHeartbeat = 0, nContainers = []\<rparr>;
     s = AddNode n NewState; t = snd (SetNodeStatus ''a'' NodeAlive s)
   in t = snd (SetNodeStatus ''a'' NodeAlive s) \<or> (\<exists>n'. nID n' = ''a'' \<and> t = AddNode n' s)"
proof -
  let ?n = "\<lparr>nID = ''a'', nAddress = '''', nStatus = NodeDead, nTotalCPU = 0, nUsedCPU = 0,
      nTotalRAM = 0, nUsedRAM = 0, nLastHeartbeat = 0, nContainers = []\<rparr>"
  show ?thesis
    unfolding Let_def
    using dead_node_stays_dead [OF state_step.SetNodeStatus [of "AddNode ?n NewState" "''a''" NodeAlive],
        of "''a''" ?n "?n\<lparr>nStatus := NodeAlive\<rparr>"]
    by (simp add: state_simps node_table.lookup_add)
qed

text \<open>
  The audit log is append-only under the methods of the state: what any filter shows of it only
  grows at its end, whatever the interleaving.
\<close>

theorem audit_append_only:
  assumes "state_step\<^sup>*\<^sup>* s t"
  shows "prefix (GetAuditLog f s) (GetAuditLog f t)"
proof -
  obtain zs where "audit t = audit s @ zs"
    using state_steps_audit [OF assms] by (auto elim: prefixE)
  then show ?thesis by (simp add: GetAuditLog_def)
qed

theorem audit_append_only_witness:
  "prefix (GetAuditLog None NewState) (GetAuditLog None
     (AppendAudit \<lparr>aTimestamp = 0, aUserID = ''u1'', aAction = ''LOGIN'', aResource = ''auth'',
       aDetails = ''''\<rparr> NewState))"
  by (intro audit_append_only r_into_rtranclp state_step.AppendAudit)

text \<open>
  When the ranges of the pools overlap at no more than one pool for this node, the order in
  which \<open>AssignNodeToPool\<close> visits the pools is irrelevant; it reports whether a pool matches, the
  matching pool then lists the node, and the other pools are as they were.
\<close>

theorem AssignNodeToPool_deterministic:
  assumes "iterates ord (pools s)" and "iterates ord' (pools s)"
    and "\<And>k k' p p'. pools s k = Some p \<Longrightarrow> pools s k' = Some p' \<Longrightarrow>
      MatchesNode p n \<Longrightarrow> MatchesNode p' n \<Longrightarrow> k = k'"
  shows "AssignNodeToPool ord i n s = AssignNodeToPool ord' i n s \<and>
    (fst (AssignNodeToPool ord i n s) \<longleftrightarrow> (\<exists>p\<in>ran (pools s). MatchesNode p n)) \<and>
    (\<forall>k p. pools s k = Some p \<longrightarrow>
      pools (snd (AssignNodeToPool ord i n s)) k =
        Some (if MatchesNode p n \<and> i \<notin> set (pNodeIDs p)
          then p\<lparr>pNodeIDs := pNodeIDs p @ [i]\<rparr> else p))"
proof (intro conjI)
  have eq: "first_match ord n s = first_match ord' n s"
    using assms(3) by (rule first_match_unique [OF _ assms(1,2)])
  then show "AssignNodeToPool ord i n s = AssignNodeToPool ord' i n s"
    by (simp add: AssignNodeToPool_eq)
  show "fst (AssignNodeToPool ord i n s) \<longleftrightarrow> (\<exists>p\<in>ran (pools s). MatchesNode p n)"
    using first_match_None_iff [OF assms(1), of n]
    by (auto simp: AssignNodeToPool_eq split: option.splits)
  show "\<forall>k p. pools s k = Some p \<longrightarrow> pools (snd (AssignNodeToPool ord i n s)) k =
      Some (if MatchesNode p n \<and> i \<notin> set (pNodeIDs p) then p\<lparr>pNodeIDs := pNodeIDs p @ [i]\<rparr> else p)"
  proof (cases "first_match ord n s")
    case None
    then have "\<forall>p\<in>ran (pools s). \<not> MatchesNode p n" by (simp only: first_match_None_iff [OF assms(1)])
    with None show ?thesis by (auto simp: AssignNodeToPool_eq ran_def)
  next
    case (Some k)
    then obtain p where p: "pools s k = Some p" "MatchesNode p n" using first_match_SomeD by blast
    then have "\<not> MatchesNode p' n" if "pools s k' = Some p'" "k' \<noteq> k" for k' p'
      using assms(3) that by blast
    with Some p show ?thesis by (auto simp: AssignNodeToPool_eq join_pool_def)
  qed
qed

theorem AssignNodeToPool_deterministic_witness:
  "let p = \<lparr>pID = ''p'', pName = '''', pMinCPU = Fin 0, pMaxCPU = Fin 3, pMinRAM = 0, pMaxRAM = 1, pNodeIDs = []\<rparr>;
       q = \<lparr>pID = ''q'', pName = '''', pMinCPU = Fin 4, pMaxCPU = Fin 5, pMinRAM = 0, pMaxRAM = 1, pNodeIDs = []\<rparr>;
       s = AddPool p (AddPool q NewState);
       n = \<lparr>nID = ''a'', nAddress = '''', nStatus = NodeAlive, nTotalCPU = Fin 2, nUsedCPU = Fin 0,
         nTotalRAM = 1, nUsedRAM = 0, nLastHeartbeat = 0, nContainers = []\<rparr>
   in AssignNodeToPool [''p'', ''q''] ''a'' n s = AssignNodeToPool [''q'', ''p''] ''a'' n s"
proof -
  define p where "p = \<lparr>pID = ''p'', pName = '''', pMinCPU = Fin 0, pMaxCPU = Fin 3, pMinRAM = 0,
    pMaxRAM = 1, pNodeIDs = []\<rparr>"
  define q where "q = \<lparr>pID = ''q'', pName = '''', pMinCPU = Fin 4, pMaxCPU = Fin 5, pMinRAM = 0,
    pMaxRAM = 1, pNodeIDs = []\<rparr>"
  define n where "n = \<lparr>nID = ''a'', nAddress = '''', nStatus = NodeAlive, nTotalCPU = Fin 2,
    nUsedCPU = Fin 0, nTotalRAM = 1, nUsedRAM = 0, nLastHeartbeat = 0, nContainers = []\<rparr>"
  have ps: "pools (AddPool p (AddPool q NewState)) = [''q'' \<mapsto> q, ''p'' \<mapsto> p]"
    by (simp add: AddPool_def NewState_def p_def q_def)
  have "\<not> MatchesNode q n"
    by (simp add: MatchesNode_def less_eq_f64_def q_def n_def)
  then have "AssignNodeToPool [''p'', ''q''] ''a'' n (AddPool p (AddPool q NewState)) =
      AssignNodeToPool [''q'', ''p''] ''a'' n (AddPool p (AddPool q NewState))"
    by (intro AssignNodeToPool_deterministic [THEN conjunct1])
      (auto simp: ps iterates_def split: if_splits)
  then show ?thesis by (simp only: Let_def p_def q_def n_def)
qed

end
