(* ===== verification/AuditLog.thy ===== *)
theory AuditLog
  imports ClusterState
begin

text \<open>
  The audit logger of \<open>internal/audit/logger.go\<close>: the event types, and \<open>Log\<close>, which stamps an
  entry with the time of the call and appends it to the log of the state.
\<close>

definition EventNodeDiscovered :: go_string where "EventNodeDiscovered = ''NODE_DISCOVERED''"
definition EventNodeDead :: go_string where "EventNodeDead = ''NODE_DEAD''"
definition EventServiceCreate :: go_string where "EventServiceCreate = ''SERVICE_CREATE''"
definition EventServiceDelete :: go_string where "EventServiceDelete = ''SERVICE_DELETE''"
definition EventContainerRescheduled :: go_string where
  "EventContainerRescheduled = ''CONTAINER_RESCHEDULED''"
definition EventAuthDenied :: go_string where "EventAuthDenied = ''AUTH_DENIED''"
definition EventLogin :: go_string where "EventLogin = ''LOGIN''"

lemma distinct_events:
  "distinct [EventNodeDiscovered, EventNodeDead, EventServiceCreate, EventServiceDelete,
     EventContainerRescheduled, EventAuthDenied, EventLogin]"
  by (simp add: EventNodeDiscovered_def EventNodeDead_def EventServiceCreate_def
      EventServiceDelete_def EventContainerRescheduled_def EventAuthDenied_def EventLogin_def)

definition Log ::
  "go_time \<Rightarrow> go_string \<Rightarrow> go_string \<Rightarrow> go_string \<Rightarrow> go_string \<Rightarrow> state \<Rightarrow> state" where
  "Log now userID action resource details s =
     AppendAudit \<lparr>aTimestamp = now, aUserID = userID, aAction = action, aResource = resource,
       aDetails = details\<rparr> s"

lemma Log_frame [simp]:
  "nodes (Log now u a r d s) = nodes s" "services (Log now u a r d s) = services s"
  "containers (Log now u a r d s) = containers s" "pools (Log now u a r d s) = pools s"
  "users (Log now u a r d s) = users s"
  by (simp_all add: Log_def)

lemma audit_Log [state_simps]:
  "audit (Log now u a r d s) = audit s @
     [\<lparr>aTimestamp = now, aUserID = u, aAction = a, aResource = r, aDetails = d\<rparr>]"
  by (simp add: Log_def)

lemma wf_Log: "wf_state s \<Longrightarrow> wf_state (Log now u a r d s)"
  by (simp add: Log_def wf_AppendAudit)

lemma state_step_Log: "state_step s (Log now u a r d s)"
  by (simp add: Log_def state_step.AppendAudit)

end
