(* ===== verification/Json.thy ===== *)
theory Json
  imports ClusterState "HOL-Library.AList" "HOL-Library.Char_ord" "HOL-Library.List_Lexorder"
begin

text \<open>
  The part of Go's \<open>encoding/json\<close> the program uses, on parsed documents: \<open>Marshal\<close> and \<open>Unmarshal\<close>
  for the types of \<open>internal/domain\<close>. A document is a value of \<open>json\<close>: a number literal is an
  integer literal or one with a fraction or exponent, and the RFC 3339 text of an instant is a
  token of its own (\<open>JTime\<close>). The characters of a string are its bytes.

  \<open>Marshal\<close> can fail (a NaN or an infinity, an instant whose year has not four digits) and replaces
  invalid UTF-8. \<open>Unmarshal\<close> writes into an existing value: it goes on after a field whose type does
  not match, and reports the error at the end; an unknown key is skipped, a key is matched exactly
  or else by case folding, and null leaves a scalar as it is.

  A nil slice and an empty one are the same list here; both are written as null.
\<close>

section \<open>UTF-8\<close>

definition byte_in :: "nat \<Rightarrow> nat \<Rightarrow> char \<Rightarrow> bool" where
  "byte_in lo hi c \<longleftrightarrow> lo \<le> of_char c \<and> of_char c \<le> hi"

definition rune1 :: "char \<Rightarrow> bool" where
  "rune1 a \<longleftrightarrow> byte_in 0 0x7F a"

definition rune2 :: "char \<Rightarrow> char \<Rightarrow> bool" where
  "rune2 a b \<longleftrightarrow> byte_in 0xC2 0xDF a \<and> byte_in 0x80 0xBF b"

definition rune3 :: "char \<Rightarrow> char \<Rightarrow> char \<Rightarrow> bool" where
  "rune3 a b c \<longleftrightarrow> byte_in 0x80 0xBF c \<and>
     (byte_in 0xE0 0xE0 a \<and> byte_in 0xA0 0xBF b \<or> byte_in 0xE1 0xEC a \<and> byte_in 0x80 0xBF b \<or>
      byte_in 0xED 0xED a \<and> byte_in 0x80 0x9F b \<or> byte_in 0xEE 0xEF a \<and> byte_in 0x80 0xBF b)"

definition rune4 :: "char \<Rightarrow> char \<Rightarrow> char \<Rightarrow> char \<Rightarrow> bool" where
  "rune4 a b c d \<longleftrightarrow> byte_in 0x80 0xBF c \<and> byte_in 0x80 0xBF d \<and>
     (byte_in 0xF0 0xF0 a \<and> byte_in 0x90 0xBF b \<or> byte_in 0xF1 0xF3 a \<and> byte_in 0x80 0xBF b \<or>
      byte_in 0xF4 0xF4 a \<and> byte_in 0x80 0x8F b)"

lemmas rune_defs = rune1_def rune2_def rune3_def rune4_def

text \<open>The length of the valid encoding of one rune that a string begins with.\<close>

definition rune_len :: "go_string \<Rightarrow> nat option" where
  "rune_len s =
     (case s of
        [] \<Rightarrow> None
      | a # s1 \<Rightarrow> if rune1 a then Some 1 else
          (case s1 of
             [] \<Rightarrow> None
           | b # s2 \<Rightarrow> if rune2 a b then Some 2 else
               (case s2 of
                  [] \<Rightarrow> None
                | c # s3 \<Rightarrow> if rune3 a b c then Some 3 else
                    (case s3 of
                       [] \<Rightarrow> None
                     | d # s4 \<Rightarrow> if rune4 a b c d then Some 4 else None))))"

lemma rune_len_bounds: "rune_len s = Some n \<Longrightarrow> 0 < n \<and> n \<le> length s"
  by (auto simp: rune_len_def split: list.splits if_splits)

definition replacement :: go_string where
  "replacement = map char_of [0xEF :: nat, 0xBF, 0xBD]"

function to_valid_utf8 :: "go_string \<Rightarrow> go_string" where
  "to_valid_utf8 s =
     (if s = [] then []
      else case rune_len s of
        None \<Rightarrow> replacement @ to_valid_utf8 (tl s)
      | Some n \<Rightarrow> take n s @ to_valid_utf8 (drop n s))"
  by pat_completeness auto
termination
  by (relation "measure length") (auto dest: rune_len_bounds)

declare to_valid_utf8.simps [simp del]

function valid_utf8 :: "go_string \<Rightarrow> bool" where
  "valid_utf8 s =
     (if s = [] then True
      else case rune_len s of
        None \<Rightarrow> False
      | Some n \<Rightarrow> valid_utf8 (drop n s))"
  by pat_completeness auto
termination
  by (relation "measure length") (auto dest: rune_len_bounds)

declare valid_utf8.simps [simp del]

lemma valid_utf8_Nil [simp]: "valid_utf8 []"
  by (simp add: valid_utf8.simps)

lemma to_valid_utf8_id [simp]: "valid_utf8 s \<Longrightarrow> to_valid_utf8 s = s"
proof (induction s rule: valid_utf8.induct)
  case (1 s)
  then show ?case
    by (simp add: valid_utf8.simps [of s] to_valid_utf8.simps [of s] split: option.splits if_splits)
qed

lemma valid_utf8_ascii_Cons [simp]: "byte_in 0 0x7F c \<Longrightarrow> valid_utf8 (c # s) = valid_utf8 s"
  by (simp add: valid_utf8.simps [of "c # s"] rune_len_def rune1_def)

definition ascii :: "go_string \<Rightarrow> bool" where
  "ascii s \<longleftrightarrow> list_all (byte_in 0 0x7F) s"

lemma valid_utf8_ascii: "ascii s \<Longrightarrow> valid_utf8 s"
  unfolding ascii_def by (induction s) auto

text \<open>What a valid rune begins with does not depend on what follows it.\<close>

lemma rune_len_append: "rune_len s = Some n \<Longrightarrow> rune_len (take n s @ t) = Some n"
  by (auto simp: rune_len_def split: list.splits if_splits)

lemma valid_utf8_step:
  "rune_len s = Some n \<Longrightarrow> valid_utf8 t \<Longrightarrow> valid_utf8 (take n s @ t)"
  using rune_len_append [of s n t] rune_len_bounds [of s n]
  by (subst valid_utf8.simps) auto

lemma valid_utf8_replacement: "valid_utf8 t \<Longrightarrow> valid_utf8 (replacement @ t)"
  by (subst valid_utf8.simps) (simp add: replacement_def rune_len_def rune_defs byte_in_def)

lemma valid_to_valid_utf8 [simp]: "valid_utf8 (to_valid_utf8 s)"
proof (induction s rule: to_valid_utf8.induct)
  case (1 s)
  show ?case
  proof (cases "s = [] \<or> rune_len s = None")
    case True
    with 1 show ?thesis
      by (subst to_valid_utf8.simps) (auto intro: valid_utf8_replacement)
  next
    case False
    then obtain n where "s \<noteq> []" "rune_len s = Some n" by auto
    with 1 show ?thesis
      by (subst to_valid_utf8.simps) (simp add: valid_utf8_step)
  qed
qed

section \<open>Documents\<close>

datatype json =
    JNull
  | JBool bool
  | JInt int
  | JFrac rat
  | JStr go_string
  | JTime go_time
  | JArr "json list"
  | JObj "(go_string \<times> json) list"

subsection \<open>Marshal\<close>

text \<open>Years 0 to 9999, in nanoseconds since the epoch.\<close>

definition time_ok :: "go_time \<Rightarrow> bool" where
  "time_ok t \<longleftrightarrow> -62167219200 * second \<le> t \<and> t < 253402300800 * second"

definition enc_string :: "go_string \<Rightarrow> json option" where
  "enc_string s = Some (JStr (to_valid_utf8 s))"

definition enc_int :: "int \<Rightarrow> json option" where
  "enc_int n = Some (JInt n)"

definition enc_i64 :: "i64 \<Rightarrow> json option" where
  "enc_i64 w = Some (JInt (sint w))"

definition enc_f64 :: "f64 \<Rightarrow> json option" where
  "enc_f64 x =
     (case x of
        Fin r \<Rightarrow> if of_int \<lfloor>r\<rfloor> = r \<and> \<bar>r\<bar> < 10 ^ 21 then Some (JInt \<lfloor>r\<rfloor>) else Some (JFrac r)
      | _ \<Rightarrow> None)"

definition enc_time :: "go_time \<Rightarrow> json option" where
  "enc_time t = (if time_ok t then Some (JTime t) else None)"

definition enc_bool :: "bool \<Rightarrow> json option" where
  "enc_bool b = Some (JBool b)"

fun enc_all :: "('a \<Rightarrow> json option) \<Rightarrow> 'a list \<Rightarrow> json list option" where
  "enc_all enc [] = Some []"
| "enc_all enc (x # xs) =
     (case (enc x, enc_all enc xs) of (Some j, Some js) \<Rightarrow> Some (j # js) | _ \<Rightarrow> None)"

definition enc_slice :: "('a \<Rightarrow> json option) \<Rightarrow> 'a list \<Rightarrow> json option" where
  "enc_slice enc xs = (if xs = [] then Some JNull else map_option JArr (enc_all enc xs))"

text \<open>The keys of a map are written in increasing order.\<close>

definition enc_strmap :: "(go_string \<times> go_string) list \<Rightarrow> json option" where
  "enc_strmap m =
     (if m = [] then Some JNull
      else Some (JObj (map (\<lambda>(k, v). (to_valid_utf8 k, JStr (to_valid_utf8 v))) (sort_key fst m))))"

fun enc_fields :: "(go_string \<times> json option) list \<Rightarrow> (go_string \<times> json) list option" where
  "enc_fields [] = Some []"
| "enc_fields ((k, e) # fs) =
     (case (e, enc_fields fs) of (Some j, Some kvs) \<Rightarrow> Some ((k, j) # kvs) | _ \<Rightarrow> None)"

definition enc_struct :: "(go_string \<times> json option) list \<Rightarrow> json option" where
  "enc_struct fs = map_option JObj (enc_fields fs)"

subsection \<open>Unmarshal\<close>

text \<open>
  A decoder writes a document into the value it is given; the flag is whether no error was found.
\<close>

type_synonym 'a decoder = "json \<Rightarrow> 'a \<Rightarrow> 'a \<times> bool"

definition dec_string :: "go_string decoder" where
  "dec_string j x = (case j of JStr s \<Rightarrow> (s, True) | JNull \<Rightarrow> (x, True) | _ \<Rightarrow> (x, False))"

definition int64_range :: "int \<Rightarrow> bool" where
  "int64_range n \<longleftrightarrow> - (2 ^ 63) \<le> n \<and> n < 2 ^ 63"

definition dec_int :: "int decoder" where
  "dec_int j x =
     (case j of
        JInt n \<Rightarrow> if int64_range n then (n, True) else (x, False)
      | JNull \<Rightarrow> (x, True)
      | _ \<Rightarrow> (x, False))"

definition dec_i64 :: "i64 decoder" where
  "dec_i64 j x =
     (case j of
        JInt n \<Rightarrow> if int64_range n then (word_of_int n, True) else (x, False)
      | JNull \<Rightarrow> (x, True)
      | _ \<Rightarrow> (x, False))"

definition dec_rat :: "rat \<Rightarrow> f64 \<Rightarrow> f64 \<times> bool" where
  "dec_rat r x = (case f64_of_rat r of Fin v \<Rightarrow> (Fin v, True) | _ \<Rightarrow> (x, False))"

definition dec_f64 :: "f64 decoder" where
  "dec_f64 j x =
     (case j of
        JInt n \<Rightarrow> dec_rat (of_int n) x
      | JFrac r \<Rightarrow> dec_rat r x
      | JNull \<Rightarrow> (x, True)
      | _ \<Rightarrow> (x, False))"

definition dec_time :: "go_time decoder" where
  "dec_time j x = (case j of JTime t \<Rightarrow> (t, True) | JNull \<Rightarrow> (x, True) | _ \<Rightarrow> (x, False))"

definition dec_bool :: "bool decoder" where
  "dec_bool j x = (case j of JBool b \<Rightarrow> (b, True) | JNull \<Rightarrow> (x, True) | _ \<Rightarrow> (x, False))"

fun dec_all :: "'a decoder \<Rightarrow> 'a \<Rightarrow> json list \<Rightarrow> 'a list \<times> bool" where
  "dec_all dec z [] = ([], True)"
| "dec_all dec z (j # js) =
     (let (x, ok) = dec j z; (xs, oks) = dec_all dec z js in (x # xs, ok \<and> oks))"

definition dec_slice :: "'a decoder \<Rightarrow> 'a \<Rightarrow> 'a list decoder" where
  "dec_slice dec z j xs =
     (case j of JArr js \<Rightarrow> dec_all dec z js | JNull \<Rightarrow> ([], True) | _ \<Rightarrow> (xs, False))"

fun dec_entries ::
  "(go_string \<times> json) list \<Rightarrow> (go_string \<times> go_string) list \<Rightarrow> (go_string \<times> go_string) list \<times> bool" where
  "dec_entries [] m = (m, True)"
| "dec_entries ((k, j) # kvs) m =
     (let (v, ok) = dec_string j ''''; (m', oks) = dec_entries kvs (AList.update k v m)
      in (m', ok \<and> oks))"

definition dec_strmap :: "(go_string \<times> go_string) list decoder" where
  "dec_strmap j m =
     (case j of JObj kvs \<Rightarrow> dec_entries kvs m | JNull \<Rightarrow> ([], True) | _ \<Rightarrow> (m, False))"

text \<open>
  Struct fields. A key that is not the name of a field is compared case-insensitively, with the two
  non-ASCII letters that fold to an ASCII one (the long s and the Kelvin sign).
\<close>

fun fold_name :: "go_string \<Rightarrow> go_string" where
  "fold_name [] = []"
| "fold_name (a # s) =
     (if byte_in 97 122 a then char_of (of_char a - 32 :: nat) # fold_name s
      else if a = char_of (0xC5 :: nat) \<and> take 1 s = [char_of (0xBF :: nat)] then CHR ''S'' # fold_name (drop 1 s)
      else if a = char_of (0xE2 :: nat) \<and> take 2 s = map char_of [0x84 :: nat, 0xAA] then CHR ''K'' # fold_name (drop 2 s)
      else a # fold_name s)"

definition field_for :: "(go_string \<times> 'r decoder) list \<Rightarrow> go_string \<Rightarrow> 'r decoder option" where
  "field_for fs k =
     (case map_of fs k of
        Some d \<Rightarrow> Some d
      | None \<Rightarrow> map_option snd (List.find (\<lambda>f. fold_name (fst f) = fold_name k) fs))"

fun dec_fields :: "(go_string \<times> 'r decoder) list \<Rightarrow> (go_string \<times> json) list \<Rightarrow> 'r \<Rightarrow> 'r \<times> bool" where
  "dec_fields fs [] r = (r, True)"
| "dec_fields fs ((k, j) # kvs) r =
     (case field_for fs k of
        None \<Rightarrow> dec_fields fs kvs r
      | Some d \<Rightarrow> (let (r', ok) = d j r; (r'', oks) = dec_fields fs kvs r' in (r'', ok \<and> oks)))"

definition dec_struct :: "(go_string \<times> 'r decoder) list \<Rightarrow> 'r decoder" where
  "dec_struct fs j r =
     (case j of JObj kvs \<Rightarrow> dec_fields fs kvs r | JNull \<Rightarrow> (r, True) | _ \<Rightarrow> (r, False))"

definition fld ::
  "(('v \<Rightarrow> 'v) \<Rightarrow> 'r \<Rightarrow> 'r) \<Rightarrow> ('r \<Rightarrow> 'v) \<Rightarrow> 'v decoder \<Rightarrow> 'r decoder" where
  "fld upd get dec j r = (let (v, ok) = dec j (get r) in (upd (\<lambda>_. v) r, ok))"

section \<open>Round trips of the leaves\<close>

locale json_codec =
  fixes enc :: "'a \<Rightarrow> json option" and dec :: "'a decoder" and zero :: 'a and ok :: "'a \<Rightarrow> bool"
  assumes roundtrip: "ok x \<Longrightarrow> \<exists>j. enc x = Some j \<and> dec j zero = (x, True)"
begin

lemma enc_dec: "ok x \<Longrightarrow> enc x = Some j \<Longrightarrow> dec j zero = (x, True)"
  using roundtrip by fastforce

lemma enc_Some: "ok x \<Longrightarrow> \<exists>j. enc x = Some j"
  using roundtrip by blast

lemma enc_inj: "ok x \<Longrightarrow> ok y \<Longrightarrow> enc x = enc y \<Longrightarrow> x = y"
  using enc_Some [of x] enc_dec [of x] enc_dec [of y] by fastforce

lemma roundtrip_all:
  "list_all ok xs \<Longrightarrow> \<exists>js. enc_all enc xs = Some js \<and> dec_all dec zero js = (xs, True)"
proof (induction xs)
  case (Cons x xs)
  moreover have "\<exists>j. enc x = Some j \<and> dec j zero = (x, True)"
    using Cons.prems by (intro roundtrip) simp
  ultimately show ?case by fastforce
qed simp

lemma roundtrip_slice:
  "list_all ok xs \<Longrightarrow>
     \<exists>j. enc_slice enc xs = Some j \<and> dec_slice dec zero j ys = (xs, True)"
  using roundtrip_all [of xs] by (cases "xs = []") (auto simp: enc_slice_def dec_slice_def)

end

interpretation string_codec: json_codec enc_string dec_string "''''" valid_utf8
  by unfold_locales (simp add: enc_string_def dec_string_def)

interpretation int_codec: json_codec enc_int dec_int 0 int64_range
  by unfold_locales (simp add: enc_int_def dec_int_def)

lemma int64_range_sint [simp]: "int64_range (sint (w :: i64))"
  using sint_i64_range [of w] by (simp add: int64_range_def)

interpretation i64_codec: json_codec enc_i64 dec_i64 0 "\<lambda>_. True"
  by unfold_locales (simp add: enc_i64_def dec_i64_def)

interpretation time_codec: json_codec enc_time dec_time zero_time time_ok
  by unfold_locales (simp add: enc_time_def dec_time_def)

interpretation bool_codec: json_codec enc_bool dec_bool False "\<lambda>_. True"
  by unfold_locales (simp add: enc_bool_def dec_bool_def)

definition finite_f64 :: "f64 \<Rightarrow> bool" where
  "finite_f64 x \<longleftrightarrow> (\<exists>r. x = Fin r) \<and> f64_ok x"

lemma f64_of_rat_ok: "f64_ok (Fin r) \<Longrightarrow> f64_of_rat r = Fin r"
  by (auto simp: f64_of_rat_def abs_less_iff)

interpretation f64_codec: json_codec enc_f64 dec_f64 0 finite_f64
  by unfold_locales
    (auto simp: enc_f64_def dec_f64_def dec_rat_def finite_f64_def f64_of_rat_ok simp del: f64_ok.simps)

text \<open>A map is kept in increasing order of its keys, as \<open>Marshal\<close> writes it.\<close>

definition strmap_ok :: "(go_string \<times> go_string) list \<Rightarrow> bool" where
  "strmap_ok m \<longleftrightarrow> sorted (map fst m) \<and> distinct (map fst m) \<and>
     list_all (\<lambda>(k, v). valid_utf8 k \<and> valid_utf8 v) m"

lemma AList_update_new: "k \<notin> fst ` set m \<Longrightarrow> AList.update k v m = m @ [(k, v)]"
  by (induction m) auto

lemma dec_entries_append:
  assumes "distinct (map fst (m @ m'))" and "list_all (\<lambda>(k, v). valid_utf8 k \<and> valid_utf8 v) m'"
  shows "dec_entries (map (\<lambda>(k, v). (to_valid_utf8 k, JStr (to_valid_utf8 v))) m') m = (m @ m', True)"
  using assms
proof (induction m' arbitrary: m)
  case (Cons kv m')
  obtain k v where kv: "kv = (k, v)" by (cases kv)
  with Cons.prems have "AList.update k v m = m @ [(k, v)]" by (intro AList_update_new) auto
  moreover have "dec_entries (map (\<lambda>(k, v). (to_valid_utf8 k, JStr (to_valid_utf8 v))) m') (m @ [(k, v)])
      = ((m @ [(k, v)]) @ m', True)"
    using Cons.prems kv by (intro Cons.IH) auto
  ultimately show ?case using Cons.prems kv by (simp add: dec_string_def)
qed simp

interpretation strmap_codec: json_codec enc_strmap dec_strmap "[]" strmap_ok
proof
  fix m :: "(go_string \<times> go_string) list"
  assume m: "strmap_ok m"
  then have "sort_key fst m = m" by (simp add: strmap_ok_def sort_key_id_if_sorted)
  with m show "\<exists>j. enc_strmap m = Some j \<and> dec_strmap j [] = (m, True)"
    using dec_entries_append [of "[]" m]
    by (cases "m = []") (auto simp: enc_strmap_def dec_strmap_def strmap_ok_def)
qed

section \<open>The structs\<close>

text \<open>
  The field tables follow the declarations. The structs of \<open>internal/domain\<close> have no tags: a key is
  the name of its field.
\<close>

definition enc_container :: "container \<Rightarrow> json option" where
  "enc_container c = enc_struct
     [(''ID'', enc_string (cID c)), (''ServiceID'', enc_string (cServiceID c)),
      (''NodeID'', enc_string (cNodeID c)), (''DockerID'', enc_string (cDockerID c)),
      (''Status'', enc_string (cStatus c)), (''StartedAt'', enc_time (cStartedAt c))]"

definition container_fields :: "(go_string \<times> container decoder) list" where
  "container_fields =
     [(''ID'', fld cID_update cID dec_string), (''ServiceID'', fld cServiceID_update cServiceID dec_string),
      (''NodeID'', fld cNodeID_update cNodeID dec_string), (''DockerID'', fld cDockerID_update cDockerID dec_string),
      (''Status'', fld cStatus_update cStatus dec_string), (''StartedAt'', fld cStartedAt_update cStartedAt dec_time)]"

definition dec_container :: "container decoder" where
  "dec_container = dec_struct container_fields"

definition container_ok :: "container \<Rightarrow> bool" where
  "container_ok c \<longleftrightarrow> list_all valid_utf8 [cID c, cServiceID c, cNodeID c, cDockerID c, cStatus c] \<and>
     time_ok (cStartedAt c)"

lemma time_ok_zero [simp]: "time_ok zero_time"
  by (simp add: time_ok_def zero_time_def second_def)

lemmas struct_simps = enc_struct_def dec_struct_def field_for_def fld_def

lemmas leaf_simps = enc_string_def enc_int_def enc_i64_def enc_time_def enc_bool_def
  dec_string_def dec_int_def dec_i64_def dec_time_def dec_bool_def

interpretation container_codec: json_codec enc_container dec_container zero_container container_ok
  by unfold_locales
    (simp add: enc_container_def dec_container_def container_fields_def container_ok_def struct_simps
      leaf_simps zero_container_def)

definition enc_node :: "node \<Rightarrow> json option" where
  "enc_node n = enc_struct
     [(''ID'', enc_string (nID n)), (''Address'', enc_string (nAddress n)),
      (''Status'', enc_string (nStatus n)), (''TotalCPU'', enc_f64 (nTotalCPU n)),
      (''UsedCPU'', enc_f64 (nUsedCPU n)), (''TotalRAM'', enc_i64 (nTotalRAM n)),
      (''UsedRAM'', enc_i64 (nUsedRAM n)), (''LastHeartbeat'', enc_time (nLastHeartbeat n)),
      (''Containers'', enc_slice enc_container (nContainers n))]"

definition node_fields :: "(go_string \<times> node decoder) list" where
  "node_fields =
     [(''ID'', fld nID_update nID dec_string), (''Address'', fld nAddress_update nAddress dec_string),
      (''Status'', fld nStatus_update nStatus dec_string),
      (''TotalCPU'', fld nTotalCPU_update nTotalCPU dec_f64),
      (''UsedCPU'', fld nUsedCPU_update nUsedCPU dec_f64),
      (''TotalRAM'', fld nTotalRAM_update nTotalRAM dec_i64),
      (''UsedRAM'', fld nUsedRAM_update nUsedRAM dec_i64),
      (''LastHeartbeat'', fld nLastHeartbeat_update nLastHeartbeat dec_time),
      (''Containers'', fld nContainers_update nContainers (dec_slice dec_container zero_container))]"

definition dec_node :: "node decoder" where
  "dec_node = dec_struct node_fields"

definition node_ok :: "node \<Rightarrow> bool" where
  "node_ok n \<longleftrightarrow> list_all valid_utf8 [nID n, nAddress n, nStatus n] \<and>
     finite_f64 (nTotalCPU n) \<and> finite_f64 (nUsedCPU n) \<and> time_ok (nLastHeartbeat n) \<and>
     list_all container_ok (nContainers n)"

interpretation node_codec: json_codec enc_node dec_node zero_node node_ok
proof
  fix n
  assume ok: "node_ok n"
  obtain tc uc cs where leaves: "enc_f64 (nTotalCPU n) = Some tc" "dec_f64 tc 0 = (nTotalCPU n, True)"
      "enc_f64 (nUsedCPU n) = Some uc" "dec_f64 uc 0 = (nUsedCPU n, True)"
      "enc_slice enc_container (nContainers n) = Some cs"
      "dec_slice dec_container zero_container cs [] = (nContainers n, True)"
    using ok f64_codec.roundtrip container_codec.roundtrip_slice unfolding node_ok_def by meson
  with ok show "\<exists>j. enc_node n = Some j \<and> dec_node j zero_node = (n, True)"
    by (simp add: enc_node_def dec_node_def node_fields_def node_ok_def struct_simps leaf_simps
        zero_node_def)
qed

definition enc_service :: "service \<Rightarrow> json option" where
  "enc_service v = enc_struct
     [(''ID'', enc_string (sID v)), (''Name'', enc_string (sName v)),
      (''Image'', enc_string (sImage v)), (''RequiredCPU'', enc_f64 (sRequiredCPU v)),
      (''RequiredRAM'', enc_i64 (sRequiredRAM v)), (''Replicas'', enc_int (sReplicas v)),
      (''DesiredReplicas'', enc_int (sDesiredReplicas v)), (''PoolID'', enc_string (sPoolID v)),
      (''Containers'', enc_slice enc_container (sContainers v)),
      (''CreatedBy'', enc_string (sCreatedBy v)), (''EnvVars'', enc_strmap (sEnvVars v)),
      (''Ports'', enc_slice enc_int (sPorts v)), (''Cmd'', enc_slice enc_string (sCmd v))]"

definition service_fields :: "(go_string \<times> service decoder) list" where
  "service_fields =
     [(''ID'', fld sID_update sID dec_string), (''Name'', fld sName_update sName dec_string),
      (''Image'', fld sImage_update sImage dec_string),
      (''RequiredCPU'', fld sRequiredCPU_update sRequiredCPU dec_f64),
      (''RequiredRAM'', fld sRequiredRAM_update sRequiredRAM dec_i64),
      (''Replicas'', fld sReplicas_update sReplicas dec_int),
      (''DesiredReplicas'', fld sDesiredReplicas_update sDesiredReplicas dec_int),
      (''PoolID'', fld sPoolID_update sPoolID dec_string),
      (''Containers'', fld sContainers_update sContainers (dec_slice dec_container zero_container)),
      (''CreatedBy'', fld sCreatedBy_update sCreatedBy dec_string),
      (''EnvVars'', fld sEnvVars_update sEnvVars dec_strmap),
      (''Ports'', fld sPorts_update sPorts (dec_slice dec_int 0)),
      (''Cmd'', fld sCmd_update sCmd (dec_slice dec_string ''''))]"

definition dec_service :: "service decoder" where
  "dec_service = dec_struct service_fields"

definition service_ok :: "service \<Rightarrow> bool" where
  "service_ok v \<longleftrightarrow>
     list_all valid_utf8 [sID v, sName v, sImage v, sPoolID v, sCreatedBy v] \<and>
     finite_f64 (sRequiredCPU v) \<and> int64_range (sReplicas v) \<and> int64_range (sDesiredReplicas v) \<and>
     list_all container_ok (sContainers v) \<and> strmap_ok (sEnvVars v) \<and>
     list_all int64_range (sPorts v) \<and> list_all valid_utf8 (sCmd v)"

interpretation service_codec: json_codec enc_service dec_service zero_service service_ok
proof
  fix v
  assume ok: "service_ok v"
  obtain rc where cpu: "enc_f64 (sRequiredCPU v) = Some rc" "dec_f64 rc 0 = (sRequiredCPU v, True)"
    using ok f64_codec.roundtrip unfolding service_ok_def by meson
  obtain cs where cs: "enc_slice enc_container (sContainers v) = Some cs"
      "dec_slice dec_container zero_container cs [] = (sContainers v, True)"
    using ok container_codec.roundtrip_slice unfolding service_ok_def by meson
  obtain ev where ev: "enc_strmap (sEnvVars v) = Some ev" "dec_strmap ev [] = (sEnvVars v, True)"
    using ok strmap_codec.roundtrip unfolding service_ok_def by meson
  obtain ps where ps: "enc_slice enc_int (sPorts v) = Some ps"
      "dec_slice dec_int 0 ps [] = (sPorts v, True)"
    using ok int_codec.roundtrip_slice unfolding service_ok_def by meson
  obtain cm where cm: "enc_slice enc_string (sCmd v) = Some cm"
      "dec_slice dec_string '''' cm [] = (sCmd v, True)"
    using ok string_codec.roundtrip_slice unfolding service_ok_def by meson
  from ok show "\<exists>j. enc_service v = Some j \<and> dec_service j zero_service = (v, True)"
    by (simp add: cpu cs ev ps cm enc_service_def dec_service_def service_fields_def service_ok_def
        struct_simps leaf_simps zero_service_def)
qed

definition enc_pool :: "resource_pool \<Rightarrow> json option" where
  "enc_pool p = enc_struct
     [(''ID'', enc_string (pID p)), (''Name'', enc_string (pName p)), (''MinCPU'', enc_f64 (pMinCPU p)),
      (''MaxCPU'', enc_f64 (pMaxCPU p)), (''MinRAM'', enc_i64 (pMinRAM p)),
      (''MaxRAM'', enc_i64 (pMaxRAM p)), (''NodeIDs'', enc_slice enc_string (pNodeIDs p))]"

definition pool_fields :: "(go_string \<times> resource_pool decoder) list" where
  "pool_fields =
     [(''ID'', fld pID_update pID dec_string), (''Name'', fld pName_update pName dec_string),
      (''MinCPU'', fld pMinCPU_update pMinCPU dec_f64), (''MaxCPU'', fld pMaxCPU_update pMaxCPU dec_f64),
      (''MinRAM'', fld pMinRAM_update pMinRAM dec_i64), (''MaxRAM'', fld pMaxRAM_update pMaxRAM dec_i64),
      (''NodeIDs'', fld pNodeIDs_update pNodeIDs (dec_slice dec_string ''''))]"

definition dec_pool :: "resource_pool decoder" where
  "dec_pool = dec_struct pool_fields"

definition pool_ok :: "resource_pool \<Rightarrow> bool" where
  "pool_ok p \<longleftrightarrow> list_all valid_utf8 (pID p # pName p # pNodeIDs p) \<and>
     finite_f64 (pMinCPU p) \<and> finite_f64 (pMaxCPU p)"

interpretation pool_codec: json_codec enc_pool dec_pool zero_pool pool_ok
proof
  fix p
  assume ok: "pool_ok p"
  obtain a b where cpu: "enc_f64 (pMinCPU p) = Some a" "dec_f64 a 0 = (pMinCPU p, True)"
      "enc_f64 (pMaxCPU p) = Some b" "dec_f64 b 0 = (pMaxCPU p, True)"
    using ok f64_codec.roundtrip unfolding pool_ok_def by meson
  obtain ns where ns: "enc_slice enc_string (pNodeIDs p) = Some ns"
      "dec_slice dec_string '''' ns [] = (pNodeIDs p, True)"
    using ok string_codec.roundtrip_slice [of "pNodeIDs p"] by (auto simp: pool_ok_def)
  from ok show "\<exists>j. enc_pool p = Some j \<and> dec_pool j zero_pool = (p, True)"
    by (simp add: cpu ns enc_pool_def dec_pool_def pool_fields_def pool_ok_def struct_simps leaf_simps
        zero_pool_def)
qed

definition enc_user :: "user \<Rightarrow> json option" where
  "enc_user u = enc_struct
     [(''ID'', enc_string (uID u)), (''Username'', enc_string (uUsername u)),
      (''Role'', enc_string (uRole u)), (''TokenHash'', enc_string (uTokenHash u))]"

definition user_fields :: "(go_string \<times> user decoder) list" where
  "user_fields =
     [(''ID'', fld uID_update uID dec_string), (''Username'', fld uUsername_update uUsername dec_string),
      (''Role'', fld uRole_update uRole dec_string),
      (''TokenHash'', fld uTokenHash_update uTokenHash dec_string)]"

definition dec_user :: "user decoder" where
  "dec_user = dec_struct user_fields"

definition user_ok :: "user \<Rightarrow> bool" where
  "user_ok u \<longleftrightarrow> list_all valid_utf8 [uID u, uUsername u, uRole u, uTokenHash u]"

interpretation user_codec: json_codec enc_user dec_user zero_user user_ok
  by unfold_locales
    (simp add: enc_user_def dec_user_def user_fields_def user_ok_def struct_simps leaf_simps
      zero_user_def)

definition enc_audit_entry :: "audit_entry \<Rightarrow> json option" where
  "enc_audit_entry e = enc_struct
     [(''Timestamp'', enc_time (aTimestamp e)), (''UserID'', enc_string (aUserID e)),
      (''Action'', enc_string (aAction e)), (''Resource'', enc_string (aResource e)),
      (''Details'', enc_string (aDetails e))]"

definition audit_fields :: "(go_string \<times> audit_entry decoder) list" where
  "audit_fields =
     [(''Timestamp'', fld aTimestamp_update aTimestamp dec_time),
      (''UserID'', fld aUserID_update aUserID dec_string), (''Action'', fld aAction_update aAction dec_string),
      (''Resource'', fld aResource_update aResource dec_string),
      (''Details'', fld aDetails_update aDetails dec_string)]"

definition dec_audit_entry :: "audit_entry decoder" where
  "dec_audit_entry = dec_struct audit_fields"

definition audit_ok :: "audit_entry \<Rightarrow> bool" where
  "audit_ok e \<longleftrightarrow> time_ok (aTimestamp e) \<and>
     list_all valid_utf8 [aUserID e, aAction e, aResource e, aDetails e]"

interpretation audit_codec: json_codec enc_audit_entry dec_audit_entry zero_audit_entry audit_ok
  by unfold_locales
    (simp add: enc_audit_entry_def dec_audit_entry_def audit_fields_def audit_ok_def struct_simps
      leaf_simps zero_audit_entry_def)

definition enc_heartbeat :: "heartbeat \<Rightarrow> json option" where
  "enc_heartbeat h = enc_struct
     [(''NodeID'', enc_string (hbNodeID h)), (''Address'', enc_string (hbAddress h)),
      (''TotalCPU'', enc_f64 (hbTotalCPU h)), (''UsedCPU'', enc_f64 (hbUsedCPU h)),
      (''TotalRAM'', enc_i64 (hbTotalRAM h)), (''UsedRAM'', enc_i64 (hbUsedRAM h)),
      (''Containers'', enc_slice enc_string (hbContainers h))]"

definition heartbeat_fields :: "(go_string \<times> heartbeat decoder) list" where
  "heartbeat_fields =
     [(''NodeID'', fld hbNodeID_update hbNodeID dec_string),
      (''Address'', fld hbAddress_update hbAddress dec_string),
      (''TotalCPU'', fld hbTotalCPU_update hbTotalCPU dec_f64),
      (''UsedCPU'', fld hbUsedCPU_update hbUsedCPU dec_f64),
      (''TotalRAM'', fld hbTotalRAM_update hbTotalRAM dec_i64),
      (''UsedRAM'', fld hbUsedRAM_update hbUsedRAM dec_i64),
      (''Containers'', fld hbContainers_update hbContainers (dec_slice dec_string ''''))]"

definition dec_heartbeat :: "heartbeat decoder" where
  "dec_heartbeat = dec_struct heartbeat_fields"

definition heartbeat_ok :: "heartbeat \<Rightarrow> bool" where
  "heartbeat_ok h \<longleftrightarrow> list_all valid_utf8 (hbNodeID h # hbAddress h # hbContainers h) \<and>
     finite_f64 (hbTotalCPU h) \<and> finite_f64 (hbUsedCPU h)"

interpretation heartbeat_codec: json_codec enc_heartbeat dec_heartbeat zero_heartbeat heartbeat_ok
proof
  fix h
  assume ok: "heartbeat_ok h"
  obtain a b where cpu: "enc_f64 (hbTotalCPU h) = Some a" "dec_f64 a 0 = (hbTotalCPU h, True)"
      "enc_f64 (hbUsedCPU h) = Some b" "dec_f64 b 0 = (hbUsedCPU h, True)"
    using ok f64_codec.roundtrip unfolding heartbeat_ok_def by meson
  obtain cs where cs: "enc_slice enc_string (hbContainers h) = Some cs"
      "dec_slice dec_string '''' cs [] = (hbContainers h, True)"
    using ok string_codec.roundtrip_slice [of "hbContainers h"] by (auto simp: heartbeat_ok_def)
  from ok show "\<exists>j. enc_heartbeat h = Some j \<and> dec_heartbeat j zero_heartbeat = (h, True)"
    by (simp add: cpu cs enc_heartbeat_def dec_heartbeat_def heartbeat_fields_def heartbeat_ok_def
        struct_simps leaf_simps zero_heartbeat_def)
qed

end
