(* ===== verification/Command.thy ===== *)
theory Command
  imports Json
begin

text \<open>
  The command protocol of \<open>internal/agent/command.go\<close>: one JSON command per TCP connection from a
  master to a worker, one JSON response back. \<open>handleConn\<close> is the worker's side and \<open>SendCommand\<close> the
  master's; whether the connection is made, whether the command goes out and what comes back are
  arguments. Fields tagged \<open>omitempty\<close> are left out when they are empty.
\<close>

section \<open>Messages\<close>

definition CmdStartContainer :: go_string where "CmdStartContainer = ''StartContainer''"
definition CmdKillContainers :: go_string where "CmdKillContainers = ''KillContainers''"

lemma cmd_neq [go_consts, simp]:
  "CmdStartContainer \<noteq> CmdKillContainers" "CmdKillContainers \<noteq> CmdStartContainer"
  by (simp_all add: CmdStartContainer_def CmdKillContainers_def)

record command =
  cmType :: go_string
  cmContainerID :: go_string
  cmImage :: go_string
  cmCPULimit :: f64
  cmRAMLimit :: i64
  cmEnvVars :: "(go_string \<times> go_string) list"
  cmPorts :: "int list"
  cmCmd :: "go_string list"
  cmServiceID :: go_string

record command_response =
  rsSuccess :: bool
  rsContainerID :: go_string
  rsError :: go_string

definition zero_command :: command where
  "zero_command = \<lparr>cmType = '''', cmContainerID = '''', cmImage = '''', cmCPULimit = 0, cmRAMLimit = 0,
     cmEnvVars = [], cmPorts = [], cmCmd = [], cmServiceID = ''''\<rparr>"

definition zero_response :: command_response where
  "zero_response = \<lparr>rsSuccess = False, rsContainerID = '''', rsError = ''''\<rparr>"

definition omitempty :: "bool \<Rightarrow> go_string \<Rightarrow> json option \<Rightarrow> (go_string \<times> json option) list" where
  "omitempty isEmpty k e = (if isEmpty then [] else [(k, e)])"

definition enc_command :: "command \<Rightarrow> json option" where
  "enc_command c = enc_struct
     ([(''type'', enc_string (cmType c))] @
      omitempty (cmContainerID c = '''') ''containerID'' (enc_string (cmContainerID c)) @
      omitempty (cmImage c = '''') ''image'' (enc_string (cmImage c)) @
      omitempty (cmCPULimit c = 0) ''cpuLimit'' (enc_f64 (cmCPULimit c)) @
      omitempty (cmRAMLimit c = 0) ''ramLimit'' (enc_i64 (cmRAMLimit c)) @
      omitempty (cmEnvVars c = []) ''envVars'' (enc_strmap (cmEnvVars c)) @
      omitempty (cmPorts c = []) ''ports'' (enc_slice enc_int (cmPorts c)) @
      omitempty (cmCmd c = []) ''cmd'' (enc_slice enc_string (cmCmd c)) @
      omitempty (cmServiceID c = '''') ''serviceID'' (enc_string (cmServiceID c)))"

definition command_fields :: "(go_string \<times> command decoder) list" where
  "command_fields =
     [(''type'', fld cmType_update cmType dec_string),
      (''containerID'', fld cmContainerID_update cmContainerID dec_string),
      (''image'', fld cmImage_update cmImage dec_string),
      (''cpuLimit'', fld cmCPULimit_update cmCPULimit dec_f64),
      (''ramLimit'', fld cmRAMLimit_update cmRAMLimit dec_i64),
      (''envVars'', fld cmEnvVars_update cmEnvVars dec_strmap),
      (''ports'', fld cmPorts_update cmPorts (dec_slice dec_int 0)),
      (''cmd'', fld cmCmd_update cmCmd (dec_slice dec_string '''')),
      (''serviceID'', fld cmServiceID_update cmServiceID dec_string)]"

definition dec_command :: "command decoder" where
  "dec_command = dec_struct command_fields"

definition enc_response :: "command_response \<Rightarrow> json option" where
  "enc_response r = enc_struct
     ([(''success'', enc_bool (rsSuccess r))] @
      omitempty (rsContainerID r = '''') ''containerID'' (enc_string (rsContainerID r)) @
      omitempty (rsError r = '''') ''error'' (enc_string (rsError r)))"

definition response_fields :: "(go_string \<times> command_response decoder) list" where
  "response_fields =
     [(''success'', fld rsSuccess_update rsSuccess dec_bool),
      (''containerID'', fld rsContainerID_update rsContainerID dec_string),
      (''error'', fld rsError_update rsError dec_string)]"

definition dec_response :: "command_response decoder" where
  "dec_response = dec_struct response_fields"

section \<open>The two sides of a connection\<close>

text \<open>The worker's reply: none when the command does not decode or the response does not encode.\<close>

definition handleConn :: "(command \<Rightarrow> command_response) \<Rightarrow> json option \<Rightarrow> json option" where
  "handleConn handler data =
     (case data of
        None \<Rightarrow> None
      | Some j \<Rightarrow>
          (let (cmd, ok) = dec_command j zero_command in
           if \<not> ok then None else enc_response (handler cmd)))"

datatype send_error = ConnectError | SendError | ReadError

definition SendCommand ::
  "bool \<Rightarrow> bool \<Rightarrow> (json option \<Rightarrow> json option) \<Rightarrow> command \<Rightarrow> send_error + command_response" where
  "SendCommand dialled written peer cmd =
     (if \<not> dialled then Inl ConnectError
      else case enc_command cmd of
        None \<Rightarrow> Inl SendError
      | Some j \<Rightarrow>
          if \<not> written then Inl SendError
          else (case peer (Some j) of
             None \<Rightarrow> Inl ReadError
           | Some r \<Rightarrow>
               (let (resp, ok) = dec_response r zero_response in
                if ok then Inr resp else Inl ReadError)))"

section \<open>Round trips\<close>

text \<open>\<open>decodes fs es r r'\<close>: the fields \<open>es\<close>, once written, take the struct \<open>r\<close> to \<open>r'\<close>.\<close>

definition decodes ::
  "(go_string \<times> 'r decoder) list \<Rightarrow> (go_string \<times> json option) list \<Rightarrow> 'r \<Rightarrow> 'r \<Rightarrow> bool" where
  "decodes fs es r r' \<longleftrightarrow> (\<exists>kvs. enc_fields es = Some kvs \<and> dec_fields fs kvs r = (r', True))"

lemma enc_fields_append:
  "enc_fields a = Some x \<Longrightarrow> enc_fields b = Some y \<Longrightarrow> enc_fields (a @ b) = Some (x @ y)"
proof (induction a arbitrary: x)
  case (Cons ke a)
  obtain k e where "ke = (k, e)" by (cases ke)
  with Cons show ?case by (auto split: option.splits)
qed simp

lemma dec_fields_append:
  "dec_fields fs (x @ y) r =
     (let (r1, a) = dec_fields fs x r; (r2, b) = dec_fields fs y r1 in (r2, a \<and> b))"
  by (induction fs x r rule: dec_fields.induct) (auto simp: Let_def split: option.split prod.split)

lemma decodes_append:
  "decodes fs a r r1 \<Longrightarrow> decodes fs b r1 r2 \<Longrightarrow> decodes fs (a @ b) r r2"
  by (fastforce simp: decodes_def dec_fields_append enc_fields_append)

lemma decodes_field:
  assumes "e = Some j" and "field_for fs k = Some d" and "d j r = (r', True)"
  shows "decodes fs [(k, e)] r r'"
  using assms by (simp add: decodes_def)

lemma decodes_omitempty:
  assumes "isEmpty \<Longrightarrow> r' = r" and "\<not> isEmpty \<Longrightarrow> decodes fs [(k, e)] r r'"
  shows "decodes fs (omitempty isEmpty k e) r r'"
  using assms by (cases isEmpty) (simp_all add: omitempty_def, simp add: decodes_def)

lemma dec_struct_decodes:
  assumes "decodes fs es z x"
  shows "\<exists>j. enc_struct es = Some j \<and> dec_struct fs j z = (x, True)"
  using assms by (auto simp: decodes_def enc_struct_def dec_struct_def)

definition command_ok :: "command \<Rightarrow> bool" where
  "command_ok c \<longleftrightarrow>
     list_all valid_utf8 (cmType c # cmContainerID c # cmImage c # cmServiceID c # cmCmd c) \<and>
     finite_f64 (cmCPULimit c) \<and> strmap_ok (cmEnvVars c) \<and> list_all int64_range (cmPorts c)"

definition response_ok :: "command_response \<Rightarrow> bool" where
  "response_ok r \<longleftrightarrow> list_all valid_utf8 [rsContainerID r, rsError r]"

text \<open>One field at a time: from a struct whose field is still zero.\<close>

interpretation response_codec: json_codec enc_response dec_response zero_response response_ok
proof
  fix r
  assume ok: "response_ok r"
  let ?r1 = "zero_response\<lparr>rsSuccess := rsSuccess r\<rparr>"
  let ?r2 = "?r1\<lparr>rsContainerID := rsContainerID r\<rparr>"
  have 1: "decodes response_fields [(''success'', enc_bool (rsSuccess r))] zero_response ?r1"
    by (simp add: decodes_def response_fields_def struct_simps leaf_simps)
  have 2: "decodes response_fields
      (omitempty (rsContainerID r = '''') ''containerID'' (enc_string (rsContainerID r))) ?r1 ?r2"
    using ok by (intro decodes_omitempty)
      (simp_all add: decodes_def response_fields_def struct_simps leaf_simps zero_response_def response_ok_def)
  have "decodes response_fields
      (omitempty (rsError r = '''') ''error'' (enc_string (rsError r))) ?r2 (?r2\<lparr>rsError := rsError r\<rparr>)"
    using ok by (intro decodes_omitempty)
      (simp_all add: decodes_def response_fields_def struct_simps leaf_simps zero_response_def response_ok_def)
  then have 3: "decodes response_fields
      (omitempty (rsError r = '''') ''error'' (enc_string (rsError r))) ?r2 r"
    by (cases r) (simp add: zero_response_def)
  show "\<exists>j. enc_response r = Some j \<and> dec_response j zero_response = (r, True)"
    unfolding enc_response_def dec_response_def
    by (rule dec_struct_decodes [OF decodes_append [OF 1 decodes_append [OF 2 3]]])
qed

lemma decodes_codec:
  assumes "json_codec enc dec z ok" and "ok (get x)" and "field_for fs k = Some (fld upd get dec)"
    and "get r = z" and "upd (\<lambda>_. get x) r = r'" and "isEmpty \<longleftrightarrow> get x = z"
    and "upd (\<lambda>_. z) r = r"
  shows "decodes fs (omitempty isEmpty k (enc (get x))) r r'"
proof -
  obtain j where j: "enc (get x) = Some j" "dec j z = (get x, True)"
    using json_codec.roundtrip [OF assms(1,2)] by blast
  have "fld upd get dec j r = (r', True)"
    unfolding fld_def assms(4) j(2) Let_def prod.case assms(5) ..
  then have "decodes fs [(k, enc (get x))] r r'"
    by (rule decodes_field [OF j(1) assms(3)])
  moreover have "r' = r" if isEmpty using assms(5-7) that by simp
  ultimately show ?thesis by (intro decodes_omitempty) simp_all
qed

lemma slice_codec:
  "json_codec enc dec z ok \<Longrightarrow> json_codec (enc_slice enc) (dec_slice dec z) [] (list_all ok)"
  using json_codec.roundtrip_slice [of enc dec z ok] by unfold_locales

interpretation command_codec: json_codec enc_command dec_command zero_command command_ok
proof
  fix c
  assume ok: "command_ok c"
  let ?c1 = "zero_command\<lparr>cmType := cmType c\<rparr>"
  let ?c2 = "?c1\<lparr>cmContainerID := cmContainerID c\<rparr>"
  let ?c3 = "?c2\<lparr>cmImage := cmImage c\<rparr>"
  let ?c4 = "?c3\<lparr>cmCPULimit := cmCPULimit c\<rparr>"
  let ?c5 = "?c4\<lparr>cmRAMLimit := cmRAMLimit c\<rparr>"
  let ?c6 = "?c5\<lparr>cmEnvVars := cmEnvVars c\<rparr>"
  let ?c7 = "?c6\<lparr>cmPorts := cmPorts c\<rparr>"
  let ?c8 = "?c7\<lparr>cmCmd := cmCmd c\<rparr>"
  note d = field_for_def command_fields_def zero_command_def
  note oks = ok [unfolded command_ok_def]
  have 1: "decodes command_fields [(''type'', enc_string (cmType c))] zero_command ?c1"
    using oks by (simp add: decodes_def command_fields_def struct_simps leaf_simps)
  have 2: "decodes command_fields
      (omitempty (cmContainerID c = '''') ''containerID'' (enc_string (cmContainerID c))) ?c1 ?c2"
    using oks by (intro decodes_codec [where get = cmContainerID and upd = cmContainerID_update and x = c, OF string_codec.json_codec_axioms]) (simp_all add: d)
  have 3: "decodes command_fields (omitempty (cmImage c = '''') ''image'' (enc_string (cmImage c))) ?c2 ?c3"
    using oks by (intro decodes_codec [where get = cmImage and upd = cmImage_update and x = c, OF string_codec.json_codec_axioms]) (simp_all add: d)
  have 4: "decodes command_fields (omitempty (cmCPULimit c = 0) ''cpuLimit'' (enc_f64 (cmCPULimit c))) ?c3 ?c4"
    using oks by (intro decodes_codec [where get = cmCPULimit and upd = cmCPULimit_update and x = c, OF f64_codec.json_codec_axioms]) (simp_all add: d)
  have 5: "decodes command_fields (omitempty (cmRAMLimit c = 0) ''ramLimit'' (enc_i64 (cmRAMLimit c))) ?c4 ?c5"
    by (intro decodes_codec [where get = cmRAMLimit and upd = cmRAMLimit_update and x = c, OF i64_codec.json_codec_axioms]) (simp_all add: d)
  have 6: "decodes command_fields (omitempty (cmEnvVars c = []) ''envVars'' (enc_strmap (cmEnvVars c))) ?c5 ?c6"
    using oks by (intro decodes_codec [where get = cmEnvVars and upd = cmEnvVars_update and x = c, OF strmap_codec.json_codec_axioms]) (simp_all add: d)
  have 7: "decodes command_fields (omitempty (cmPorts c = []) ''ports'' (enc_slice enc_int (cmPorts c))) ?c6 ?c7"
    using oks by (intro decodes_codec [where get = cmPorts and upd = cmPorts_update and x = c, OF slice_codec [OF int_codec.json_codec_axioms]]) (simp_all add: d)
  have 8: "decodes command_fields (omitempty (cmCmd c = []) ''cmd'' (enc_slice enc_string (cmCmd c))) ?c7 ?c8"
    using oks by (intro decodes_codec [where get = cmCmd and upd = cmCmd_update and x = c, OF slice_codec [OF string_codec.json_codec_axioms]]) (simp_all add: d)
  have 9: "decodes command_fields (omitempty (cmServiceID c = '''') ''serviceID'' (enc_string (cmServiceID c))) ?c8 c"
    using oks by (intro decodes_codec [where get = cmServiceID and upd = cmServiceID_update and x = c, OF string_codec.json_codec_axioms]) (simp_all add: d)
  show "\<exists>j. enc_command c = Some j \<and> dec_command j zero_command = (c, True)"
    unfolding enc_command_def dec_command_def
    by (rule dec_struct_decodes [OF decodes_append [OF 1 decodes_append [OF 2 decodes_append [OF 3
        decodes_append [OF 4 decodes_append [OF 5 decodes_append [OF 6 decodes_append [OF 7
        decodes_append [OF 8 9]]]]]]]]])
qed

section \<open>Properties\<close>

text \<open>
  A command reaches the worker's handler as it was sent and the response comes back as the
  handler gave it: over a working connection, \<open>SendCommand\<close> to a worker that serves the connection
  with \<open>handleConn\<close> is a call of the handler. When the connection is refused, the command is not
  written or no answer comes, the caller gets the error of that stage.
\<close>

theorem SendCommand_calls_handler:
  assumes "command_ok cmd" and "response_ok (handler cmd)"
  shows "SendCommand True True (handleConn handler) cmd = Inr (handler cmd) \<and>
    SendCommand False written peer cmd = Inl ConnectError \<and>
    SendCommand True False peer cmd = Inl SendError \<and>
    SendCommand True True (\<lambda>_. None) cmd = Inl ReadError"
proof -
  obtain j where j: "enc_command cmd = Some j" "dec_command j zero_command = (cmd, True)"
    using command_codec.roundtrip [OF assms(1)] by blast
  obtain r where r: "enc_response (handler cmd) = Some r" "dec_response r zero_response = (handler cmd, True)"
    using response_codec.roundtrip [OF assms(2)] by blast
  show ?thesis by (simp add: SendCommand_def handleConn_def j r)
qed

theorem SendCommand_calls_handler_witness:
  "let kill = zero_command\<lparr>cmType := CmdKillContainers\<rparr>;
       handler = (\<lambda>c. zero_response\<lparr>rsSuccess := cmType c = CmdKillContainers\<rparr>)
   in SendCommand True True (handleConn handler) kill = Inr (zero_response\<lparr>rsSuccess := True\<rparr>)"
proof -
  have "command_ok (zero_command\<lparr>cmType := CmdKillContainers\<rparr>)"
    by (simp add: command_ok_def zero_command_def CmdKillContainers_def finite_f64_def zero_f64_def
        strmap_ok_def byte_in_def)
  moreover have "response_ok (zero_response\<lparr>rsSuccess := b\<rparr>)" for b
    by (simp add: response_ok_def zero_response_def)
  ultimately show ?thesis
    by (simp add: Let_def SendCommand_calls_handler [THEN conjunct1])
qed

end
