(* ===== verification/Docker.thy ===== *)
theory Docker
  imports Command
begin

text \<open>
  The container manager of a worker, \<open>internal/agent/docker.go\<close>, over the Docker SDK. The SDK and the
  daemon behind it are not part of the repository: they are an argument, a \<open>docker_sdk\<close> whose calls
  take the daemon from one state to the next, and \<open>docker_laws\<close> states what Docker documents of these
  calls and the code relies on. What a log line does is left out, except for the slice \<open>[:12]\<close> of an
  identifier, which panics on a shorter one.
\<close>

section \<open>The SDK\<close>

record port_binding =
  pbHostIP :: go_string
  pbHostPort :: go_string

text \<open>Port sets and port maps are keyed by a port with its protocol.\<close>

record container_config =
  ccImage :: go_string
  ccEnv :: "go_string list"
  ccCmd :: "go_string list"
  ccExposedPorts :: "go_string set"
  ccLabels :: "go_string \<rightharpoonup> go_string"

text \<open>A CPU limit outside of the range of \<open>int64\<close> is converted to a value that Go does not fix: \<open>None\<close>.\<close>

record host_config =
  hcPortBindings :: "go_string \<rightharpoonup> port_binding list"
  hcNanoCPUs :: "int option"
  hcMemory :: i64

record docker_container =
  dcName :: go_string
  dcConfig :: container_config
  dcHost :: host_config
  dcRunning :: bool

text \<open>The arguments of a filter: the pairs that were added.\<close>

type_synonym filter_args = "(go_string \<times> go_string) list"

text \<open>
  An error is its text. \<open>dsImagePull\<close> is the request together with reading the answer to its end;
  \<open>dsRemove force\<close> and \<open>dsList all\<close> have the option the code sets. \<open>dsContainers\<close> is what the daemon has,
  by identifier.
\<close>

record 'd docker_sdk =
  dsImageInspect :: "go_string \<Rightarrow> 'd \<Rightarrow> go_string option \<times> 'd"
  dsImagePull :: "go_string \<Rightarrow> 'd \<Rightarrow> go_string option \<times> 'd"
  dsCreate :: "container_config \<Rightarrow> host_config \<Rightarrow> go_string \<Rightarrow> 'd \<Rightarrow> (go_string + go_string) \<times> 'd"
  dsStart :: "go_string \<Rightarrow> 'd \<Rightarrow> go_string option \<times> 'd"
  dsStop :: "go_string \<Rightarrow> 'd \<Rightarrow> go_string option \<times> 'd"
  dsRemove :: "bool \<Rightarrow> go_string \<Rightarrow> 'd \<Rightarrow> go_string option \<times> 'd"
  dsList :: "bool \<Rightarrow> filter_args \<Rightarrow> 'd \<Rightarrow> (go_string + go_string list) \<times> 'd"
  dsContainers :: "'d \<Rightarrow> go_string \<rightharpoonup> docker_container"

section \<open>The manager\<close>

record docker_manager =
  dmNodeID :: go_string
  dmSeq :: int

definition NewDockerManager :: "go_string + unit \<Rightarrow> go_string \<Rightarrow> go_string + docker_manager" where
  "NewDockerManager client nodeID =
     (case client of
        Inl err \<Rightarrow> Inl (''docker client: '' @ err)
      | Inr _ \<Rightarrow> Inr \<lparr>dmNodeID = nodeID, dmSeq = 0\<rparr>)"

datatype docker_error =
    PullImage go_string go_string
  | CreateContainer go_string
  | StartFailed go_string
  | ListContainers go_string
  | PanicSlice

subsection \<open>Starting\<close>

definition env_list :: "go_string list \<Rightarrow> (go_string \<times> go_string) list \<Rightarrow> go_string list" where
  "env_list ks vars =
     concat (map (\<lambda>k. case map_of vars k of None \<Rightarrow> [] | Some v \<Rightarrow> [k @ ''='' @ v]) ks)"

definition tcp_port :: "int \<Rightarrow> go_string" where
  "tcp_port p = format_int p @ ''/tcp''"

fun exposed_ports :: "int list \<Rightarrow> go_string set" where
  "exposed_ports [] = {}"
| "exposed_ports (p # ps) = insert (tcp_port p) (exposed_ports ps)"

fun port_bindings :: "int list \<Rightarrow> (go_string \<rightharpoonup> port_binding list) \<Rightarrow> (go_string \<rightharpoonup> port_binding list)" where
  "port_bindings [] m = m"
| "port_bindings (p # ps) m =
     port_bindings ps (m(tcp_port p \<mapsto> [\<lparr>pbHostIP = ''0.0.0.0'', pbHostPort = format_int p\<rparr>]))"

definition container_config_for :: "go_string list \<Rightarrow> command \<Rightarrow> docker_manager \<Rightarrow> container_config" where
  "container_config_for ks cmd dm =
     \<lparr>ccImage = cmImage cmd, ccEnv = env_list ks (cmEnvVars cmd), ccCmd = cmCmd cmd,
      ccExposedPorts = exposed_ports (cmPorts cmd),
      ccLabels = [''dcp.node'' \<mapsto> dmNodeID dm, ''dcp.service'' \<mapsto> cmServiceID cmd]\<rparr>"

definition host_config_for :: "command \<Rightarrow> host_config" where
  "host_config_for cmd =
     \<lparr>hcPortBindings = port_bindings (cmPorts cmd) Map.empty,
      hcNanoCPUs = f64_to_int64 (f64_mul (cmCPULimit cmd) (Fin 1000000000)),
      hcMemory = cmRAMLimit cmd * 1024 * 1024\<rparr>"

definition container_name :: "go_string \<Rightarrow> go_string \<Rightarrow> int \<Rightarrow> go_string" where
  "container_name nodeID serviceID seq =
     ''dcp-'' @ nodeID @ ''-'' @ serviceID @ ''-'' @ format_int seq"

text \<open>\<open>ks\<close> is the order in which the loop over the environment visits it.\<close>

definition ensure_image :: "'d docker_sdk \<Rightarrow> go_string \<Rightarrow> 'd \<Rightarrow> docker_error option \<times> 'd" where
  "ensure_image sdk img d =
     (case dsImageInspect sdk img d of
        (None, d1) \<Rightarrow> (None, d1)
      | (Some _, d1) \<Rightarrow>
          (case dsImagePull sdk img d1 of
             (Some err, d2) \<Rightarrow> (Some (PullImage img err), d2)
           | (None, d2) \<Rightarrow> (None, d2)))"

definition StartContainer ::
  "'d docker_sdk \<Rightarrow> go_string list \<Rightarrow> command \<Rightarrow> docker_manager \<Rightarrow> 'd \<Rightarrow>
   (docker_error + go_string) \<times> docker_manager \<times> 'd" where
  "StartContainer sdk ks cmd dm d =
     (case ensure_image sdk (cmImage cmd) d of
        (Some err, d1) \<Rightarrow> (Inl err, dm, d1)
      | (None, d1) \<Rightarrow>
          (let dm' = dm\<lparr>dmSeq := dmSeq dm + 1\<rparr>;
               name = container_name (dmNodeID dm') (cmServiceID cmd) (dmSeq dm')
           in case dsCreate sdk (container_config_for ks cmd dm) (host_config_for cmd) name d1 of
                (Inl err, d2) \<Rightarrow> (Inl (CreateContainer err), dm', d2)
              | (Inr i, d2) \<Rightarrow>
                  (case dsStart sdk i d2 of
                     (Some err, d3) \<Rightarrow>
                       (let (_, d4) = dsRemove sdk True i d3 in (Inl (StartFailed err), dm', d4))
                   | (None, d3) \<Rightarrow>
                       (if length i < 12 then (Inl PanicSlice, dm', d3) else (Inr i, dm', d3)))))"

subsection \<open>Listing and removing\<close>

definition ownFilter :: "docker_manager \<Rightarrow> go_string \<Rightarrow> filter_args" where
  "ownFilter dm serviceID =
     [(''label'', ''dcp.node='' @ dmNodeID dm)] @
     (if serviceID \<noteq> '''' then [(''label'', ''dcp.service='' @ serviceID)] else [])"

definition listOwnContainers ::
  "'d docker_sdk \<Rightarrow> docker_manager \<Rightarrow> go_string \<Rightarrow> 'd \<Rightarrow> (docker_error + go_string list) \<times> 'd" where
  "listOwnContainers sdk dm serviceID d =
     (case dsList sdk True (ownFilter dm serviceID) d of
        (Inl err, d1) \<Rightarrow> (Inl (ListContainers err), d1)
      | (Inr ids, d1) \<Rightarrow> (Inr ids, d1))"

definition RunningContainerIDs :: "'d docker_sdk \<Rightarrow> docker_manager \<Rightarrow> 'd \<Rightarrow> go_string list \<times> 'd" where
  "RunningContainerIDs sdk dm d =
     (case dsList sdk False (ownFilter dm '''') d of
        (Inl err, d1) \<Rightarrow> ([], d1)
      | (Inr ids, d1) \<Rightarrow> (ids, d1))"

text \<open>The errors of stopping and removing are logged only. The flag: the loop came to its end.\<close>

fun removeContainers :: "'d docker_sdk \<Rightarrow> go_string list \<Rightarrow> 'd \<Rightarrow> bool \<times> 'd" where
  "removeContainers sdk [] d = (True, d)"
| "removeContainers sdk (i # ids) d =
     (if length i < 12 then (False, d)
      else
        let (_, d1) = dsStop sdk i d;
            (_, d2) = dsRemove sdk False i d1
        in removeContainers sdk ids d2)"

definition KillContainersByService ::
  "'d docker_sdk \<Rightarrow> docker_manager \<Rightarrow> go_string \<Rightarrow> 'd \<Rightarrow> docker_error option \<times> 'd" where
  "KillContainersByService sdk dm serviceID d =
     (case listOwnContainers sdk dm serviceID d of
        (Inl err, d1) \<Rightarrow> (Some err, d1)
      | (Inr toKill, d1) \<Rightarrow>
          (let (done', d2) = removeContainers sdk toKill d1
           in (if done' then None else Some PanicSlice, d2)))"

definition KillAllContainers :: "'d docker_sdk \<Rightarrow> docker_manager \<Rightarrow> 'd \<Rightarrow> docker_error option \<times> 'd" where
  "KillAllContainers sdk dm d =
     (case listOwnContainers sdk dm '''' d of
        (Inl err, d1) \<Rightarrow> (Some err, d1)
      | (Inr all, d1) \<Rightarrow>
          (let (done', d2) = removeContainers sdk all d1
           in (if done' then None else Some PanicSlice, d2)))"

section \<open>What Docker documents\<close>

text \<open>
  A filter \<open>label=key\<close> matches a container with that label, \<open>label=key=value\<close> one where it has that
  value; several are all required.
\<close>

definition label_match :: "go_string \<Rightarrow> (go_string \<rightharpoonup> go_string) \<Rightarrow> bool" where
  "label_match f labels =
     (let key = takeWhile (\<lambda>c. c \<noteq> CHR ''='') f
      in case dropWhile (\<lambda>c. c \<noteq> CHR ''='') f of
           [] \<Rightarrow> labels key \<noteq> None
         | _ # val \<Rightarrow> labels key = Some val)"

definition filter_match :: "filter_args \<Rightarrow> docker_container \<Rightarrow> bool" where
  "filter_match args c \<longleftrightarrow>
     list_all (\<lambda>(field, f). field = ''label'' \<longrightarrow> label_match f (ccLabels (dcConfig c))) args"

definition set_running :: "bool \<Rightarrow> go_string \<Rightarrow> (go_string \<rightharpoonup> docker_container) \<Rightarrow> (go_string \<rightharpoonup> docker_container)" where
  "set_running b i m = m(i := map_option (\<lambda>c. c\<lparr>dcRunning := b\<rparr>) (m i))"

text \<open>
  A call that fails leaves the containers alone. Images are no containers. A created container has a
  new identifier (64 hexadecimal digits; the code needs 12), has a name that no container had, and
  does not run. Starting, stopping and removing do what they say to the one container they name. A
  list has the matching containers, without \<open>all\<close> only the running ones.
\<close>

definition docker_laws :: "'d docker_sdk \<Rightarrow> bool" where
  "docker_laws sdk \<longleftrightarrow>
     (\<forall>img d. dsContainers sdk (snd (dsImageInspect sdk img d)) = dsContainers sdk d) \<and>
     (\<forall>img d. dsContainers sdk (snd (dsImagePull sdk img d)) = dsContainers sdk d) \<and>
     (\<forall>cfg host name d e d'. dsCreate sdk cfg host name d = (Inl e, d') \<longrightarrow>
        dsContainers sdk d' = dsContainers sdk d) \<and>
     (\<forall>cfg host name d i d'. dsCreate sdk cfg host name d = (Inr i, d') \<longrightarrow>
        dsContainers sdk d i = None \<and> name \<notin> dcName ` ran (dsContainers sdk d) \<and>
        dsContainers sdk d' = (dsContainers sdk d)
          (i \<mapsto> \<lparr>dcName = name, dcConfig = cfg, dcHost = host, dcRunning = False\<rparr>)) \<and>
     (\<forall>i d e d'. dsStart sdk i d = (e, d') \<longrightarrow> dsContainers sdk d' =
        (if e = None then set_running True i (dsContainers sdk d) else dsContainers sdk d)) \<and>
     (\<forall>i d e d'. dsStop sdk i d = (e, d') \<longrightarrow> dsContainers sdk d' =
        (if e = None then set_running False i (dsContainers sdk d) else dsContainers sdk d)) \<and>
     (\<forall>force i d e d'. dsRemove sdk force i d = (e, d') \<longrightarrow> dsContainers sdk d' =
        (if e = None then (dsContainers sdk d)(i := None) else dsContainers sdk d)) \<and>
     (\<forall>all args d r d'. dsList sdk all args d = (r, d') \<longrightarrow> dsContainers sdk d' = dsContainers sdk d \<and>
        (\<forall>ids. r = Inr ids \<longrightarrow> set ids =
          {i. \<exists>c. dsContainers sdk d i = Some c \<and> (all \<or> dcRunning c) \<and> filter_match args c})) \<and>
     (\<forall>i d c. dsContainers sdk d i = Some c \<longrightarrow> 12 \<le> length i \<and> set i \<subseteq> set ''0123456789abcdef'')"

lemma docker_laws_images:
  assumes "docker_laws sdk"
  shows "dsContainers sdk (snd (dsImageInspect sdk img d)) = dsContainers sdk d"
    and "dsContainers sdk (snd (dsImagePull sdk img d)) = dsContainers sdk d"
  using assms by (simp_all add: docker_laws_def)

lemma docker_laws_create_failed:
  "docker_laws sdk \<Longrightarrow> dsCreate sdk cfg host name d = (Inl e, d') \<Longrightarrow>
     dsContainers sdk d' = dsContainers sdk d"
  unfolding docker_laws_def by (elim conjE) metis

lemma docker_laws_created:
  "docker_laws sdk \<Longrightarrow> dsCreate sdk cfg host name d = (Inr i, d') \<Longrightarrow>
     dsContainers sdk d i = None \<and> name \<notin> dcName ` ran (dsContainers sdk d) \<and>
     dsContainers sdk d' = (dsContainers sdk d)
       (i \<mapsto> \<lparr>dcName = name, dcConfig = cfg, dcHost = host, dcRunning = False\<rparr>)"
  unfolding docker_laws_def by (elim conjE) metis

lemma docker_laws_start:
  "docker_laws sdk \<Longrightarrow> dsStart sdk i d = (e, d') \<Longrightarrow> dsContainers sdk d' =
     (if e = None then set_running True i (dsContainers sdk d) else dsContainers sdk d)"
  unfolding docker_laws_def by (elim conjE) metis

lemma docker_laws_stop:
  "docker_laws sdk \<Longrightarrow> dsStop sdk i d = (e, d') \<Longrightarrow> dsContainers sdk d' =
     (if e = None then set_running False i (dsContainers sdk d) else dsContainers sdk d)"
  unfolding docker_laws_def by (elim conjE) metis

lemma docker_laws_remove:
  "docker_laws sdk \<Longrightarrow> dsRemove sdk force i d = (e, d') \<Longrightarrow> dsContainers sdk d' =
     (if e = None then (dsContainers sdk d)(i := None) else dsContainers sdk d)"
  unfolding docker_laws_def by (elim conjE) metis

lemma docker_laws_list:
  assumes "docker_laws sdk" and "dsList sdk all' args d = (r, d')"
  shows "dsContainers sdk d' = dsContainers sdk d"
    and "r = Inr ids \<Longrightarrow> set ids =
      {i. \<exists>c. dsContainers sdk d i = Some c \<and> (all' \<or> dcRunning c) \<and> filter_match args c}"
proof -
  from assms(1) have "\<forall>all args d r d'. dsList sdk all args d = (r, d') \<longrightarrow>
      dsContainers sdk d' = dsContainers sdk d \<and> (\<forall>ids. r = Inr ids \<longrightarrow> set ids =
        {i. \<exists>c. dsContainers sdk d i = Some c \<and> (all \<or> dcRunning c) \<and> filter_match args c})"
    unfolding docker_laws_def by (elim conjE) assumption
  from this [rule_format, OF assms(2)]
  show "dsContainers sdk d' = dsContainers sdk d"
    and "r = Inr ids \<Longrightarrow> set ids =
      {i. \<exists>c. dsContainers sdk d i = Some c \<and> (all' \<or> dcRunning c) \<and> filter_match args c}"
    by blast+
qed

lemma docker_laws_id:
  assumes "docker_laws sdk" and "dsContainers sdk d i = Some c"
  shows "12 \<le> length i \<and> set i \<subseteq> set ''0123456789abcdef''"
proof -
  from assms(1) have "\<forall>i d c. dsContainers sdk d i = Some c \<longrightarrow>
      12 \<le> length i \<and> set i \<subseteq> set ''0123456789abcdef''"
    unfolding docker_laws_def by (elim conjE) assumption
  from this [rule_format, OF assms(2)] show ?thesis .
qed

lemmas docker_laws_ids = docker_laws_id [THEN conjunct1]

lemma docker_laws_ids_valid:
  assumes "docker_laws sdk" and "dsContainers sdk d i = Some c"
  shows "valid_utf8 i"
proof -
  have "list_all (byte_in 0 0x7F) ''0123456789abcdef''" by (simp add: byte_in_def)
  then have "ascii i" using docker_laws_id [OF assms] unfolding ascii_def list_all_iff by blast
  then show ?thesis by (rule valid_utf8_ascii)
qed

section \<open>Ownership\<close>

text \<open>The containers of a node, or those it has for one service.\<close>

definition own :: "docker_manager \<Rightarrow> go_string \<Rightarrow> docker_container \<Rightarrow> bool" where
  "own dm serviceID c \<longleftrightarrow> ccLabels (dcConfig c) ''dcp.node'' = Some (dmNodeID dm) \<and>
     (serviceID = '''' \<or> ccLabels (dcConfig c) ''dcp.service'' = Some serviceID)"

lemma filter_match_ownFilter [simp]: "filter_match (ownFilter dm serviceID) c = own dm serviceID c"
  by (auto simp: filter_match_def ownFilter_def own_def label_match_def)

lemma own_set_running [simp]: "own dm s (c\<lparr>dcRunning := b\<rparr>) = own dm s c"
  by (simp add: own_def)

section \<open>The operations on a lawful daemon\<close>

lemma ensure_image_cases:
  assumes "docker_laws sdk" and "ensure_image sdk img d = (r, d')"
  shows "dsContainers sdk d' = dsContainers sdk d" and "r \<noteq> Some PanicSlice"
  using assms(2) docker_laws_images [OF assms(1), of img d]
    docker_laws_images(2) [OF assms(1), of img "snd (dsImageInspect sdk img d)"]
  by (auto simp: ensure_image_def split: prod.splits option.splits)

lemma set_running_simps [simp]:
  "set_running b i m i = map_option (\<lambda>c. c\<lparr>dcRunning := b\<rparr>) (m i)"
  "k \<noteq> i \<Longrightarrow> set_running b i m k = m k"
  by (simp_all add: set_running_def)

lemma running_same [simp]: "\<exists>b. c = c\<lparr>dcRunning := b\<rparr>" for c :: docker_container
  by (rule exI [of _ "dcRunning c"]) simp

text \<open>A daemon that does not refuse a forced removal, and one that refuses neither stopping nor removing.\<close>

definition forced_removal_works :: "'d docker_sdk \<Rightarrow> bool" where
  "forced_removal_works sdk \<longleftrightarrow> (\<forall>i d. dsContainers sdk d i \<noteq> None \<longrightarrow> fst (dsRemove sdk True i d) = None)"

definition removal_works :: "'d docker_sdk \<Rightarrow> bool" where
  "removal_works sdk \<longleftrightarrow> (\<forall>i d. dsContainers sdk d i \<noteq> None \<longrightarrow> fst (dsStop sdk i d) = None) \<and>
     (\<forall>i d c. dsContainers sdk d i = Some c \<longrightarrow> \<not> dcRunning c \<longrightarrow> fst (dsRemove sdk False i d) = None)"

definition started_container :: "go_string list \<Rightarrow> command \<Rightarrow> docker_manager \<Rightarrow> docker_container" where
  "started_container ks cmd dm =
     \<lparr>dcName = container_name (dmNodeID dm) (cmServiceID cmd) (dmSeq dm + 1),
      dcConfig = container_config_for ks cmd dm, dcHost = host_config_for cmd, dcRunning = True\<rparr>"

lemma own_started_container [simp]:
  "own dm' s (started_container ks cmd dm) \<longleftrightarrow>
     dmNodeID dm' = dmNodeID dm \<and> (s = '''' \<or> s = cmServiceID cmd)"
  by (auto simp: own_def started_container_def container_config_for_def)

text \<open>What a start leads to, in the order the code has it.\<close>

lemma StartContainer_cases:
  assumes "docker_laws sdk" and "StartContainer sdk ks cmd dm d = (res, dm', d')"
  obtains (pull) e where "res = Inl (PullImage (cmImage cmd) e)" "dm' = dm"
      "dsContainers sdk d' = dsContainers sdk d"
  | (create) e where "res = Inl (CreateContainer e)" "dm' = dm\<lparr>dmSeq := dmSeq dm + 1\<rparr>"
      "dsContainers sdk d' = dsContainers sdk d"
  | (start) e i d3 where "res = Inl (StartFailed e)" "dm' = dm\<lparr>dmSeq := dmSeq dm + 1\<rparr>"
      "dsContainers sdk d i = None" "dcName (started_container ks cmd dm) \<notin> dcName ` ran (dsContainers sdk d)"
      "dsContainers sdk d3 = (dsContainers sdk d)(i \<mapsto> (started_container ks cmd dm)\<lparr>dcRunning := False\<rparr>)"
      "d' = snd (dsRemove sdk True i d3)"
  | (started) i where "res = Inr i" "dm' = dm\<lparr>dmSeq := dmSeq dm + 1\<rparr>" "dsContainers sdk d i = None"
      "dcName (started_container ks cmd dm) \<notin> dcName ` ran (dsContainers sdk d)"
      "dsContainers sdk d' = (dsContainers sdk d)(i \<mapsto> started_container ks cmd dm)"
proof -
  let ?c = "started_container ks cmd dm"
  let ?dm = "dm\<lparr>dmSeq := dmSeq dm + 1\<rparr>"
  obtain r1 d1 where 1: "ensure_image sdk (cmImage cmd) d = (r1, d1)" by fastforce
  note same1 = ensure_image_cases [OF assms(1) 1]
  show thesis
  proof (cases r1)
    case (Some err)
    then obtain e where "err = PullImage (cmImage cmd) e"
      using 1 by (auto simp: ensure_image_def split: prod.splits option.splits)
    then show ?thesis using assms(2) 1 Some same1 by (intro pull) (auto simp: StartContainer_def)
  next
    case None
    obtain r2 d2 where 2: "dsCreate sdk (container_config_for ks cmd dm) (host_config_for cmd) (dcName ?c) d1 = (r2, d2)"
      by fastforce
    show ?thesis
    proof (cases r2)
      case (Inl e)
      then show ?thesis
        using assms(2) 1 2 None same1 docker_laws_create_failed [OF assms(1) 2 [unfolded Inl]]
        by (intro create) (auto simp: StartContainer_def started_container_def Let_def)
    next
      case (Inr i)
      from docker_laws_created [OF assms(1) 2 [unfolded Inr]] same1
      have new: "dsContainers sdk d i = None" "dcName ?c \<notin> dcName ` ran (dsContainers sdk d)"
          "dsContainers sdk d2 = (dsContainers sdk d)(i \<mapsto> ?c\<lparr>dcRunning := False\<rparr>)"
        by (auto simp: started_container_def)
      obtain r3 d3 where 3: "dsStart sdk i d2 = (r3, d3)" by fastforce
      note d3 = docker_laws_start [OF assms(1) 3]
      show ?thesis
      proof (cases r3)
        case (Some e)
        then show ?thesis using assms(2) 1 2 3 None Inr new d3
          by (intro start [of e i d3]) (auto simp: StartContainer_def started_container_def Let_def split: prod.splits)
      next
        case ok: None
        have d3': "dsContainers sdk d3 = (dsContainers sdk d)(i \<mapsto> ?c)"
          using d3 ok new by (auto simp: set_running_def started_container_def)
        then have "12 \<le> length i" using docker_laws_ids [OF assms(1), of d3 i ?c] by simp
        then show ?thesis using assms(2) 1 2 3 None Inr new ok d3'
          by (intro started [of i]) (auto simp: StartContainer_def started_container_def Let_def)
      qed
    qed
  qed
qed

text \<open>Nothing is left of a start that fails.\<close>

lemma StartContainer_failed:
  assumes "docker_laws sdk" and "forced_removal_works sdk"
    and "StartContainer sdk ks cmd dm d = (Inl e, dm', d')"
  shows "dsContainers sdk d' = dsContainers sdk d"
  using assms(1,3)
proof (cases rule: StartContainer_cases)
  case (start e i d3)
  obtain r d4 where 4: "dsRemove sdk True i d3 = (r, d4)" by fastforce
  have "fst (dsRemove sdk True i d3) = None" using assms(2) start(5) by (simp add: forced_removal_works_def)
  with 4 have "dsContainers sdk d4 = (dsContainers sdk d3)(i := None)"
    using docker_laws_remove [OF assms(1) 4] by simp
  then show ?thesis using start 4 by (auto simp: fun_eq_iff)
qed simp_all

lemma removeContainers_outcome:
  assumes "docker_laws sdk" and "\<forall>i\<in>set ids. 12 \<le> length i" and "removeContainers sdk ids d = (fin, d')"
  shows "fin"
    and "i \<notin> set ids \<Longrightarrow> dsContainers sdk d' i = dsContainers sdk d i"
    and "dsContainers sdk d' i = None \<or> (\<exists>c b. dsContainers sdk d i = Some c \<and>
      dsContainers sdk d' i = Some (c\<lparr>dcRunning := b\<rparr>))"
    and "removal_works sdk \<Longrightarrow> i \<in> set ids \<Longrightarrow> dsContainers sdk d' i = None"
proof -
  have step: "fin \<and> (i \<notin> set ids \<longrightarrow> dsContainers sdk d' i = dsContainers sdk d i) \<and>
      (dsContainers sdk d' i = None \<or> (\<exists>c b. dsContainers sdk d i = Some c \<and>
        dsContainers sdk d' i = Some (c\<lparr>dcRunning := b\<rparr>))) \<and>
      (removal_works sdk \<longrightarrow> i \<in> set ids \<or> dsContainers sdk d i = None \<longrightarrow> dsContainers sdk d' i = None)"
    using assms(2,3)
  proof (induction ids arbitrary: d)
    case Nil
    then show ?case by (cases "dsContainers sdk d i") auto
  next
    case (Cons k ids)
    obtain e1 d1 where 1: "dsStop sdk k d = (e1, d1)" by fastforce
    obtain e2 d2 where 2: "dsRemove sdk False k d1 = (e2, d2)" by fastforce
    note d1 = docker_laws_stop [OF assms(1) 1] and d2 = docker_laws_remove [OF assms(1) 2]
    have "removeContainers sdk ids d2 = (fin, d')" using Cons.prems 1 2 by simp
    note IH = Cons.IH [OF _ this]
    have other: "i \<noteq> k \<Longrightarrow> dsContainers sdk d2 i = dsContainers sdk d i" using d1 d2 by simp
    have mine: "dsContainers sdk d2 k = None \<or> (\<exists>c b. dsContainers sdk d k = Some c \<and>
        dsContainers sdk d2 k = Some (c\<lparr>dcRunning := b\<rparr>))"
    proof (cases "dsContainers sdk d k")
      case (Some c)
      then have "c = c\<lparr>dcRunning := dcRunning c\<rparr>" by simp
      then show ?thesis using Some d1 d2 by (cases e1; cases e2) auto
    qed (use d1 d2 in auto)
    have gone: "dsContainers sdk d2 k = None" if w: "removal_works sdk"
    proof (cases "dsContainers sdk d k")
      case None
      then show ?thesis using mine by auto
    next
      case (Some c)
      then have "e1 = None" using w 1 unfolding removal_works_def by (metis fst_conv option.distinct(1))
      then have k: "dsContainers sdk d1 k = Some (c\<lparr>dcRunning := False\<rparr>)" using d1 Some by simp
      have "fst (dsRemove sdk False k d1) = None"
        using w [unfolded removal_works_def, THEN conjunct2, rule_format, OF k] by simp
      then show ?thesis using d2 2 by simp
    qed
    show ?case
    proof (cases "i = k")
      case True
      then show ?thesis using IH mine gone Cons.prems(1) by fastforce
    next
      case False
      then show ?thesis using IH other Cons.prems(1) by auto
    qed
  qed
  then show "fin"
    and "i \<notin> set ids \<Longrightarrow> dsContainers sdk d' i = dsContainers sdk d i"
    and "dsContainers sdk d' i = None \<or> (\<exists>c b. dsContainers sdk d i = Some c \<and>
      dsContainers sdk d' i = Some (c\<lparr>dcRunning := b\<rparr>))"
    and "removal_works sdk \<Longrightarrow> i \<in> set ids \<Longrightarrow> dsContainers sdk d' i = None"
    by blast+
qed

section \<open>A small daemon\<close>

text \<open>A daemon that keeps its containers in a list, names the \<open>n\<close>-th by \<open>n + 12\<close> letters, and has every image.\<close>

type_synonym small_daemon = "docker_container option list"

definition small_id :: "nat \<Rightarrow> go_string" where
  "small_id n = replicate (12 + n) (CHR ''a'')"

definition small_lookup :: "small_daemon \<Rightarrow> go_string \<rightharpoonup> docker_container" where
  "small_lookup d i = (if i = small_id (length i - 12) \<and> length i - 12 < length d then d ! (length i - 12) else None)"

definition small_set :: "go_string \<Rightarrow> docker_container option \<Rightarrow> small_daemon \<Rightarrow> small_daemon" where
  "small_set i x d = d[length i - 12 := x]"

definition small_docker :: "small_daemon docker_sdk" where
  "small_docker = \<lparr>dsImageInspect = (\<lambda>_ d. (None, d)), dsImagePull = (\<lambda>_ d. (None, d)),
     dsCreate = (\<lambda>cfg host name d.
       if list_ex (\<lambda>x. case x of None \<Rightarrow> False | Some c \<Rightarrow> dcName c = name) d then (Inl ''Conflict'', d)
       else (Inr (small_id (length d)),
             d @ [Some \<lparr>dcName = name, dcConfig = cfg, dcHost = host, dcRunning = False\<rparr>])),
     dsStart = (\<lambda>i d. case small_lookup d i of None \<Rightarrow> (Some ''No such container'', d)
       | Some c \<Rightarrow> (None, small_set i (Some (c\<lparr>dcRunning := True\<rparr>)) d)),
     dsStop = (\<lambda>i d. case small_lookup d i of None \<Rightarrow> (Some ''No such container'', d)
       | Some c \<Rightarrow> (None, small_set i (Some (c\<lparr>dcRunning := False\<rparr>)) d)),
     dsRemove = (\<lambda>force i d. case small_lookup d i of None \<Rightarrow> (Some ''No such container'', d)
       | Some c \<Rightarrow> if dcRunning c \<and> \<not> force then (Some ''container is running'', d)
           else (None, small_set i None d)),
     dsList = (\<lambda>all' args d. (Inr (map small_id (filter (\<lambda>n. case d ! n of None \<Rightarrow> False
       | Some c \<Rightarrow> (all' \<or> dcRunning c) \<and> filter_match args c) [0..<length d])), d)),
     dsContainers = small_lookup\<rparr>"

lemma length_small_id [simp]: "length (small_id n) = 12 + n"
  by (simp add: small_id_def)

lemma small_lookup_id [simp]: "small_lookup d (small_id n) = (if n < length d then d ! n else None)"
  by (simp add: small_lookup_def)

lemma small_lookup_Some:
  "small_lookup d i = Some c \<longleftrightarrow> (\<exists>n. i = small_id n \<and> n < length d \<and> d ! n = Some c)"
  by (auto simp: small_lookup_def split: if_splits)

lemma small_id_eq [simp]: "small_id m = small_id n \<longleftrightarrow> m = n"
  by (metis add_left_cancel length_small_id)

lemma small_lookup_set:
  assumes "small_lookup d i = Some c"
  shows "small_lookup (small_set i x d) = (small_lookup d)(i := x)"
proof
  fix k
  obtain n where n: "i = small_id n" "n < length d" using assms by (auto simp: small_lookup_Some)
  show "small_lookup (small_set i x d) k = ((small_lookup d)(i := x)) k"
  proof (cases "k = small_id (length k - 12)")
    case True
    then obtain m where "k = small_id m" by blast
    then show ?thesis using n by (auto simp: small_set_def nth_list_update)
  next
    case False
    then show ?thesis using n by (auto simp: small_lookup_def)
  qed
qed

lemma small_lookup_append: "small_lookup (d @ [x]) = (small_lookup d)(small_id (length d) := x)"
proof
  fix k
  show "small_lookup (d @ [x]) k = ((small_lookup d)(small_id (length d) := x)) k"
  proof (cases "k = small_id (length k - 12)")
    case True
    then obtain m where "k = small_id m" by blast
    then show ?thesis by (auto simp: nth_append)
  next
    case False
    then have "k \<noteq> small_id (length d)" by auto
    then show ?thesis using False by (simp add: small_lookup_def)
  qed
qed

lemma small_set_running:
  "small_lookup d i = Some c \<Longrightarrow>
     small_lookup (small_set i (Some (c\<lparr>dcRunning := b\<rparr>)) d) = set_running b i (small_lookup d)"
  by (simp add: small_lookup_set set_running_def)

lemma set_running_absent: "m i = None \<Longrightarrow> set_running b i m = m"
  by (auto simp: set_running_def)

lemma small_docker_laws [simp]: "docker_laws small_docker"
proof -
  have names: "name \<in> dcName ` ran (small_lookup d) \<longleftrightarrow>
      list_ex (\<lambda>x. case x of None \<Rightarrow> False | Some c \<Rightarrow> dcName c = name) d" for name d
  proof -
    have "ran (small_lookup d) = {c. Some c \<in> set d}"
      by (auto simp: ran_def small_lookup_Some in_set_conv_nth)
    then show ?thesis by (force simp: list_ex_iff split: option.splits)
  qed
  show ?thesis
    unfolding docker_laws_def
  proof (intro conjI allI impI, goal_cases)
    case (3 cfg host name d e d')
    then show ?case by (auto simp: small_docker_def split: if_splits)
  next
    case (4 cfg host name d i d')
    then show ?case by (auto simp: small_docker_def small_lookup_append names split: if_splits)
  next
    case (5 cfg host name d i d')
    then show ?case by (auto simp: small_docker_def names split: if_splits)
  next
    case (6 cfg host name d i d')
    then show ?case by (auto simp: small_docker_def small_lookup_append split: if_splits)
  next
    case (7 i d e d')
    then show ?case
      by (auto simp: small_docker_def small_set_running split: option.splits)
  next
    case (8 i d e d')
    then show ?case
      by (auto simp: small_docker_def small_set_running split: option.splits)
  next
    case (9 force i d e d')
    then show ?case
      by (auto simp: small_docker_def small_lookup_set split: option.splits if_splits)
  next
    case (11 all args d r d' ids)
    then show ?case
      by (force simp: small_docker_def small_lookup_Some split: option.splits)
  qed (auto simp: small_docker_def small_lookup_Some small_id_def split: if_splits)
qed

lemma small_docker_removal [simp]: "removal_works small_docker" "forced_removal_works small_docker"
  by (auto simp: removal_works_def forced_removal_works_def small_docker_def split: option.split)

lemma small_docker_containers [simp]: "dsContainers small_docker = small_lookup"
  by (simp add: small_docker_def)

lemma KillAllContainers_eq: "KillAllContainers sdk dm d = KillContainersByService sdk dm '''' d"
  by (simp add: KillAllContainers_def KillContainersByService_def split: prod.split sum.split)

text \<open>A kill either cannot list the containers, or stops and removes the listed ones one by one.\<close>

lemma KillContainersByService_cases:
  assumes "docker_laws sdk" and "KillContainersByService sdk dm serviceID d = (err, d')"
  obtains (unlisted) e where "err = Some (ListContainers e)" "dsContainers sdk d' = dsContainers sdk d"
  | (listed) ids d1 where "err = None" "dsContainers sdk d1 = dsContainers sdk d"
      "set ids = {i. \<exists>c. dsContainers sdk d i = Some c \<and> own dm serviceID c}"
      "removeContainers sdk ids d1 = (True, d')" "\<forall>i\<in>set ids. 12 \<le> length i"
proof -
  obtain r d1 where 1: "dsList sdk True (ownFilter dm serviceID) d = (r, d1)" by fastforce
  note same = docker_laws_list(1) [OF assms(1) 1]
  show thesis
  proof (cases r)
    case (Inl e)
    then show ?thesis using assms(2) 1 same
      by (intro unlisted) (auto simp: KillContainersByService_def listOwnContainers_def)
  next
    case (Inr ids)
    have ids: "set ids = {i. \<exists>c. dsContainers sdk d i = Some c \<and> own dm serviceID c}"
      using docker_laws_list(2) [OF assms(1) 1 Inr] by simp
    then have len: "\<forall>i\<in>set ids. 12 \<le> length i" using docker_laws_ids [OF assms(1)] by auto
    obtain fin d2 where 2: "removeContainers sdk ids d1 = (fin, d2)" by fastforce
    have "fin" by (rule removeContainers_outcome(1) [OF assms(1) len 2])
    then show ?thesis using assms(2) 1 2 Inr same ids len
      by (intro listed [of d1 ids]) (auto simp: KillContainersByService_def listOwnContainers_def)
  qed
qed

lemma KillContainersByService_effect:
  assumes "docker_laws sdk" and "KillContainersByService sdk dm serviceID d = (err, d')"
  shows "err \<noteq> Some PanicSlice"
    and "err \<noteq> None \<Longrightarrow> dsContainers sdk d' = dsContainers sdk d"
    and "\<not> (\<exists>c. dsContainers sdk d i = Some c \<and> own dm serviceID c) \<Longrightarrow> dsContainers sdk d' i = dsContainers sdk d i"
    and "dsContainers sdk d' i = None \<or> (\<exists>c b. dsContainers sdk d i = Some c \<and>
      dsContainers sdk d' i = Some (c\<lparr>dcRunning := b\<rparr>))"
    and "removal_works sdk \<Longrightarrow> err = None \<Longrightarrow> dsContainers sdk d i = Some c \<Longrightarrow> own dm serviceID c \<Longrightarrow>
      dsContainers sdk d' i = None"
proof -
  from assms have "err \<noteq> Some PanicSlice \<and> (err \<noteq> None \<longrightarrow> dsContainers sdk d' = dsContainers sdk d) \<and>
      (\<not> (\<exists>c. dsContainers sdk d i = Some c \<and> own dm serviceID c) \<longrightarrow> dsContainers sdk d' i = dsContainers sdk d i) \<and>
      (dsContainers sdk d' i = None \<or> (\<exists>c b. dsContainers sdk d i = Some c \<and>
        dsContainers sdk d' i = Some (c\<lparr>dcRunning := b\<rparr>))) \<and>
      (removal_works sdk \<and> err = None \<and> dsContainers sdk d i = Some c \<and> own dm serviceID c \<longrightarrow>
        dsContainers sdk d' i = None)"
  proof (cases rule: KillContainersByService_cases)
    case (unlisted e)
    then show ?thesis by (cases "dsContainers sdk d i") auto
  next
    case (listed ids d1)
    note out = removeContainers_outcome [OF assms(1) listed(5,4)]
    have "i \<in> set ids \<longleftrightarrow> (\<exists>c. dsContainers sdk d i = Some c \<and> own dm serviceID c)"
      using listed(3) by blast
    then show ?thesis using out(2-4) [of i] listed(1,2) by auto
  qed
  then show "err \<noteq> Some PanicSlice"
    and "err \<noteq> None \<Longrightarrow> dsContainers sdk d' = dsContainers sdk d"
    and "\<not> (\<exists>c. dsContainers sdk d i = Some c \<and> own dm serviceID c) \<Longrightarrow> dsContainers sdk d' i = dsContainers sdk d i"
    and "dsContainers sdk d' i = None \<or> (\<exists>c b. dsContainers sdk d i = Some c \<and>
      dsContainers sdk d' i = Some (c\<lparr>dcRunning := b\<rparr>))"
    and "removal_works sdk \<Longrightarrow> err = None \<Longrightarrow> dsContainers sdk d i = Some c \<Longrightarrow> own dm serviceID c \<Longrightarrow>
      dsContainers sdk d' i = None"
    by blast+
qed

text \<open>A daemon that refuses leaves everything as it is, and the kill does not tell.\<close>

lemma removeContainers_refused:
  assumes "docker_laws sdk" and "\<And>i d. fst (dsStop sdk i d) \<noteq> None" and "\<And>i d. fst (dsRemove sdk False i d) \<noteq> None"
    and "removeContainers sdk ids d = (fin, d')"
  shows "dsContainers sdk d' = dsContainers sdk d"
  using assms(4)
proof (induction ids arbitrary: d)
  case (Cons k ids)
  obtain e1 d1 where 1: "dsStop sdk k d = (e1, d1)" by fastforce
  obtain e2 d2 where 2: "dsRemove sdk False k d1 = (e2, d2)" by fastforce
  have "e1 \<noteq> None" "e2 \<noteq> None" using assms(2) [of k d] assms(3) [of k d1] 1 2 by simp_all
  then have "dsContainers sdk d2 = dsContainers sdk d"
    using docker_laws_stop [OF assms(1) 1] docker_laws_remove [OF assms(1) 2] by auto
  then show ?case using Cons 1 2 by (auto split: if_splits)
qed simp

lemma KillContainersByService_refused:
  assumes "docker_laws sdk" and "\<And>i d. fst (dsStop sdk i d) \<noteq> None" and "\<And>i d. fst (dsRemove sdk False i d) \<noteq> None"
    and "KillContainersByService sdk dm serviceID d = (err, d')"
  shows "dsContainers sdk d' = dsContainers sdk d"
  using assms(1,4)
proof (cases rule: KillContainersByService_cases)
  case (listed ids d1)
  then show ?thesis using removeContainers_refused [OF assms(1-3) listed(4)] by simp
qed

lemma KillContainersByService_err:
  assumes "docker_laws sdk"
  shows "fst (KillContainersByService sdk dm serviceID d) = None \<longleftrightarrow>
    (\<exists>ids. fst (dsList sdk True (ownFilter dm serviceID) d) = Inr ids)"
proof (cases "KillContainersByService sdk dm serviceID d")
  case (Pair err d')
  from assms Pair show ?thesis
  proof (cases rule: KillContainersByService_cases)
    case (unlisted e)
    then show ?thesis using Pair
      by (auto simp: KillContainersByService_def listOwnContainers_def split: prod.splits sum.splits if_splits)
  next
    case (listed ids d1)
    then show ?thesis using Pair
      by (auto simp: KillContainersByService_def listOwnContainers_def split: prod.splits sum.splits)
  qed
qed

section \<open>Limits\<close>

lemma rnd_error_small: "\<bar>x\<bar> < 2 ^ 53 \<Longrightarrow> \<bar>rnd x - x\<bar> \<le> 1/2"
proof (cases "x = 0")
  case False
  assume x: "\<bar>x\<bar> < 2 ^ 53"
  have "ilog2 \<bar>x\<bar> < 53"
  proof (rule ccontr)
    assume "\<not> ilog2 \<bar>x\<bar> < 53"
    then have "(2::rat) powi 53 \<le> 2 powi ilog2 \<bar>x\<bar>" by (intro pow2_mono) simp
    then show False using x ilog2_bounds(1) [of "\<bar>x\<bar>"] False by simp
  qed
  then have "ulp_exp x \<le> 0" by (simp add: ulp_exp_def)
  then have "(2::rat) powi ulp_exp x \<le> 2 powi 0" by (rule pow2_mono)
  then show ?thesis using rnd_error [of x] by simp
qed simp

lemma nanocores:
  assumes "0 \<le> y" and "y \<le> 9000000000000000"
  shows "\<exists>n\<ge>0. f64_to_int64 (f64_of_rat y) = Some n \<and> \<bar>of_int n - y\<bar> \<le> 3/2 \<and> (\<forall>k. y = of_int k \<longrightarrow> n = k)"
proof -
  have near: "\<bar>rnd y - y\<bar> \<le> 1/2" by (rule rnd_error_small) (use assms in simp)
  have r: "0 \<le> rnd y" "rnd y \<le> 9000000000000001" using rnd_nonneg [OF assms(1)] near assms(2) by linarith+
  have fin: "f64_of_rat y = Fin (rnd y)" using r by (simp add: f64_of_rat_def Let_def)
  have fl: "0 \<le> \<lfloor>rnd y\<rfloor>" "\<lfloor>rnd y\<rfloor> \<le> 9000000000000001" using r by (simp_all add: floor_le_iff)
  have "y = of_int k \<Longrightarrow> \<lfloor>rnd y\<rfloor> = k" for k
    using assms rnd_of_int [of k] by simp
  moreover have "\<bar>of_int \<lfloor>rnd y\<rfloor> - y\<bar> \<le> 3/2" using near by linarith
  ultimately show ?thesis using r fl by (intro exI [of _ "\<lfloor>rnd y\<rfloor>"]) (simp add: fin f64_to_int64_def)
qed

lemma megabytes: "sint (w * 1024 * 1024 :: i64) = signed_take_bit 63 (sint w * 1024 * 1024)"
proof -
  have "w * 1024 * 1024 = word_of_int (sint w * 1024 * 1024)" by simp
  then show ?thesis by (simp only: sint_sbintrunc') simp
qed

section \<open>Properties\<close>

text \<open>
  A start is all or nothing. When it fails, at whatever stage, the daemon has the containers it
  had before, since a created container that does not start is removed again. When it succeeds there
  is exactly one more container: it runs, and has the name, image, environment, ports, limits and
  labels made from the command. Starting never panics, and the number in the name is used up exactly
  when a container was asked for.
\<close>

theorem StartContainer_all_or_nothing:
  assumes "docker_laws sdk" and "forced_removal_works sdk"
    and "StartContainer sdk ks cmd dm d = (res, dm', d')"
  shows "case res of
      Inl e \<Rightarrow> e \<noteq> PanicSlice \<and> dsContainers sdk d' = dsContainers sdk d \<and>
        dm' = (if \<exists>err. e = PullImage (cmImage cmd) err then dm else dm\<lparr>dmSeq := dmSeq dm + 1\<rparr>)
    | Inr i \<Rightarrow> dsContainers sdk d i = None \<and> dm' = dm\<lparr>dmSeq := dmSeq dm + 1\<rparr> \<and>
        dsContainers sdk d' = (dsContainers sdk d)
          (i \<mapsto> \<lparr>dcName = container_name (dmNodeID dm) (cmServiceID cmd) (dmSeq dm + 1),
                 dcConfig = container_config_for ks cmd dm, dcHost = host_config_for cmd, dcRunning = True\<rparr>)"
proof (cases res)
  case (Inl e)
  then show ?thesis using assms(1,3) StartContainer_failed [OF assms(1,2), of ks cmd dm d e dm' d']
    by (auto elim!: StartContainer_cases)
next
  case (Inr i)
  from assms(1,3) show ?thesis unfolding Inr
    by (cases rule: StartContainer_cases) (simp_all add: started_container_def)
qed

theorem StartContainer_all_or_nothing_witness:
  "let cmd = zero_command\<lparr>cmServiceID := ''v''\<rparr>
   in dsContainers small_docker (snd (snd (StartContainer small_docker [] cmd \<lparr>dmNodeID = ''n'', dmSeq = 0\<rparr> []))) =
     [small_id 0 \<mapsto> \<lparr>dcName = ''dcp-n-v-1'', dcConfig = container_config_for [] cmd \<lparr>dmNodeID = ''n'', dmSeq = 0\<rparr>,
        dcHost = host_config_for cmd, dcRunning = True\<rparr>]"
proof -
  define cmd where "cmd = zero_command\<lparr>cmServiceID := ''v''\<rparr>"
  let ?dm = "\<lparr>dmNodeID = ''n'', dmSeq = 0\<rparr>"
  have "fst (StartContainer small_docker [] cmd ?dm []) = Inr (small_id 0)"
    by (simp add: StartContainer_def ensure_image_def small_docker_def Let_def)
  then obtain dm' d' where r: "StartContainer small_docker [] cmd ?dm [] = (Inr (small_id 0), dm', d')"
    by (metis prod.exhaust_sel)
  have empty: "small_lookup [] = Map.empty" by (auto simp: small_lookup_def)
  have name: "container_name ''n'' ''v'' 1 = ''dcp-n-v-1''"
    by code_simp
  show ?thesis
    using StartContainer_all_or_nothing [OF small_docker_laws small_docker_removal(2) r] r name
    unfolding Let_def cmd_def [symmetric] by (simp add: empty) (simp add: cmd_def)
qed

text \<open>
  C38: a kill concerns the containers of this worker for the service, told by their labels, and no
  other container of the daemon, whoever owns it; with no service it concerns all of this worker's.
  It fails exactly when they cannot be listed, and then nothing is done. When the daemon stops and
  removes what it is asked to, none of the concerned containers is left; a daemon that refuses keeps
  them all, and the kill reports success all the same.
\<close>

theorem KillContainersByService_own_only:
  assumes "docker_laws sdk" and "KillContainersByService sdk dm serviceID d = (err, d')"
  shows "(err = None \<longleftrightarrow> (\<exists>ids. fst (dsList sdk True (ownFilter dm serviceID) d) = Inr ids)) \<and>
    (err \<noteq> None \<longrightarrow> dsContainers sdk d' = dsContainers sdk d) \<and>
    dom (dsContainers sdk d') \<subseteq> dom (dsContainers sdk d) \<and>
    (\<forall>i c. dsContainers sdk d i = Some c \<longrightarrow>
      (if ccLabels (dcConfig c) ''dcp.node'' = Some (dmNodeID dm) \<and>
          (serviceID = '''' \<or> ccLabels (dcConfig c) ''dcp.service'' = Some serviceID)
       then removal_works sdk \<longrightarrow> err = None \<longrightarrow> dsContainers sdk d' i = None
       else dsContainers sdk d' i = Some c)) \<and>
    ((\<forall>i d. fst (dsStop sdk i d) \<noteq> None \<and> fst (dsRemove sdk False i d) \<noteq> None) \<longrightarrow>
      dsContainers sdk d' = dsContainers sdk d)"
proof -
  note eff = KillContainersByService_effect [OF assms]
  have "err = None \<longleftrightarrow> (\<exists>ids. fst (dsList sdk True (ownFilter dm serviceID) d) = Inr ids)"
    using KillContainersByService_err [OF assms(1), of dm serviceID d] assms(2) by simp
  moreover have "dom (dsContainers sdk d') \<subseteq> dom (dsContainers sdk d)"
  proof
    fix i
    assume "i \<in> dom (dsContainers sdk d')"
    then show "i \<in> dom (dsContainers sdk d)" using eff(4) [of i] by auto
  qed
  moreover have "\<forall>i c. dsContainers sdk d i = Some c \<longrightarrow>
      (if own dm serviceID c then removal_works sdk \<longrightarrow> err = None \<longrightarrow> dsContainers sdk d' i = None
       else dsContainers sdk d' i = Some c)"
  proof (intro allI impI)
    fix i c
    assume c: "dsContainers sdk d i = Some c"
    show "if own dm serviceID c then removal_works sdk \<longrightarrow> err = None \<longrightarrow> dsContainers sdk d' i = None
       else dsContainers sdk d' i = Some c"
      using eff(3) [of i] eff(5) [OF _ _ c] c by auto
  qed
  moreover have "(\<forall>i d. fst (dsStop sdk i d) \<noteq> None \<and> fst (dsRemove sdk False i d) \<noteq> None) \<longrightarrow>
      dsContainers sdk d' = dsContainers sdk d"
    using KillContainersByService_refused [OF assms(1) _ _ assms(2)] by blast
  ultimately show ?thesis using eff(2) unfolding own_def by blast
qed

theorem KillContainersByService_own_only_witness:
  "let c = started_container [] (zero_command\<lparr>cmServiceID := ''v''\<rparr>) \<lparr>dmNodeID = ''n'', dmSeq = 0\<rparr>;
       o' = started_container [] (zero_command\<lparr>cmServiceID := ''v''\<rparr>) \<lparr>dmNodeID = ''m'', dmSeq = 0\<rparr>;
       d' = snd (KillContainersByService small_docker \<lparr>dmNodeID = ''n'', dmSeq = 5\<rparr> ''v'' [Some c, Some o'])
   in small_lookup d' (small_id 0) = None \<and> small_lookup d' (small_id 1) = Some o'"
proof -
  let ?dm = "\<lparr>dmNodeID = ''n'', dmSeq = 5\<rparr>"
  define c where "c = started_container [] (zero_command\<lparr>cmServiceID := ''v''\<rparr>) \<lparr>dmNodeID = ''n'', dmSeq = 0\<rparr>"
  define o' where "o' = started_container [] (zero_command\<lparr>cmServiceID := ''v''\<rparr>) \<lparr>dmNodeID = ''m'', dmSeq = 0\<rparr>"
  obtain err d' where k: "KillContainersByService small_docker ?dm ''v'' [Some c, Some o'] = (err, d')"
    by fastforce
  have labels: "ccLabels (dcConfig c) = [''dcp.node'' \<mapsto> ''n'', ''dcp.service'' \<mapsto> ''v'']"
      "ccLabels (dcConfig o') = [''dcp.node'' \<mapsto> ''m'', ''dcp.service'' \<mapsto> ''v'']"
    by (simp_all add: c_def o'_def started_container_def container_config_for_def)
  note own_only = KillContainersByService_own_only [OF small_docker_laws k]
  have "err = None" using own_only by (simp add: small_docker_def)
  moreover note own_only [THEN conjunct2, THEN conjunct2, THEN conjunct2, THEN conjunct1, rule_format]
  from this [of "small_id 0" c] this [of "small_id 1" o']
  have "err = None \<longrightarrow> small_lookup d' (small_id 0) = None" "small_lookup d' (small_id 1) = Some o'"
    using labels by (simp_all del: small_lookup_id add: small_lookup_id [of "[Some c, Some o']"])
  ultimately have "small_lookup d' (small_id 0) = None" "small_lookup d' (small_id 1) = Some o'" by blast+
  then show ?thesis unfolding Let_def c_def [symmetric] o'_def [symmetric] k snd_conv by blast
qed

text \<open>
  The limits of a container are those of the command, in the units of Docker. A CPU limit of up
  to nine million cores becomes nanocores with an error of at most one and a half, and none at all
  when it is a whole number of nanocores. A RAM limit from 0 to below \<open>2^43\<close> MB becomes bytes exactly;
  beyond, the product wraps around, and \<open>2^44\<close> MB is the limit 0, which is no limit.
\<close>

theorem limits_in_docker_units:
  "(\<forall>x. cmCPULimit cmd = Fin x \<longrightarrow> 0 \<le> x \<longrightarrow> x \<le> 9000000 \<longrightarrow>
      (\<exists>n\<ge>0. hcNanoCPUs (host_config_for cmd) = Some n \<and> \<bar>of_int n - x * 10 ^ 9\<bar> \<le> 3/2 \<and>
        (\<forall>k. x * 10 ^ 9 = of_int k \<longrightarrow> n = k))) \<and>
   (0 \<le> sint (cmRAMLimit cmd) \<longrightarrow> sint (cmRAMLimit cmd) < 2 ^ 43 \<longrightarrow>
      sint (hcMemory (host_config_for cmd)) = sint (cmRAMLimit cmd) * 1024 * 1024) \<and>
   (sint (cmRAMLimit cmd) = 2 ^ 44 \<longrightarrow> hcMemory (host_config_for cmd) = 0)"
proof (intro conjI allI impI)
  fix x
  assume cpu: "cmCPULimit cmd = Fin x" and x: "0 \<le> x" "x \<le> 9000000"
  let ?y = "x * 1000000000"
  have y: "0 \<le> ?y" "?y \<le> 9000000000000000" using x by simp_all
  from nanocores [OF y] obtain n where "0 \<le> n" "f64_to_int64 (f64_of_rat ?y) = Some n"
      "\<bar>of_int n - ?y\<bar> \<le> 3/2" "\<And>k. ?y = of_int k \<Longrightarrow> n = k" by blast
  then show "\<exists>n\<ge>0. hcNanoCPUs (host_config_for cmd) = Some n \<and> \<bar>of_int n - x * 10 ^ 9\<bar> \<le> 3/2 \<and>
        (\<forall>k. x * 10 ^ 9 = of_int k \<longrightarrow> n = k)"
    by (intro exI [of _ n]) (simp add: host_config_for_def cpu)
next
  assume "0 \<le> sint (cmRAMLimit cmd)" and "sint (cmRAMLimit cmd) < 2 ^ 43"
  then show "sint (hcMemory (host_config_for cmd)) = sint (cmRAMLimit cmd) * 1024 * 1024"
    unfolding host_config_for_def host_config.simps megabytes by (simp add: signed_take_bit_int_eq_self)
next
  assume "sint (cmRAMLimit cmd) = 2 ^ 44"
  then have "sint (hcMemory (host_config_for cmd)) = signed_take_bit 63 (2 ^ 64)"
    unfolding host_config_for_def host_config.simps megabytes by simp
  then have "sint (hcMemory (host_config_for cmd)) = sint (0 :: i64)" by (simp add: signed_take_bit_def)
  then show "hcMemory (host_config_for cmd) = 0" by (simp only: signed_word_eqI)
qed

theorem limits_in_docker_units_witness:
  "hcNanoCPUs (host_config_for (zero_command\<lparr>cmCPULimit := Fin (1/2), cmRAMLimit := 512\<rparr>)) = Some 500000000 \<and>
   sint (hcMemory (host_config_for (zero_command\<lparr>cmCPULimit := Fin (1/2), cmRAMLimit := 512\<rparr>))) = 536870912"
proof -
  let ?cmd = "zero_command\<lparr>cmCPULimit := Fin (1/2), cmRAMLimit := 512\<rparr>"
  note limits = limits_in_docker_units [of ?cmd]
  have "(1/2 :: rat) * 10 ^ 9 = of_int 500000000" by simp
  moreover from limits [THEN conjunct1, rule_format, of "1/2"]
  obtain n where "hcNanoCPUs (host_config_for ?cmd) = Some n" "\<And>k. (1/2 :: rat) * 10 ^ 9 = of_int k \<Longrightarrow> n = k"
    by auto
  ultimately have "hcNanoCPUs (host_config_for ?cmd) = Some 500000000" by blast
  moreover have "sint (cmRAMLimit ?cmd) = 512" by simp
  ultimately show ?thesis using limits [THEN conjunct2, THEN conjunct1] by simp
qed

end
