(* ===== verification/GoStrings.thy ===== *)
theory GoStrings
  imports Prelude Float64
begin

text \<open>
  What the program uses of Go's packages \<open>strings\<close> and \<open>strconv\<close>. The space characters are the ASCII
  ones, for the texts that are split at spaces are ASCII reports of the operating system, and a
  floating point number is in decimal notation or one of the special values.
\<close>

section \<open>Cutting\<close>

text \<open>\<open>strings.Split(s, sep)\<close> and \<open>strings.SplitN(s, sep, 2)\<close> for a separator of one byte.\<close>

fun strings_Split :: "char \<Rightarrow> go_string \<Rightarrow> go_string list" where
  "strings_Split sep [] = [[]]"
| "strings_Split sep (x # xs) =
     (if x = sep then [] # strings_Split sep xs
      else (x # hd (strings_Split sep xs)) # tl (strings_Split sep xs))"

definition strings_SplitN2 :: "char \<Rightarrow> go_string \<Rightarrow> go_string list" where
  "strings_SplitN2 sep s =
     (if sep \<in> set s then [takeWhile (\<lambda>c. c \<noteq> sep) s, tl (dropWhile (\<lambda>c. c \<noteq> sep) s)] else [s])"

definition HasPrefix :: "go_string \<Rightarrow> go_string \<Rightarrow> bool" where
  "HasPrefix s p \<longleftrightarrow> take (length p) s = p"

definition TrimPrefix :: "go_string \<Rightarrow> go_string \<Rightarrow> go_string" where
  "TrimPrefix s p = (if take (length p) s = p then drop (length p) s else s)"

definition TrimSuffix :: "go_string \<Rightarrow> go_string \<Rightarrow> go_string" where
  "TrimSuffix s p = rev (TrimPrefix (rev s) (rev p))"

fun Contains :: "go_string \<Rightarrow> go_string \<Rightarrow> bool" where
  "Contains [] p = (p = [])"
| "Contains (c # s) p = (HasPrefix (c # s) p \<or> Contains s p)"

definition trim_chars :: "(char \<Rightarrow> bool) \<Rightarrow> go_string \<Rightarrow> go_string" where
  "trim_chars P s = rev (dropWhile P (rev (dropWhile P s)))"

definition is_space :: "char \<Rightarrow> bool" where
  "is_space c \<longleftrightarrow> of_char c \<in> {9 :: nat, 10, 11, 12, 13, 32}"

definition TrimSpace :: "go_string \<Rightarrow> go_string" where
  "TrimSpace = trim_chars is_space"

text \<open>\<open>strings.Trim\<close>: the second text is a set of characters.\<close>

definition strings_Trim :: "go_string \<Rightarrow> go_string \<Rightarrow> go_string" where
  "strings_Trim s cutset = trim_chars (\<lambda>c. c \<in> set cutset) s"

function Fields :: "go_string \<Rightarrow> go_string list" where
  "Fields s =
     (let t = dropWhile is_space s in
      if t = [] then []
      else takeWhile (\<lambda>c. \<not> is_space c) t # Fields (dropWhile (\<lambda>c. \<not> is_space c) t))"
  by auto
termination
proof (relation "measure length")
  fix s t
  assume t: "t = dropWhile is_space s" and "t \<noteq> []"
  then obtain c u where u: "t = c # u" by (metis list.exhaust)
  then have "\<not> is_space c" using hd_dropWhile [of is_space s] t by (metis list.distinct(1) list.sel(1))
  note u = u this
  have "length (dropWhile (\<lambda>c. \<not> is_space c) t) < length t"
    using u length_dropWhile_le [of "\<lambda>c. \<not> is_space c" u] by simp
  also have "length t \<le> length s" using length_dropWhile_le [of is_space s] t by simp
  finally show "(dropWhile (\<lambda>c. \<not> is_space c) t, s) \<in> measure length" by simp
qed simp

declare Fields.simps [simp del]

section \<open>Numbers\<close>

definition is_digit :: "char \<Rightarrow> bool" where
  "is_digit c \<longleftrightarrow> c \<in> digit_chars"

text \<open>A sign that may be missing: whether it is a minus, and the rest.\<close>

definition strip_sign :: "go_string \<Rightarrow> bool \<times> go_string" where
  "strip_sign s =
     (case s of
        [] \<Rightarrow> (False, [])
      | c # t \<Rightarrow> if c = CHR ''-'' then (True, t) else if c = CHR ''+'' then (False, t) else (False, s))"

text \<open>
  \<open>strconv.ParseInt(s, 10, 64)\<close> where the error is ignored: 0 for a text that is no number, the
  nearest value for one out of range.
\<close>

definition ParseInt64 :: "go_string \<Rightarrow> i64" where
  "ParseInt64 s =
     (let (neg, u) = strip_sign s; n = int (dec_value u) in
      if u = [] \<or> \<not> list_all is_digit u then 0
      else if neg then word_of_int (- min n (2 ^ 63)) else word_of_int (min n (2 ^ 63 - 1)))"

definition lower :: "char \<Rightarrow> char" where
  "lower c = (if c \<in> set ''ABCDEFGHIJKLMNOPQRSTUVWXYZ'' then char_of (of_char c + 32 :: nat) else c)"

definition special_float :: "go_string \<Rightarrow> f64 option" where
  "special_float s =
     (let (neg, u) = strip_sign s; l = map lower u in
      if l = ''inf'' \<or> l = ''infinity'' then Some (if neg then NegInf else PosInf)
      else if map lower s = ''nan'' then Some NaN
      else None)"

text \<open>Digits with a point that may be missing, and an exponent that may be missing.\<close>

definition parse_exponent :: "go_string \<Rightarrow> int option" where
  "parse_exponent s =
     (case s of
        [] \<Rightarrow> Some 0
      | c # t \<Rightarrow>
          if lower c = CHR ''e'' then
            (let (neg, u) = strip_sign t in
             if u = [] \<or> \<not> list_all is_digit u then None
             else Some (if neg then - int (dec_value u) else int (dec_value u)))
          else None)"

definition parse_decimal :: "go_string \<Rightarrow> rat option" where
  "parse_decimal s =
     (let (neg, u) = strip_sign s;
          whole = takeWhile is_digit u;
          u1 = dropWhile is_digit u;
          point = u1 \<noteq> [] \<and> hd u1 = CHR ''.'';
          frac = (if point then takeWhile is_digit (tl u1) else []);
          u2 = (if point then dropWhile is_digit (tl u1) else u1)
      in if whole = [] \<and> frac = [] then None
         else map_option (\<lambda>e. (if neg then - 1 else 1) * of_nat (dec_value (whole @ frac)) * 10 powi (e - int (length frac)))
           (parse_exponent u2))"

text \<open>\<open>strconv.ParseFloat(s, 64)\<close> where the error is ignored: 0 for a text that is no number.\<close>

definition ParseFloat64 :: "go_string \<Rightarrow> f64" where
  "ParseFloat64 s =
     (case special_float s of
        Some x \<Rightarrow> x
      | None \<Rightarrow> (case parse_decimal s of None \<Rightarrow> Fin 0 | Some x \<Rightarrow> f64_of_rat x))"

section \<open>Facts\<close>

lemma Split_nonempty [simp]: "strings_Split c s \<noteq> []"
  by (cases s) auto

lemma Split_no_sep: "c \<notin> set x \<Longrightarrow> strings_Split c x = [x]"
  by (induction x) auto

lemma Split_append: "c \<notin> set x \<Longrightarrow> strings_Split c (x @ c # y) = x # strings_Split c y"
  by (induction x) auto

lemma HasPrefix_append [simp]: "HasPrefix (p @ s) p"
  by (simp add: HasPrefix_def)

lemma HasPrefix_iff: "HasPrefix s p \<longleftrightarrow> (\<exists>t. s = p @ t)"
  by (metis HasPrefix_def append_eq_conv_conj append_take_drop_id)

lemma Contains_iff: "Contains s p \<longleftrightarrow> (\<exists>a b. s = a @ p @ b)"
proof (induction s)
  case (Cons c s)
  have "(\<exists>a b. c # s = a @ p @ b) \<longleftrightarrow> (\<exists>b. c # s = p @ b) \<or> (\<exists>a b. s = a @ p @ b)"
    by (metis append_Cons append_Nil list.exhaust list.inject)
  then show ?case using Cons by (simp add: HasPrefix_iff)
qed auto

lemma Fields_word:
  assumes "list_all is_space a" and "list_all (\<lambda>c. \<not> is_space c) w" and "w \<noteq> []"
    and "b = [] \<or> is_space (hd b)"
  shows "Fields (a @ w @ b) = w # Fields b"
proof -
  have "dropWhile is_space (a @ w @ b) = w @ b"
    using assms(1-3) by (cases w) (auto simp: list_all_iff dropWhile_append)
  moreover have "takeWhile (\<lambda>c. \<not> is_space c) (w @ b) = w" "dropWhile (\<lambda>c. \<not> is_space c) (w @ b) = b"
    using assms(2,4) by (cases b; auto simp: list_all_iff takeWhile_append dropWhile_append)+
  ultimately show ?thesis using assms(3) by (simp add: Fields.simps [of "a @ w @ b"] Let_def)
qed

lemma Fields_Nil [simp]: "Fields [] = []"
  by (simp add: Fields.simps)

lemma is_digit_simps: "is_digit c \<Longrightarrow> \<not> is_space c \<and> c \<noteq> CHR ''-'' \<and> c \<noteq> CHR ''+'' \<and> c \<noteq> CHR ''.''"
  by (auto simp: is_digit_def digit_chars_def is_space_def)

lemma digits_all: "list_all is_digit (digits n)"
  using digits_subset by (auto simp: list_all_iff is_digit_def)

lemma strip_sign_digits: "list_all is_digit u \<Longrightarrow> strip_sign u = (False, u)"
  by (cases u) (auto simp: strip_sign_def dest!: is_digit_simps)

lemma ParseInt64_digits: "int n < 2 ^ 63 \<Longrightarrow> ParseInt64 (digits n) = word_of_int (int n)"
  using digits_all [of n] by (simp add: ParseInt64_def strip_sign_digits)

lemma digits_word: "list_all (\<lambda>c. \<not> is_space c) (digits n)"
  using digits_all [of n] is_digit_simps by (auto simp: list_all_iff)

text \<open>What \<open>ParseFloat\<close> makes of plain decimals: no special value, and no sign.\<close>

lemma ParseFloat64_decimal:
  assumes "list_all is_digit w" and "list_all is_digit f" and "w \<noteq> []"
  shows "ParseFloat64 (w @ ''.'' @ f) = f64_of_rat (of_nat (dec_value (w @ f)) / 10 ^ length f)"
proof -
  obtain c u where w: "w = c # u" using assms(3) by (cases w) auto
  have c: "is_digit c" using assms(1) w by simp
  have sign: "strip_sign (w @ ''.'' @ f) = (False, w @ ''.'' @ f)"
    using is_digit_simps [OF c] by (simp add: w strip_sign_def)
  have "lower c = c" using c by (auto simp: lower_def is_digit_def digit_chars_def)
  then have special: "special_float (w @ ''.'' @ f) = None"
    using c sign by (auto simp: special_float_def w is_digit_def digit_chars_def)
  have parts: "takeWhile is_digit (w @ ''.'' @ f) = w" "dropWhile is_digit (w @ ''.'' @ f) = ''.'' @ f"
    using assms(1) is_digit_simps by (auto simp: list_all_iff takeWhile_append dropWhile_append)
  have fraction: "takeWhile is_digit f = f" "dropWhile is_digit f = []"
    using assms(2) by (auto simp: list_all_iff)
  have "parse_decimal (w @ ''.'' @ f) = Some (of_nat (dec_value (w @ f)) / 10 ^ length f)"
    unfolding parse_decimal_def sign Let_def prod.case parts
    using assms(3) by (simp add: fraction parse_exponent_def power_int_minus divide_inverse)
  then show ?thesis unfolding ParseFloat64_def special by simp
qed

end
