(* ===== verification/Monitor.thy ===== *)
theory Monitor
  imports Domain GoStrings "HOL-Library.Signed_Division"
begin

text \<open>
  The metrics a worker reports, \<open>internal/agent/monitor.go\<close>. What the operating system gives is an
  argument, \<open>os_reports\<close>: the contents of the files and the outputs of the commands that are read,
  \<open>None\<close> where reading fails.
\<close>

section \<open>The operating system\<close>

record os_reports =
  osNumCPU :: nat
  osAmd64 :: bool
  osLoadavg :: "go_string option"
  osSysctlLoadavg :: "go_string option"
  osSysctlMemsize :: "go_string option"
  osVmStat :: "go_string option"
  osMeminfo :: "go_string option"

text \<open>Division of \<open>int64\<close> drops the fraction.\<close>

definition go_div :: "i64 \<Rightarrow> i64 \<Rightarrow> i64" where
  "go_div a b = word_of_int (sint a sdiv sint b)"

section \<open>Load\<close>

definition first_float :: "go_string list \<Rightarrow> f64 option" where
  "first_float fs = (case fs of [] \<Rightarrow> None | f # _ \<Rightarrow> Some (ParseFloat64 f))"

definition getLoadAvg :: "os_reports \<Rightarrow> f64" where
  "getLoadAvg os =
     (case Option.bind (osLoadavg os) (\<lambda>data. first_float (Fields data)) of
        Some val \<Rightarrow> val
      | None \<Rightarrow>
          (case Option.bind (osSysctlLoadavg os)
              (\<lambda>out. first_float (Fields (strings_Trim out (''{ }'' @ [CHR 0x0A])))) of
             Some val \<Rightarrow> val
           | None \<Rightarrow> f64_mul (f64_of_int (int (osNumCPU os))) (f64_of_rat (1/10))))"

section \<open>Memory\<close>

definition parseVmStatValue :: "go_string \<Rightarrow> i64" where
  "parseVmStatValue line =
     (let parts = strings_Split (CHR '':'') line in
      if length parts < 2 then 0
      else ParseInt64 (TrimSuffix (TrimSpace (parts ! 1)) ''.''))"

definition parseMemInfoKB :: "go_string \<Rightarrow> i64" where
  "parseMemInfoKB line =
     (let fs = Fields line in if length fs < 2 then 0 else ParseInt64 (fs ! 1))"

text \<open>One line of the output of \<open>vm_stat\<close>, and of \<open>/proc/meminfo\<close>.\<close>

definition vm_stat_line :: "go_string \<Rightarrow> i64 \<times> i64 \<Rightarrow> i64 \<times> i64" where
  "vm_stat_line line p =
     (let (pagesActive, pagesWired) = p;
          pagesActive' = (if Contains line ''Pages active'' then parseVmStatValue line else pagesActive);
          pagesWired' = (if Contains line ''Pages wired'' then parseVmStatValue line else pagesWired)
      in (pagesActive', pagesWired'))"

definition meminfo_line :: "go_string \<Rightarrow> i64 \<times> i64 \<Rightarrow> i64 \<times> i64" where
  "meminfo_line line p =
     (let (total, used) = p;
          total' = (if HasPrefix line ''MemTotal:'' then go_div (parseMemInfoKB line) 1024 else total);
          used' = (if HasPrefix line ''MemAvailable:''
                   then total' - go_div (parseMemInfoKB line) 1024 else used)
      in (total', used'))"

definition getSystemRAM :: "os_reports \<Rightarrow> i64 \<times> i64" where
  "getSystemRAM os =
     (let total0 = (case osSysctlMemsize os of None \<Rightarrow> 0
            | Some out \<Rightarrow> go_div (go_div (ParseInt64 (TrimSpace out)) 1024) 1024);
          used0 = (case osVmStat os of None \<Rightarrow> 0
            | Some out \<Rightarrow>
                (let (pagesActive, pagesWired) = fold vm_stat_line (strings_Split (CHR 0x0A) out) (0, 0);
                     pageSize = (if osAmd64 os then 4096 else 16384)
                 in go_div (go_div ((pagesActive + pagesWired) * pageSize) 1024) 1024));
          (total1, used1) =
            (if total0 = 0 then
               (case osMeminfo os of None \<Rightarrow> (total0, used0)
                | Some data \<Rightarrow> fold meminfo_line (strings_Split (CHR 0x0A) data) (total0, used0))
             else (total0, used0))
      in (if total1 = 0 then 1024 else total1, used1))"

definition GetMetrics :: "os_reports \<Rightarrow> f64 \<times> f64 \<times> i64 \<times> i64" where
  "GetMetrics os =
     (let totalCPU = f64_of_int (int (osNumCPU os));
          loadAvg = getLoadAvg os;
          usedCPU = (if totalCPU < loadAvg then totalCPU else loadAvg);
          (totalRAM, usedRAM) = getSystemRAM os
      in (totalCPU, usedCPU, totalRAM, usedRAM))"

section \<open>Reports of Linux\<close>

definition unlines :: "go_string list \<Rightarrow> go_string" where
  "unlines ls = concat (map (\<lambda>l. l @ [CHR 0x0A]) ls)"

definition meminfo_entry :: "go_string \<Rightarrow> go_string \<Rightarrow> nat \<Rightarrow> go_string" where
  "meminfo_entry key pad n = key @ pad @ digits n @ '' kB''"

definition other_line :: "go_string \<Rightarrow> bool" where
  "other_line l \<longleftrightarrow> CHR 0x0A \<notin> set l \<and> \<not> HasPrefix l ''MemTotal:'' \<and> \<not> HasPrefix l ''MemAvailable:''"

lemma Split_unlines:
  "\<forall>l\<in>set ls. CHR 0x0A \<notin> set l \<Longrightarrow> strings_Split (CHR 0x0A) (unlines ls) = ls @ [[]]"
  by (induction ls) (simp_all add: unlines_def Split_append)

lemma parse_entry:
  assumes "key \<noteq> []" and "list_all (\<lambda>c. \<not> is_space c) key" and "pad \<noteq> []" and "list_all is_space pad"
    and "int n < 2 ^ 63"
  shows "parseMemInfoKB (meminfo_entry key pad n) = word_of_int (int n)"
proof -
  have "hd (pad @ digits n @ '' kB'') = hd pad" "is_space (hd pad)" using assms(3,4) by (cases pad; simp)+
  then have "Fields ([] @ key @ pad @ digits n @ '' kB'') = key # Fields (pad @ digits n @ '' kB'')"
    using assms(1,2) by (intro Fields_word) simp_all
  also have "Fields (pad @ digits n @ '' kB'') = digits n # Fields '' kB''"
    using assms(4) digits_word by (intro Fields_word) (simp_all add: is_space_def)
  finally have "Fields (meminfo_entry key pad n) = key # digits n # Fields '' kB''"
    by (simp add: meminfo_entry_def)
  then show ?thesis using ParseInt64_digits [OF assms(5)] by (simp add: parseMemInfoKB_def)
qed

lemma sint_of_nat_small: "int n < 2 ^ 63 \<Longrightarrow> sint (word_of_int (int n) :: i64) = int n"
  by (simp only: sint_sbintrunc') (simp add: signed_take_bit_int_eq_self)

lemma go_div_1024: "int n < 2 ^ 63 \<Longrightarrow> go_div (word_of_int (int n)) 1024 = word_of_int (int (n div 1024))"
proof -
  assume n: "int n < 2 ^ 63"
  have "sint (1024 :: i64) = 1024" by simp
  moreover have "int n sdiv 1024 = int (n div 1024)" by (cases "n = 0") (simp_all add: signed_divide_int_def zdiv_int)
  ultimately show ?thesis unfolding go_div_def sint_of_nat_small [OF n] by simp
qed

lemma fold_meminfo_other: "\<forall>l\<in>set ls. other_line l \<Longrightarrow> fold meminfo_line ls p = p"
  by (induction ls arbitrary: p) (auto simp: other_line_def meminfo_line_def)

lemma meminfo_line_Nil: "meminfo_line [] p = p"
  by (cases p) (simp add: meminfo_line_def HasPrefix_def)

lemma entry_line:
  assumes "list_all is_space pad" and "CHR 0x0A \<notin> set pad" and "CHR 0x0A \<notin> set key"
  shows "CHR 0x0A \<notin> set (meminfo_entry key pad n)"
  using assms digits_word [of n] by (auto simp: meminfo_entry_def list_all_iff is_space_def)

section \<open>Bounds of the load\<close>

lemma f64_capped: "uc = (if Fin x < l then Fin x else l) \<Longrightarrow> uc = NaN \<or> uc \<le> Fin x"
  by (cases l) (auto simp: less_f64_def less_eq_f64_def)

lemma f64_of_rat_nonneg: "0 \<le> r \<Longrightarrow> Fin 0 \<le> f64_of_rat r"
  using rnd_nonneg [of r] by (auto simp: f64_of_rat_def Let_def less_eq_f64_def)

lemma total_cpu: "n \<le> 2 ^ 53 \<Longrightarrow> f64_of_int (int n) = Fin (of_nat n)"
proof -
  assume n: "n \<le> 2 ^ 53"
  have "rnd (of_int (int n)) = of_nat n" using n by (subst rnd_of_int) simp_all
  moreover have "(of_nat n :: rat) < 2 ^ 1024"
  proof -
    have "(of_nat n :: rat) \<le> of_nat (2 ^ 53)" using n by (simp only: of_nat_le_iff)
    also have "\<dots> < 2 ^ 1024" by simp
    finally show ?thesis .
  qed
  ultimately show ?thesis by (simp add: f64_of_int_def f64_of_rat_def Let_def)
qed

lemma f64_ok_ParseFloat64: "f64_ok (ParseFloat64 s)"
  by (auto simp: ParseFloat64_def special_float_def Let_def case_prod_beta split: option.split)

lemma f64_ok_mul: "f64_ok x \<Longrightarrow> f64_ok y \<Longrightarrow> f64_ok (f64_mul x y)"
  by (cases x; cases y) (simp_all add: f64_ok_neg)

lemma f64_ok_getLoadAvg: "f64_ok (getLoadAvg os)"
  unfolding getLoadAvg_def
  by (auto simp: first_float_def f64_ok_ParseFloat64 f64_of_int_def intro!: f64_ok_mul
      split: option.split Option.bind_splits list.splits)

lemma GetMetrics_floats:
  assumes "osNumCPU os \<le> 2 ^ 53" and "GetMetrics os = (tc, uc, tr, ur)"
  shows "tc = Fin (of_nat (osNumCPU os)) \<and> f64_ok tc \<and> f64_ok uc"
proof -
  have "f64_ok (f64_of_int (int (osNumCPU os)))" by (simp add: f64_of_int_def)
  then show ?thesis
    using assms(2) f64_ok_getLoadAvg [of os] unfolding total_cpu [OF assms(1), symmetric]
    by (auto simp: GetMetrics_def Let_def case_prod_beta)
qed

section \<open>Properties\<close>

text \<open>
  The metrics of a worker are bounded, whatever the system reports. The CPUs are those of the
  machine, the load is cut off at their number unless the report says NaN, and it is not negative
  when \<open>/proc/loadavg\<close> begins with a decimal number, as on Linux. The total RAM is never 0.
\<close>

theorem metrics_bounded:
  assumes "osNumCPU os \<le> 2 ^ 53"
  shows "\<exists>used totalRAM usedRAM. GetMetrics os = (Fin (of_nat (osNumCPU os)), used, totalRAM, usedRAM) \<and>
    (used = NaN \<or> used \<le> Fin (of_nat (osNumCPU os))) \<and> totalRAM \<noteq> 0 \<and>
    (\<forall>whole frac rest. osLoadavg os = Some (whole @ ''.'' @ frac @ '' '' @ rest) \<longrightarrow> whole \<noteq> [] \<longrightarrow>
      list_all is_digit whole \<longrightarrow> list_all is_digit frac \<longrightarrow> Fin 0 \<le> used)"
proof -
  let ?n = "of_nat (osNumCPU os) :: rat"
  note total = total_cpu [OF assms]
  obtain used totalRAM usedRAM where m: "GetMetrics os = (Fin ?n, used, totalRAM, usedRAM)"
      "used = (if Fin ?n < getLoadAvg os then Fin ?n else getLoadAvg os)"
      "getSystemRAM os = (totalRAM, usedRAM)"
    by (cases "getSystemRAM os") (simp add: GetMetrics_def total Let_def)
  have "totalRAM \<noteq> 0" using m(3) by (auto simp: getSystemRAM_def Let_def case_prod_beta split: if_splits)
  moreover have "Fin 0 \<le> used"
    if os: "osLoadavg os = Some (whole @ ''.'' @ frac @ '' '' @ rest)" "whole \<noteq> []"
      and d: "list_all is_digit whole" "list_all is_digit frac" for whole frac rest
  proof -
    have "list_all (\<lambda>c. \<not> is_space c) (whole @ ''.'' @ frac)"
      using d is_digit_simps by (auto simp: list_all_iff is_space_def)
    then have "Fields ([] @ (whole @ ''.'' @ frac) @ ('' '' @ rest)) = (whole @ ''.'' @ frac) # Fields ('' '' @ rest)"
      by (intro Fields_word) (simp_all add: is_space_def)
    then have "Fields (whole @ ''.'' @ frac @ '' '' @ rest) = (whole @ ''.'' @ frac) # Fields ('' '' @ rest)" by simp
    then have "getLoadAvg os = f64_of_rat (of_nat (dec_value (whole @ frac)) / 10 ^ length frac)"
      using ParseFloat64_decimal [OF d os(2)] by (simp add: getLoadAvg_def os(1) first_float_def)
    then have "Fin 0 \<le> getLoadAvg os" by (simp add: f64_of_rat_nonneg)
    then show ?thesis using m(2) by simp
  qed
  ultimately show ?thesis using m(1) f64_capped [OF m(2)] by blast
qed

text \<open>A machine with four CPUs, as Linux reports it.\<close>

definition fixture_os :: os_reports where
  "fixture_os = \<lparr>osNumCPU = 4, osAmd64 = True, osLoadavg = Some ''9.25 0.5 0.1 1/2 3'',
     osSysctlLoadavg = None, osSysctlMemsize = None, osVmStat = None,
     osMeminfo = Some (unlines [meminfo_entry ''MemTotal:'' ''   '' 4096, ''MemFree: 10 kB'',
       meminfo_entry ''MemAvailable:'' '' '' 2048])\<rparr>"

theorem metrics_bounded_witness:
  "\<exists>used totalRAM usedRAM. GetMetrics fixture_os = (Fin 4, used, totalRAM, usedRAM) \<and>
     Fin 0 \<le> used \<and> (used = NaN \<or> used \<le> Fin 4)"
proof -
  have "osNumCPU fixture_os \<le> 2 ^ 53" by (simp add: fixture_os_def)
  from metrics_bounded [OF this] obtain used totalRAM usedRAM
    where m: "GetMetrics fixture_os = (Fin (of_nat (osNumCPU fixture_os)), used, totalRAM, usedRAM)"
      "used = NaN \<or> used \<le> Fin (of_nat (osNumCPU fixture_os))"
      "\<And>whole frac rest. osLoadavg fixture_os = Some (whole @ ''.'' @ frac @ '' '' @ rest) \<Longrightarrow> whole \<noteq> [] \<Longrightarrow>
        list_all is_digit whole \<Longrightarrow> list_all is_digit frac \<Longrightarrow> Fin 0 \<le> used"
    by blast
  have "Fin 0 \<le> used"
    by (rule m(3) [of "''9''" "''25''" "''0.5 0.1 1/2 3''"]) (simp_all add: fixture_os_def is_digit_def digit_chars_def)
  then show ?thesis using m(1,2) by (auto simp: fixture_os_def)
qed

text \<open>
  On Linux the memory of a worker is read off \<open>/proc/meminfo\<close>, wherever in the file and with
  whatever padding the two entries stand, the total first: the total is the one of the kernel and the
  used memory is what is not available, both in whole MB, and the used memory lies between 0 and the
  total.
\<close>

theorem linux_memory:
  assumes "osSysctlMemsize os = None" and "osVmStat os = None"
    and "osMeminfo os = Some (unlines (pre @ [meminfo_entry ''MemTotal:'' pad1 kb1] @ mid @
      [meminfo_entry ''MemAvailable:'' pad2 kb2] @ post))"
    and "\<forall>l\<in>set (pre @ mid @ post). other_line l"
    and "pad1 \<noteq> []" "pad2 \<noteq> []" "\<forall>c\<in>set (pad1 @ pad2). c = CHR '' ''"
    and "1024 \<le> kb1" "kb2 \<le> kb1" "int kb1 < 2 ^ 63"
  shows "\<exists>totalRAM usedRAM. getSystemRAM os = (totalRAM, usedRAM) \<and>
    sint totalRAM = int (kb1 div 1024) \<and> sint usedRAM = int (kb1 div 1024) - int (kb2 div 1024) \<and>
    0 \<le> sint usedRAM \<and> sint usedRAM \<le> sint totalRAM"
proof -
  let ?mt = "meminfo_entry ''MemTotal:'' pad1 kb1"
  let ?ma = "meminfo_entry ''MemAvailable:'' pad2 kb2"
  let ?T = "word_of_int (int (kb1 div 1024)) :: i64"
  let ?U = "?T - word_of_int (int (kb2 div 1024))"
  have pads: "list_all is_space pad1" "list_all is_space pad2" "CHR 0x0A \<notin> set pad1" "CHR 0x0A \<notin> set pad2"
  proof -
    have "list_all is_space p \<and> CHR 0x0A \<notin> set p" if "\<forall>c\<in>set p. c = CHR '' ''" for p
      using that by (induction p) (simp_all add: is_space_def)
    moreover have "\<forall>c\<in>set pad1. c = CHR '' ''" "\<forall>c\<in>set pad2. c = CHR '' ''"
      using assms(7) unfolding set_append by blast+
    ultimately show "list_all is_space pad1" "list_all is_space pad2" "CHR 0x0A \<notin> set pad1" "CHR 0x0A \<notin> set pad2"
      by blast+
  qed
  have lines: "strings_Split (CHR 0x0A) (unlines (pre @ [?mt] @ mid @ [?ma] @ post)) =
      (pre @ [?mt] @ mid @ [?ma] @ post) @ [[]]"
  proof (rule Split_unlines)
    have "CHR 0x0A \<notin> set ?mt" by (rule entry_line) (simp_all add: pads)
    moreover have "CHR 0x0A \<notin> set ?ma" by (rule entry_line) (simp_all add: pads)
    ultimately show "\<forall>l\<in>set (pre @ [?mt] @ mid @ [?ma] @ post). CHR 0x0A \<notin> set l"
      using assms(4) unfolding other_line_def by (simp add: ball_Un)
  qed
  have kb2: "int kb2 < 2 ^ 63" using assms(9,10) by linarith
  have kb: "parseMemInfoKB ?mt = word_of_int (int kb1)" "parseMemInfoKB ?ma = word_of_int (int kb2)"
    using parse_entry [OF _ _ assms(5) pads(1) assms(10)] parse_entry [OF _ _ assms(6) pads(2) kb2]
    by (simp_all add: is_space_def)
  have entries: "meminfo_line ?mt (0, 0) = (?T, 0)" "meminfo_line ?ma (?T, 0) = (?T, ?U)"
    using go_div_1024 [OF assms(10)] go_div_1024 [OF kb2]
    by (simp_all only: meminfo_line_def kb Let_def prod.case) (simp_all add: meminfo_entry_def HasPrefix_def)
  have "fold meminfo_line (strings_Split (CHR 0x0A) (unlines (pre @ [?mt] @ mid @ [?ma] @ post))) (0, 0) = (?T, ?U)"
    unfolding lines using assms(4) entries by (simp add: fold_meminfo_other meminfo_line_Nil)
  moreover have T: "sint ?T = int (kb1 div 1024)" using assms(10) by (intro sint_of_nat_small) linarith
  moreover have "?T \<noteq> 0" using T assms(8) by (metis div_greater_zero_iff less_numeral_extra(3) of_nat_0_less_iff sint_0 zero_less_numeral)
  ultimately have ram: "getSystemRAM os = (?T, ?U)" using assms(1-3) by (simp add: getSystemRAM_def)
  have "kb2 div 1024 \<le> kb1 div 1024" using assms(9) by (rule div_le_mono)
  moreover from this have "?U = word_of_int (int (kb1 div 1024 - kb2 div 1024))"
    by (simp add: of_nat_diff)
  then have "sint ?U = int (kb1 div 1024 - kb2 div 1024)"
    using assms(10) by (simp only:) (intro sint_of_nat_small, linarith)
  ultimately show ?thesis using ram T by auto
qed

theorem linux_memory_witness:
  "\<exists>totalRAM usedRAM. getSystemRAM fixture_os = (totalRAM, usedRAM) \<and> sint totalRAM = 4 \<and> sint usedRAM = 2"
proof -
  have "osMeminfo fixture_os = Some (unlines ([] @ [meminfo_entry ''MemTotal:'' ''   '' 4096] @
      [''MemFree: 10 kB''] @ [meminfo_entry ''MemAvailable:'' '' '' 2048] @ []))"
    by (simp add: fixture_os_def)
  from linux_memory [OF _ _ this] have "\<exists>totalRAM usedRAM. getSystemRAM fixture_os = (totalRAM, usedRAM) \<and>
      sint totalRAM = 4 \<and> sint usedRAM = 2 \<and> 0 \<le> sint usedRAM \<and> sint usedRAM \<le> sint totalRAM"
    by (simp add: fixture_os_def other_line_def HasPrefix_def)
  then show ?thesis by blast
qed

end
