(* ===== verification/Fsm.thy ===== *)
theory Fsm
  imports Json
begin

text \<open>
  Replication: the finite state machine of \<open>internal/cluster/fsm.go\<close> and the Raft wrapper of
  \<open>internal/cluster/raft.go\<close>. The bytes of a log entry or of a snapshot are a parsed document, or
  \<open>None\<close> when they are not JSON. The Raft library itself is not under \<open>src/\<close>: what
  \<open>RaftNode.Apply\<close> sees of it is the leadership flag and the outcome of the future, both arguments.
\<close>

section \<open>Log entries\<close>

record log_entry =
  leType :: go_string
  leData :: "json option"

definition zero_log_entry :: log_entry where
  "zero_log_entry = \<lparr>leType = '''', leData = None\<rparr>"

definition LogAddService :: go_string where "LogAddService = ''AddService''"
definition LogRemoveService :: go_string where "LogRemoveService = ''RemoveService''"
definition LogAddContainer :: go_string where "LogAddContainer = ''AddContainer''"
definition LogSetContainerStatus :: go_string where "LogSetContainerStatus = ''SetContainerStatus''"

lemmas log_type_defs = LogAddService_def LogRemoveService_def LogAddContainer_def
  LogSetContainerStatus_def

lemma log_type_neq [go_consts, simp]:
  "LogRemoveService \<noteq> LogAddService" "LogAddContainer \<noteq> LogAddService"
  "LogSetContainerStatus \<noteq> LogAddService" "LogAddContainer \<noteq> LogRemoveService"
  "LogSetContainerStatus \<noteq> LogRemoveService" "LogSetContainerStatus \<noteq> LogAddContainer"
  by (simp_all add: log_type_defs)

lemmas log_type_neq' [simp] = log_type_neq [symmetric]

text \<open>A \<open>json.RawMessage\<close> keeps the document it is given; a nil one is written as null.\<close>

definition enc_log_entry :: "log_entry \<Rightarrow> json option" where
  "enc_log_entry e = enc_struct
     [(''type'', enc_string (leType e)),
      (''data'', Some (case leData e of None \<Rightarrow> JNull | Some j \<Rightarrow> j))]"

definition log_entry_fields :: "(go_string \<times> log_entry decoder) list" where
  "log_entry_fields =
     [(''type'', fld leType_update leType dec_string),
      (''data'', fld leData_update leData (\<lambda>j _. (Some j, True)))]"

definition dec_log_entry :: "log_entry decoder" where
  "dec_log_entry = dec_struct log_entry_fields"

section \<open>Arguments of the commands\<close>

record remove_service_args =
  rsID :: go_string

record set_status_args =
  ssID :: go_string
  ssStatus :: go_string

definition dec_remove_service_args :: "remove_service_args decoder" where
  "dec_remove_service_args = dec_struct [(''id'', fld rsID_update rsID dec_string)]"

definition dec_set_status_args :: "set_status_args decoder" where
  "dec_set_status_args = dec_struct
     [(''id'', fld ssID_update ssID dec_string), (''status'', fld ssStatus_update ssStatus dec_string)]"

text \<open>The maps the callers pass as data: \<open>map[string]string{...}\<close>, written in the order of the keys.\<close>

definition enc_id_args :: "go_string \<Rightarrow> json option" where
  "enc_id_args i = enc_strmap [(''id'', i)]"

definition enc_status_args :: "go_string \<Rightarrow> go_string \<Rightarrow> json option" where
  "enc_status_args i status = enc_strmap [(''id'', i), (''status'', status)]"

section \<open>The state machine\<close>

text \<open>
  \<open>json.Unmarshal(entry.Data, \<dots>)\<close> with its error ignored: absent data leaves the zero value, and
  mismatching fields are skipped.
\<close>

definition unmarshal_data :: "'a decoder \<Rightarrow> json option \<Rightarrow> 'a \<Rightarrow> 'a" where
  "unmarshal_data dec data z = (case data of None \<Rightarrow> z | Some j \<Rightarrow> fst (dec j z))"

datatype fsm_error = FsmUnmarshal | SnapshotDecode | NilPointerPanic

definition FSM_Apply :: "json option \<Rightarrow> state \<Rightarrow> fsm_error option \<times> state" where
  "FSM_Apply data s =
     (case data of
        None \<Rightarrow> (Some FsmUnmarshal, s)
      | Some j \<Rightarrow>
          (let (entry, ok) = dec_log_entry j zero_log_entry in
           if \<not> ok then (Some FsmUnmarshal, s)
           else if leType entry = LogAddService then
             (None, AddService (unmarshal_data dec_service (leData entry) zero_service) s)
           else if leType entry = LogRemoveService then
             (None, RemoveService
                (rsID (unmarshal_data dec_remove_service_args (leData entry) \<lparr>rsID = ''''\<rparr>)) s)
           else if leType entry = LogAddContainer then
             (None, AddContainer (unmarshal_data dec_container (leData entry) zero_container) s)
           else if leType entry = LogSetContainerStatus then
             (let args = unmarshal_data dec_set_status_args (leData entry)
                           \<lparr>ssID = '''', ssStatus = ''''\<rparr>
              in (None, snd (SetContainerStatus (ssID args) (ssStatus args) s)))
           else (None, s)))"

fun FSM_run :: "json option list \<Rightarrow> state \<Rightarrow> state" where
  "FSM_run [] s = s"
| "FSM_run (l # ls) s = FSM_run ls (snd (FSM_Apply l s))"

section \<open>Submitting an entry\<close>

text \<open>
  The outcome of \<open>raft.Apply\<close> and its future, as the library documents it: no error means that the
  entry is committed and the local state machine has applied it. An error does not say that the
  entry is lost: it may have been dropped, or still have been committed (leadership lost or timeout
  while waiting).
\<close>

datatype raft_future = Committed | Dropped | CommittedButError

datatype apply_error = NotTheLeader | MarshalData | MarshalEntry | RaftApplyError

definition RaftNode_Apply ::
  "bool \<Rightarrow> raft_future \<Rightarrow> go_string \<Rightarrow> json option \<Rightarrow> state \<Rightarrow> apply_error option \<times> state" where
  "RaftNode_Apply isLeader fut entryType data s =
     (if \<not> isLeader then (Some NotTheLeader, s)
      else case data of
        None \<Rightarrow> (Some MarshalData, s)
      | Some jsonData \<Rightarrow>
          (case enc_log_entry \<lparr>leType = entryType, leData = Some jsonData\<rparr> of
             None \<Rightarrow> (Some MarshalEntry, s)
           | Some entry \<Rightarrow>
               (case fut of
                  Committed \<Rightarrow> (None, snd (FSM_Apply (Some entry) s))
                | Dropped \<Rightarrow> (Some RaftApplyError, s)
                | CommittedButError \<Rightarrow> (Some RaftApplyError, snd (FSM_Apply (Some entry) s)))))"

section \<open>Snapshots\<close>

definition enc_snapshot :: "snapshot \<Rightarrow> json option" where
  "enc_snapshot sn = enc_struct
     [(''nodes'', enc_slice enc_node (snNodes sn)), (''services'', enc_slice enc_service (snServices sn)),
      (''containers'', enc_slice enc_container (snContainers sn)),
      (''pools'', enc_slice enc_pool (snPools sn)), (''users'', enc_slice enc_user (snUsers sn)),
      (''audit'', enc_slice enc_audit_entry (snAudit sn))]"

text \<open>Decoding fills slices of pointers, and null makes a nil pointer.\<close>

record wire_snapshot =
  wsNodes :: "node option list"
  wsServices :: "service option list"
  wsContainers :: "container option list"
  wsPools :: "resource_pool option list"
  wsUsers :: "user option list"
  wsAudit :: "audit_entry list"

definition dec_ptr :: "'a decoder \<Rightarrow> 'a \<Rightarrow> 'a option decoder" where
  "dec_ptr dec z j p =
     (case j of
        JNull \<Rightarrow> (None, True)
      | _ \<Rightarrow> (let (v, ok) = dec j (case p of None \<Rightarrow> z | Some x \<Rightarrow> x) in (Some v, ok)))"

definition snapshot_fields :: "(go_string \<times> wire_snapshot decoder) list" where
  "snapshot_fields =
     [(''nodes'', fld wsNodes_update wsNodes (dec_slice (dec_ptr dec_node zero_node) None)),
      (''services'', fld wsServices_update wsServices (dec_slice (dec_ptr dec_service zero_service) None)),
      (''containers'', fld wsContainers_update wsContainers
         (dec_slice (dec_ptr dec_container zero_container) None)),
      (''pools'', fld wsPools_update wsPools (dec_slice (dec_ptr dec_pool zero_pool) None)),
      (''users'', fld wsUsers_update wsUsers (dec_slice (dec_ptr dec_user zero_user) None)),
      (''audit'', fld wsAudit_update wsAudit (dec_slice dec_audit_entry zero_audit_entry))]"

definition zero_wire_snapshot :: wire_snapshot where
  "zero_wire_snapshot = \<lparr>wsNodes = [], wsServices = [], wsContainers = [], wsPools = [], wsUsers = [],
     wsAudit = []\<rparr>"

definition dec_snapshot :: "wire_snapshot decoder" where
  "dec_snapshot = dec_struct snapshot_fields"

datatype persist_error = SnapshotMarshal | SnapshotWrite

text \<open>\<open>Persist\<close> writes the whole document at once; \<open>writeOk\<close> is whether the sink takes it.\<close>

definition Persist :: "bool \<Rightarrow> snapshot \<Rightarrow> persist_error + json" where
  "Persist writeOk sn =
     (case enc_snapshot sn of
        None \<Rightarrow> Inl SnapshotMarshal
      | Some j \<Rightarrow> if writeOk then Inr j else Inl SnapshotWrite)"

text \<open>\<open>State.Restore\<close> dereferences every pointer of the snapshot.\<close>

definition FSM_Restore :: "json option \<Rightarrow> state \<Rightarrow> fsm_error option \<times> state" where
  "FSM_Restore data s =
     (case data of
        None \<Rightarrow> (Some SnapshotDecode, s)
      | Some j \<Rightarrow>
          (let (w, ok) = dec_snapshot j zero_wire_snapshot in
           if \<not> ok then (Some SnapshotDecode, s)
           else case (those (wsNodes w), those (wsServices w), those (wsContainers w),
               those (wsPools w), those (wsUsers w)) of
             (Some ns, Some svcs, Some cs, Some ps, Some us) \<Rightarrow>
               (None, Restore \<lparr>snNodes = ns, snServices = svcs, snContainers = cs, snPools = ps,
                  snUsers = us, snAudit = wsAudit w\<rparr> s)
           | _ \<Rightarrow> (Some NilPointerPanic, s)))"

section \<open>Decoding what was encoded\<close>

lemma dec_enc_log_entry:
  assumes "valid_utf8 t" and "enc_log_entry \<lparr>leType = t, leData = Some d\<rparr> = Some j"
  shows "dec_log_entry j zero_log_entry = (\<lparr>leType = t, leData = Some d\<rparr>, True)"
  using assms
  by (auto simp: enc_log_entry_def dec_log_entry_def log_entry_fields_def zero_log_entry_def struct_simps
      leaf_simps)

lemma log_types_valid [simp]:
  "valid_utf8 LogAddService" "valid_utf8 LogRemoveService" "valid_utf8 LogAddContainer"
  "valid_utf8 LogSetContainerStatus"
  by (simp_all add: log_type_defs byte_in_def)

lemma dec_id_args:
  assumes "valid_utf8 i" and "enc_id_args i = Some j"
  shows "dec_remove_service_args j \<lparr>rsID = x\<rparr> = (\<lparr>rsID = i\<rparr>, True)"
  using assms
  by (auto simp: enc_id_args_def enc_strmap_def dec_remove_service_args_def struct_simps leaf_simps
      byte_in_def)

lemma dec_status_args:
  assumes "valid_utf8 i" and "valid_utf8 st" and "enc_status_args i st = Some j"
  shows "dec_set_status_args j \<lparr>ssID = x, ssStatus = y\<rparr> = (\<lparr>ssID = i, ssStatus = st\<rparr>, True)"
proof -
  have "sort_key fst [(''id'', i), (''status'', st)] = [(''id'', i), (''status'', st)]"
    by (simp add: sort_key_id_if_sorted list_le_def)
  with assms show ?thesis
    by (auto simp: enc_status_args_def enc_strmap_def dec_set_status_args_def struct_simps leaf_simps
        byte_in_def)
qed

lemma enc_args_Some: "\<exists>j. enc_id_args i = Some j" "\<exists>j. enc_status_args i st = Some j"
  by (simp_all add: enc_id_args_def enc_status_args_def enc_strmap_def)

lemma enc_log_entry_Some: "\<exists>j. enc_log_entry \<lparr>leType = t, leData = d\<rparr> = Some j"
  by (simp add: enc_log_entry_def struct_simps leaf_simps split: option.split)

text \<open>A committed entry does what the state machine does with the submitted data.\<close>

lemma RaftNode_Apply_committed:
  assumes "valid_utf8 t" and "data = Some d"
  shows "RaftNode_Apply True Committed t data s = (None,
    if t = LogAddService then AddService (unmarshal_data dec_service (Some d) zero_service) s
    else if t = LogRemoveService then
      RemoveService (rsID (unmarshal_data dec_remove_service_args (Some d) \<lparr>rsID = ''''\<rparr>)) s
    else if t = LogAddContainer then
      AddContainer (unmarshal_data dec_container (Some d) zero_container) s
    else if t = LogSetContainerStatus then
      (let args = unmarshal_data dec_set_status_args (Some d) \<lparr>ssID = '''', ssStatus = ''''\<rparr>
       in snd (SetContainerStatus (ssID args) (ssStatus args) s))
    else s)"
proof -
  obtain j where j: "enc_log_entry \<lparr>leType = t, leData = Some d\<rparr> = Some j"
    using enc_log_entry_Some by blast
  show ?thesis
    using assms dec_enc_log_entry [OF assms(1) j] j by (simp add: RaftNode_Apply_def FSM_Apply_def Let_def)
qed

lemma FSM_Apply_frame [simp]:
  "nodes (snd (FSM_Apply l s)) = nodes s" "pools (snd (FSM_Apply l s)) = pools s"
  "users (snd (FSM_Apply l s)) = users s" "audit (snd (FSM_Apply l s)) = audit s"
  by (simp_all add: FSM_Apply_def Let_def split: option.split prod.split)

lemma FSM_Apply_error: "fst (FSM_Apply l s) \<noteq> None \<Longrightarrow> snd (FSM_Apply l s) = s"
  by (auto simp: FSM_Apply_def Let_def split: option.splits prod.splits if_splits)

lemma wf_FSM_Apply: "wf_state s \<Longrightarrow> wf_state (snd (FSM_Apply l s))"
  by (simp add: FSM_Apply_def Let_def wf_AddService wf_removes wf_AddContainer wf_SetContainerStatus
      split: option.split prod.split)

text \<open>The commands as their callers submit them, once committed.\<close>

lemma commit_AddService:
  "service_ok svc \<Longrightarrow>
     RaftNode_Apply True Committed LogAddService (enc_service svc) s = (None, AddService svc s)"
  using service_codec.roundtrip [of svc]
  by (auto simp: RaftNode_Apply_committed unmarshal_data_def)

lemma commit_AddContainer:
  "container_ok c \<Longrightarrow>
     RaftNode_Apply True Committed LogAddContainer (enc_container c) s = (None, AddContainer c s)"
  using container_codec.roundtrip [of c]
  by (auto simp: RaftNode_Apply_committed unmarshal_data_def)

lemma commit_RemoveService:
  "valid_utf8 i \<Longrightarrow>
     RaftNode_Apply True Committed LogRemoveService (enc_id_args i) s = (None, RemoveService i s)"
  using enc_args_Some(1) [of i]
  by (auto simp: RaftNode_Apply_committed unmarshal_data_def dec_id_args [of i])

lemma commit_SetContainerStatus:
  "valid_utf8 i \<Longrightarrow> valid_utf8 st \<Longrightarrow>
     RaftNode_Apply True Committed LogSetContainerStatus (enc_status_args i st) s =
       (None, snd (SetContainerStatus i st s))"
  using enc_args_Some(2) [of i st]
  by (auto simp: RaftNode_Apply_committed unmarshal_data_def dec_status_args [of i st])

lemma RaftNode_Apply_frame [simp]:
  "nodes (snd (RaftNode_Apply l fut t d s)) = nodes s" "pools (snd (RaftNode_Apply l fut t d s)) = pools s"
  "users (snd (RaftNode_Apply l fut t d s)) = users s" "audit (snd (RaftNode_Apply l fut t d s)) = audit s"
  by (simp_all add: RaftNode_Apply_def split: option.split raft_future.split)

lemma wf_RaftNode_Apply: "wf_state s \<Longrightarrow> wf_state (snd (RaftNode_Apply l fut t d s))"
  by (simp add: RaftNode_Apply_def wf_FSM_Apply split: option.split raft_future.split)

text \<open>The replicated part of the state.\<close>

definition same_replica :: "state \<Rightarrow> state \<Rightarrow> bool" where
  "same_replica s t \<longleftrightarrow> services s = services t \<and> containers s = containers t"

lemma same_replica_refl [simp]: "same_replica s s"
  by (simp add: same_replica_def)

lemma same_replica_SetContainerStatus:
  "same_replica s t \<Longrightarrow>
     same_replica (snd (SetContainerStatus i st s)) (snd (SetContainerStatus i st t))"
  by (simp add: same_replica_def containers_SetContainerStatus)

lemma same_replica_adds:
  assumes "same_replica s t"
  shows "same_replica (AddService v s) (AddService v t)" "same_replica (RemoveService i s) (RemoveService i t)"
    "same_replica (AddContainer c s) (AddContainer c t)"
  using assms
  by (simp_all add: same_replica_def service_table.lookup_add service_table.lookup_del
      container_table.lookup_add)

lemma same_replica_FSM_Apply:
  "same_replica s t \<Longrightarrow> same_replica (snd (FSM_Apply l s)) (snd (FSM_Apply l t))"
  by (simp add: FSM_Apply_def Let_def same_replica_adds same_replica_SetContainerStatus
      split: option.split prod.split)

lemma FSM_run_append: "FSM_run (ls @ ms) s = FSM_run ms (FSM_run ls s)"
  by (induction ls arbitrary: s) simp_all

subsection \<open>Snapshots\<close>

lemma enc_struct_not_null [simp]: "enc_struct fs \<noteq> Some JNull"
  by (simp add: enc_struct_def)

context json_codec
begin

lemma roundtrip_ptr:
  assumes "enc x \<noteq> Some JNull" and "ok x"
  shows "\<exists>j. enc x = Some j \<and> dec_ptr dec zero j None = (Some x, True)"
proof -
  obtain j where j: "enc x = Some j" "dec j zero = (x, True)" using roundtrip [OF assms(2)] by blast
  with assms(1) show ?thesis by (intro exI [of _ j]) (cases j; simp add: dec_ptr_def)
qed

lemma roundtrip_ptr_all:
  assumes "\<And>x. enc x \<noteq> Some JNull"
  shows "list_all ok xs \<Longrightarrow>
    \<exists>js. enc_all enc xs = Some js \<and> dec_all (dec_ptr dec zero) None js = (map Some xs, True)"
proof (induction xs)
  case (Cons x xs)
  moreover have "\<exists>j. enc x = Some j \<and> dec_ptr dec zero j None = (Some x, True)"
    using Cons.prems assms by (intro roundtrip_ptr) simp_all
  ultimately show ?case by fastforce
qed simp

lemma roundtrip_ptr_slice:
  assumes "\<And>x. enc x \<noteq> Some JNull" and "list_all ok xs"
  shows "\<exists>j. enc_slice enc xs = Some j \<and>
    dec_slice (dec_ptr dec zero) None j ys = (map Some xs, True)"
  using roundtrip_ptr_all [OF assms]
  by (cases "xs = []") (auto simp: enc_slice_def dec_slice_def)

end

lemma those_map_Some [simp]: "those (map Some xs) = Some xs"
  by (induction xs) simp_all

definition snapshot_ok :: "snapshot \<Rightarrow> bool" where
  "snapshot_ok sn \<longleftrightarrow> list_all node_ok (snNodes sn) \<and> list_all service_ok (snServices sn) \<and>
     list_all container_ok (snContainers sn) \<and> list_all pool_ok (snPools sn) \<and>
     list_all user_ok (snUsers sn) \<and> list_all audit_ok (snAudit sn)"

lemma Persist_FSM_Restore:
  assumes "snapshot_ok sn"
  shows "\<exists>j. Persist True sn = Inr j \<and> FSM_Restore (Some j) t = (None, Restore sn t)"
proof -
  obtain ns where ns: "enc_slice enc_node (snNodes sn) = Some ns"
      "dec_slice (dec_ptr dec_node zero_node) None ns [] = (map Some (snNodes sn), True)"
    using assms node_codec.roundtrip_ptr_slice [of "snNodes sn"]
    by (auto simp: snapshot_ok_def enc_node_def)
  obtain vs where vs: "enc_slice enc_service (snServices sn) = Some vs"
      "dec_slice (dec_ptr dec_service zero_service) None vs [] = (map Some (snServices sn), True)"
    using assms service_codec.roundtrip_ptr_slice [of "snServices sn"]
    by (auto simp: snapshot_ok_def enc_service_def)
  obtain cs where cs: "enc_slice enc_container (snContainers sn) = Some cs"
      "dec_slice (dec_ptr dec_container zero_container) None cs [] = (map Some (snContainers sn), True)"
    using assms container_codec.roundtrip_ptr_slice [of "snContainers sn"]
    by (auto simp: snapshot_ok_def enc_container_def)
  obtain ps where ps: "enc_slice enc_pool (snPools sn) = Some ps"
      "dec_slice (dec_ptr dec_pool zero_pool) None ps [] = (map Some (snPools sn), True)"
    using assms pool_codec.roundtrip_ptr_slice [of "snPools sn"]
    by (auto simp: snapshot_ok_def enc_pool_def)
  obtain us where us: "enc_slice enc_user (snUsers sn) = Some us"
      "dec_slice (dec_ptr dec_user zero_user) None us [] = (map Some (snUsers sn), True)"
    using assms user_codec.roundtrip_ptr_slice [of "snUsers sn"]
    by (auto simp: snapshot_ok_def enc_user_def)
  obtain aa where aa: "enc_slice enc_audit_entry (snAudit sn) = Some aa"
      "dec_slice dec_audit_entry zero_audit_entry aa [] = (snAudit sn, True)"
    using assms audit_codec.roundtrip_slice [of "snAudit sn"] by (auto simp: snapshot_ok_def)
  show ?thesis
    by (simp add: Persist_def FSM_Restore_def enc_snapshot_def dec_snapshot_def snapshot_fields_def
        zero_wire_snapshot_def struct_simps ns vs cs ps us aa Restore_def)
qed

text \<open>A state all of whose values \<open>Marshal\<close> can write without loss.\<close>

definition encodable :: "state \<Rightarrow> bool" where
  "encodable s \<longleftrightarrow> (\<forall>n\<in>ran (nodes s). node_ok n) \<and> (\<forall>v\<in>ran (services s). service_ok v) \<and>
     (\<forall>c\<in>ran (containers s). container_ok c) \<and> (\<forall>p\<in>ran (pools s). pool_ok p) \<and>
     (\<forall>u\<in>ran (users s). user_ok u) \<and> (\<forall>e\<in>set (audit s). audit_ok e)"

lemma encodable_Snapshot:
  assumes "encodable s" and "iterates on (nodes s)" and "iterates os (services s)"
    and "iterates oc (containers s)" and "iterates op (pools s)" and "iterates ou (users s)"
  shows "snapshot_ok (Snapshot on os oc op ou s)"
  using assms by (simp add: snapshot_ok_def encodable_def Snapshot_def list_all_iff)

section \<open>Properties\<close>

text \<open>
  C8: submitting a command and having it committed is the operation on the state, for all four kinds
  of commands: the marshalling by the submitter, the wrapping into a log entry and the decoding by
  the state machine lose nothing. The requirement is that the values can be written as JSON: valid
  UTF-8, finite floats, four-digit years, 64-bit integers.
\<close>

theorem replicated_commands_refine_state:
  assumes "service_ok svc" and "container_ok c" and "valid_utf8 i" and "valid_utf8 status"
  shows "RaftNode_Apply True Committed LogAddService (enc_service svc) s = (None, AddService svc s) \<and>
    RaftNode_Apply True Committed LogRemoveService (enc_id_args i) s = (None, RemoveService i s) \<and>
    RaftNode_Apply True Committed LogAddContainer (enc_container c) s = (None, AddContainer c s) \<and>
    RaftNode_Apply True Committed LogSetContainerStatus (enc_status_args i status) s =
      (None, snd (SetContainerStatus i status s))"
  using assms
  by (simp add: commit_AddService commit_AddContainer commit_RemoveService commit_SetContainerStatus)

theorem replicated_commands_refine_state_witness:
  "RaftNode_Apply True Committed LogAddService (enc_service zero_service) NewState =
     (None, AddService zero_service NewState)"
proof -
  have "service_ok zero_service" "container_ok zero_container"
    by (simp_all add: service_ok_def container_ok_def zero_service_def zero_container_def finite_f64_def
        zero_f64_def int64_range_def strmap_ok_def)
  then show ?thesis
    using replicated_commands_refine_state [of zero_service zero_container "''''" "''''"] by simp
qed

text \<open>
  C31: replicas converge. Masters that agree on the services and the containers agree on them after
  any common sequence of log entries, well-formed or not, whatever their nodes, pools, users and
  audit logs are; and no log entry touches these four, which every master keeps for itself.
\<close>

theorem replicas_converge:
  assumes "services s = services t" and "containers s = containers t"
  shows "services (FSM_run es s) = services (FSM_run es t) \<and>
    containers (FSM_run es s) = containers (FSM_run es t) \<and>
    nodes (FSM_run es s) = nodes s \<and> pools (FSM_run es s) = pools s \<and>
    users (FSM_run es s) = users s \<and> audit (FSM_run es s) = audit s"
proof -
  have "same_replica s t \<Longrightarrow> same_replica (FSM_run es s) (FSM_run es t)"
    by (induction es arbitrary: s t) (simp_all add: same_replica_FSM_Apply)
  moreover have "nodes (FSM_run es s) = nodes s \<and> pools (FSM_run es s) = pools s \<and>
      users (FSM_run es s) = users s \<and> audit (FSM_run es s) = audit s"
    by (induction es arbitrary: s) simp_all
  ultimately show ?thesis using assms by (simp add: same_replica_def)
qed

theorem replicas_converge_witness:
  "containers (FSM_run [None, enc_log_entry \<lparr>leType = LogAddContainer, leData = None\<rparr>]
      (AddPool zero_pool NewState)) =
   containers (FSM_run [None, enc_log_entry \<lparr>leType = LogAddContainer, leData = None\<rparr>] NewState)"
  by (rule replicas_converge [THEN conjunct2, THEN conjunct1]) simp_all

text \<open>
  An entry that is not a log entry, and one whose type is none of the four, changes nothing; and
  \<open>RaftNode.Apply\<close> never applies anything when it fails before the submission: on a follower, or when
  the data cannot be marshalled. An error of the future says nothing about the state.
\<close>

theorem failed_submission_leaves_state:
  "(fst (FSM_Apply l s) \<noteq> None \<longrightarrow> snd (FSM_Apply l s) = s) \<and>
   (leType e \<notin> {LogAddService, LogRemoveService, LogAddContainer, LogSetContainerStatus} \<longrightarrow>
     valid_utf8 (leType e) \<longrightarrow> FSM_Apply (enc_log_entry e) s = (None, s)) \<and>
   (fst (RaftNode_Apply isLeader fut t data s) \<notin> {None, Some RaftApplyError} \<longrightarrow>
     snd (RaftNode_Apply isLeader fut t data s) = s) \<and>
   (\<not> isLeader \<longrightarrow> RaftNode_Apply isLeader fut t data s = (Some NotTheLeader, s))"
proof (intro conjI impI)
  assume e: "leType e \<notin> {LogAddService, LogRemoveService, LogAddContainer, LogSetContainerStatus}"
    and valid: "valid_utf8 (leType e)"
  have "\<exists>d j. enc_log_entry e = enc_log_entry \<lparr>leType = leType e, leData = Some d\<rparr> \<and>
      enc_log_entry e = Some j"
    by (cases "leData e") (auto simp: enc_log_entry_def struct_simps leaf_simps)
  then obtain d j where "enc_log_entry \<lparr>leType = leType e, leData = Some d\<rparr> = Some j"
      "enc_log_entry e = Some j" by metis
  with e dec_enc_log_entry [OF valid] show "FSM_Apply (enc_log_entry e) s = (None, s)"
    by (simp add: FSM_Apply_def)
qed (auto simp: FSM_Apply_error RaftNode_Apply_def split: option.splits raft_future.splits)

theorem failed_submission_leaves_state_witness:
  "FSM_Apply None NewState = (Some FsmUnmarshal, NewState) \<and>
   FSM_Apply (enc_log_entry \<lparr>leType = ''Nope'', leData = None\<rparr>) NewState = (None, NewState) \<and>
   RaftNode_Apply False Committed LogAddService None NewState = (Some NotTheLeader, NewState)"
proof -
  have "leType \<lparr>leType = ''Nope'', leData = None\<rparr> \<notin>
      {LogAddService, LogRemoveService, LogAddContainer, LogSetContainerStatus}"
    "valid_utf8 (leType \<lparr>leType = ''Nope'', leData = None\<rparr>)"
    by (simp_all add: log_type_defs byte_in_def)
  then show ?thesis
    using failed_submission_leaves_state [of None NewState "\<lparr>leType = ''Nope'', leData = None\<rparr>" False
        Committed LogAddService None]
    by (simp add: FSM_Apply_def)
qed



end
