(* ===== verification/FaultTolerance.thy ===== *)
theory FaultTolerance
  imports Command Fsm
begin

text \<open>
  The failure detector and the recovery of late nodes, \<open>internal/fault/tolerance.go\<close>. \<open>check\<close> is the
  body of the ticker loop: it moves silent nodes to SUSPECT and to DEAD and hands the active
  containers of a dead node to a callback. \<open>HandleLateHeartbeat\<close> decides what a heartbeat of a DEAD
  node starts; on a leader that is a goroutine, whose steps (\<open>kill_step\<close>) interleave with everything
  else. Its whole run without interference is \<open>kill_goroutine\<close>.

  The callbacks are arguments, \<open>None\<close> for nil. They act on the cluster state.
\<close>

section \<open>State\<close>

record tolerance =
  checkInterval :: duration
  suspectAfter :: duration
  deadAfter :: duration

datatype kill_pc = KSend | KList | KStop "go_string list" | KRelease

record kill_task =
  ktNode :: go_string
  ktAddr :: go_string
  ktPc :: kill_pc

text \<open>The cluster state, the set of nodes being recovered, and the goroutines that recover them.\<close>

record world =
  cluster :: state
  recovering :: "go_string set"
  kills :: "kill_task list"

type_synonym status_callback = "go_string \<Rightarrow> go_string \<Rightarrow> state \<Rightarrow> state"
type_synonym dead_callback = "go_string \<Rightarrow> container list \<Rightarrow> state \<Rightarrow> state"
type_synonym container_order = "(go_string \<rightharpoonup> container) \<Rightarrow> go_string list"

definition NewTolerance :: "state \<Rightarrow> world" where
  "NewTolerance s = \<lparr>cluster = s, recovering = {}, kills = []\<rparr>"

section \<open>The failure detector\<close>

definition activeContainersOnNode :: "go_string list \<Rightarrow> go_string \<Rightarrow> state \<Rightarrow> container list" where
  "activeContainersOnNode ord nodeID s =
     filter (\<lambda>c. cStatus c = ContainerRunning \<or> cStatus c = ContainerScheduled \<or>
         cStatus c = ContainerRescheduling)
       (GetContainersByNode ord nodeID s)"

text \<open>One iteration of the loop of \<open>check\<close>, for the node filed under \<open>k\<close>.\<close>

definition check_node ::
  "tolerance \<Rightarrow> go_time \<Rightarrow> container_order \<Rightarrow> dead_callback option \<Rightarrow> go_string \<Rightarrow> state \<Rightarrow> state" where
  "check_node t now ord onNodeDead k s =
     (case nodes s k of
        None \<Rightarrow> s
      | Some node \<Rightarrow>
          if nStatus node = NodeDead \<or> nStatus node = NodeRemoved then s
          else
            (let since = time_Sub now (nLastHeartbeat node) in
             if deadAfter t \<le> since \<and> nStatus node \<noteq> NodeDead then
               (let s1 = snd (SetNodeStatus (nID node) NodeDead s);
                    cs = activeContainersOnNode (ord (containers s1)) (nID node) s1
                in case onNodeDead of
                     Some f \<Rightarrow> if cs \<noteq> [] then f (nID node) cs s1 else s1
                   | None \<Rightarrow> s1)
             else if suspectAfter t \<le> since \<and> nStatus node = NodeAlive then
               snd (SetNodeStatus (nID node) NodeSuspect s)
             else s))"

fun check_loop ::
  "tolerance \<Rightarrow> go_time \<Rightarrow> (go_string \<Rightarrow> container_order) \<Rightarrow> dead_callback option \<Rightarrow>
   go_string list \<Rightarrow> state \<Rightarrow> state" where
  "check_loop t now ord onNodeDead [] s = s"
| "check_loop t now ord onNodeDead (k # ks) s =
     check_loop t now ord onNodeDead ks (check_node t now (ord k) onNodeDead k s)"

definition check ::
  "tolerance \<Rightarrow> go_time \<Rightarrow> ((go_string \<rightharpoonup> node) \<Rightarrow> go_string list) \<Rightarrow> (go_string \<Rightarrow> container_order) \<Rightarrow>
   dead_callback option \<Rightarrow> state \<Rightarrow> state" where
  "check t now nord ord onNodeDead s = check_loop t now ord onNodeDead (nord (nodes s)) s"

section \<open>Late heartbeats\<close>

definition setContainerStatus ::
  "status_callback option \<Rightarrow> go_string \<Rightarrow> go_string \<Rightarrow> state \<Rightarrow> state" where
  "setContainerStatus applyContainerStatus containerID status s =
     (case applyContainerStatus of
        Some f \<Rightarrow> f containerID status s
      | None \<Rightarrow> snd (SetContainerStatus containerID status s))"

text \<open>\<open>isLeader\<close> is the result of the callback, \<open>None\<close> when there is none.\<close>

definition HandleLateHeartbeat :: "bool option \<Rightarrow> go_string \<Rightarrow> world \<Rightarrow> world" where
  "HandleLateHeartbeat isLeader nodeID w =
     (case GetNode nodeID (cluster w) of
        None \<Rightarrow> w
      | Some node \<Rightarrow>
          if nStatus node \<noteq> NodeDead then w
          else if isLeader = Some False then
            w\<lparr>cluster := snd (SetNodeStatus nodeID NodeAlive (cluster w))\<rparr>
          else if nodeID \<in> recovering w then w
          else w\<lparr>recovering := insert nodeID (recovering w),
                 kills := kills w @ [\<lparr>ktNode = nodeID, ktAddr = nAddress node, ktPc = KSend\<rparr>]\<rparr>)"

definition kill_command :: command where
  "kill_command = zero_command\<lparr>cmType := CmdKillContainers\<rparr>"

text \<open>
  One step of the \<open>i\<close>-th goroutine. \<open>reply\<close> is what \<open>SendCommand\<close> returns for \<open>kill_command\<close> at the
  node's address.
\<close>

definition set_pc :: "nat \<Rightarrow> kill_pc \<Rightarrow> world \<Rightarrow> world" where
  "set_pc i pc w = w\<lparr>kills := (kills w)[i := (kills w ! i)\<lparr>ktPc := pc\<rparr>]\<rparr>"

definition kill_step ::
  "container_order \<Rightarrow> status_callback option \<Rightarrow> send_error + command_response \<Rightarrow> nat \<Rightarrow> world \<Rightarrow> world" where
  "kill_step ord applyContainerStatus reply i w =
     (if length (kills w) \<le> i then w
      else
        let nodeID = ktNode (kills w ! i) in
        case ktPc (kills w ! i) of
          KSend \<Rightarrow> (case reply of Inl err \<Rightarrow> set_pc i KRelease w | Inr resp \<Rightarrow> set_pc i KList w)
        | KList \<Rightarrow>
            set_pc i (KStop (map cID (activeContainersOnNode (ord (containers (cluster w))) nodeID
              (cluster w)))) w
        | KStop cs \<Rightarrow>
            (case cs of
               [] \<Rightarrow> set_pc i KRelease (w\<lparr>cluster := snd (SetNodeStatus nodeID NodeAlive (cluster w))\<rparr>)
             | c # cs' \<Rightarrow>
                 set_pc i (KStop cs')
                   (w\<lparr>cluster := setContainerStatus applyContainerStatus c ContainerStopped (cluster w)\<rparr>))
        | KRelease \<Rightarrow>
            w\<lparr>recovering := recovering w - {nodeID}, kills := take i (kills w) @ drop (Suc i) (kills w)\<rparr>)"

text \<open>The goroutine from its start to its end, alone.\<close>

fun stop_all :: "status_callback option \<Rightarrow> go_string list \<Rightarrow> state \<Rightarrow> state" where
  "stop_all applyContainerStatus [] s = s"
| "stop_all applyContainerStatus (c # cs) s =
     stop_all applyContainerStatus cs (setContainerStatus applyContainerStatus c ContainerStopped s)"

definition kill_goroutine ::
  "container_order \<Rightarrow> status_callback option \<Rightarrow> send_error + command_response \<Rightarrow> go_string \<Rightarrow> state \<Rightarrow> state" where
  "kill_goroutine ord applyContainerStatus reply nodeID s =
     (case reply of
        Inl err \<Rightarrow> s
      | Inr resp \<Rightarrow>
          snd (SetNodeStatus nodeID NodeAlive
            (stop_all applyContainerStatus (map cID (activeContainersOnNode (ord (containers s)) nodeID s)) s)))"

section \<open>The verdict of the failure detector\<close>

definition next_status :: "tolerance \<Rightarrow> go_time \<Rightarrow> node \<Rightarrow> go_string" where
  "next_status t now n =
     (let since = time_Sub now (nLastHeartbeat n) in
      if nStatus n = NodeDead \<or> nStatus n = NodeRemoved then nStatus n
      else if deadAfter t \<le> since then NodeDead
      else if suspectAfter t \<le> since \<and> nStatus n = NodeAlive then NodeSuspect
      else nStatus n)"

definition judged :: "tolerance \<Rightarrow> go_time \<Rightarrow> node \<Rightarrow> node" where
  "judged t now n = n\<lparr>nStatus := next_status t now n\<rparr>"

text \<open>What \<open>check\<close> relies on: the callback for dead nodes leaves the nodes alone.\<close>

locale dead_node_callback =
  fixes onNodeDead :: "dead_callback option"
  assumes nodes_callback: "onNodeDead = Some f \<Longrightarrow> nodes (f i cs s) = nodes s"
begin

lemma nodes_check_node:
  assumes "keyed nID (nodes s)"
  shows "nodes (check_node t now ord onNodeDead k s) =
    (nodes s)(k := map_option (judged t now) (nodes s k))"
proof (cases "nodes s k")
  case None
  then show ?thesis by (simp add: check_node_def fun_upd_idem)
next
  case (Some n)
  with assms have id: "nID n = k" by (rule keyedD)
  consider (final) "nStatus n = NodeDead \<or> nStatus n = NodeRemoved"
    | (dead) "nStatus n \<noteq> NodeDead" "nStatus n \<noteq> NodeRemoved"
        "deadAfter t \<le> time_Sub now (nLastHeartbeat n)"
    | (other) "nStatus n \<noteq> NodeDead" "nStatus n \<noteq> NodeRemoved"
        "\<not> deadAfter t \<le> time_Sub now (nLastHeartbeat n)" by blast
  then show ?thesis
  proof cases
    case final
    with Some show ?thesis
      by (auto simp: check_node_def judged_def next_status_def Let_def fun_upd_idem)
  next
    case dead
    with Some id show ?thesis
      by (auto simp: check_node_def judged_def next_status_def Let_def nodes_callback
          nodes_SetNodeStatus split: option.split)
  next
    case other
    with Some id show ?thesis
      by (auto simp: check_node_def judged_def next_status_def Let_def nodes_SetNodeStatus fun_upd_idem)
  qed
qed

lemma judged_simps [simp]: "nID (judged t now n) = nID n" "nLastHeartbeat (judged t now n) = nLastHeartbeat n"
  by (simp_all add: judged_def)

lemma nodes_check_loop:
  assumes "keyed nID (nodes s)" and "distinct ks"
  shows "nodes (check_loop t now ord onNodeDead ks s) =
    (\<lambda>k. if k \<in> set ks then map_option (judged t now) (nodes s k) else nodes s k)"
  using assms
proof (induction ks arbitrary: s)
  case (Cons k ks)
  let ?s = "check_node t now (ord k) onNodeDead k s"
  have nodes: "nodes ?s = (nodes s)(k := map_option (judged t now) (nodes s k))"
    by (rule nodes_check_node [OF Cons.prems(1)])
  then have keyed: "keyed nID (nodes ?s)"
    using Cons.prems(1) by (simp add: keyed_map_option)
  have IH: "nodes (check_loop t now ord onNodeDead ks ?s) =
      (\<lambda>k. if k \<in> set ks then map_option (judged t now) (nodes ?s k) else nodes ?s k)"
    using Cons.prems(2) by (intro Cons.IH [OF keyed]) simp
  show ?case
    unfolding check_loop.simps IH nodes using Cons.prems(2) by (auto simp: fun_eq_iff)
qed simp

lemma nodes_check_keyed:
  assumes "keyed nID (nodes s)" and "finite (dom (nodes s))" and "chooser nord"
  shows "nodes (check t now nord ord onNodeDead s) = (\<lambda>k. map_option (judged t now) (nodes s k))"
proof -
  have it: "iterates (nord (nodes s)) (nodes s)" by (rule chooserD [OF assms(3,2)])
  then have "k \<in> set (nord (nodes s)) \<longleftrightarrow> nodes s k \<noteq> None" for k by auto
  then show ?thesis
    unfolding check_def
    using nodes_check_loop [OF assms(1) iterates_distinct [OF it]]
    by (auto simp: fun_eq_iff)
qed

lemma nodes_check:
  assumes "wf_state s" and "chooser nord"
  shows "nodes (check t now nord ord onNodeDead s) = (\<lambda>k. map_option (judged t now) (nodes s k))"
  using assms(1) by (intro nodes_check_keyed [OF wf_state_keyed(1) [OF assms(1)] _ assms(2)]) (simp add: wf_state_def)

end

interpretation no_callback: dead_node_callback None
  by unfold_locales simp

section \<open>Effect of the recovery goroutine\<close>

lemma time_Sub_ge:
  assumes "- (2 ^ 63) < d" and "d < 2 ^ 63"
  shows "d \<le> time_Sub t u \<longleftrightarrow> d \<le> t - u"
  using assms by (auto simp: time_Sub_def)

text \<open>An update of a container's status that reaches the state.\<close>

definition status_applied :: "status_callback option \<Rightarrow> bool" where
  "status_applied f \<longleftrightarrow> (\<forall>i st s. setContainerStatus f i st s = snd (SetContainerStatus i st s))"

lemma status_applied_None [simp]: "status_applied None"
  by (simp add: status_applied_def setContainerStatus_def)

lemma stop_all_frame:
  assumes "status_applied f"
  shows "nodes (stop_all f cs s) = nodes s" "services (stop_all f cs s) = services s"
    "pools (stop_all f cs s) = pools s" "users (stop_all f cs s) = users s"
    "audit (stop_all f cs s) = audit s"
  using assms by (induction f cs s rule: stop_all.induct) (simp_all add: status_applied_def)

lemma containers_stop_all:
  assumes "status_applied f"
  shows "containers (stop_all f cs s) =
    (\<lambda>k. if k \<in> set cs then map_option (\<lambda>c. c\<lparr>cStatus := ContainerStopped\<rparr>) (containers s k)
      else containers s k)"
  using assms
proof (induction f cs s rule: stop_all.induct)
  case (2 f c cs s)
  have IH: "containers (stop_all f cs (setContainerStatus f c ContainerStopped s)) =
      (\<lambda>k. if k \<in> set cs
        then map_option (\<lambda>c. c\<lparr>cStatus := ContainerStopped\<rparr>) (containers (setContainerStatus f c ContainerStopped s) k)
        else containers (setContainerStatus f c ContainerStopped s) k)"
    by (rule "2.IH" [OF "2.prems"])
  have set: "setContainerStatus f c ContainerStopped s = snd (SetContainerStatus c ContainerStopped s)"
    using "2.prems" by (simp add: status_applied_def)
  show ?case
    unfolding stop_all.simps IH unfolding set containers_SetContainerStatus
    by (auto simp: fun_eq_iff option.map_comp comp_def)
qed simp

definition active_status :: "container \<Rightarrow> bool" where
  "active_status c \<longleftrightarrow>
     cStatus c \<in> {ContainerRunning, ContainerScheduled, ContainerRescheduling}"

lemma set_activeContainersOnNode:
  "iterates ord (containers s) \<Longrightarrow>
     set (activeContainersOnNode ord i s) = {c \<in> ran (containers s). cNodeID c = i \<and> active_status c}"
  by (auto simp: activeContainersOnNode_def GetContainersByNode_def active_status_def)

lemma active_ids:
  assumes "wf_state s" and "iterates ord (containers s)"
  shows "k \<in> set (map cID (activeContainersOnNode ord i s)) \<longleftrightarrow>
    (\<exists>c. containers s k = Some c \<and> cNodeID c = i \<and> active_status c)"
proof -
  have key: "keyed cID (containers s)" using assms(1) by (rule wf_state_keyed(3))
  show ?thesis
    unfolding set_map set_activeContainersOnNode [OF assms(2)]
    using keyedD [OF key] by (auto simp: ran_def image_iff)
qed

lemma kill_goroutine_state:
  assumes "wf_state s" and "chooser ord" and "status_applied f"
  shows "nodes (kill_goroutine ord f (Inr resp) i s) =
      (nodes s)(i := map_option (\<lambda>n. n\<lparr>nStatus := NodeAlive\<rparr>) (nodes s i))"
    and "containers (kill_goroutine ord f (Inr resp) i s) =
      (\<lambda>k. map_option (\<lambda>c. if cNodeID c = i \<and> active_status c then c\<lparr>cStatus := ContainerStopped\<rparr> else c)
        (containers s k))"
proof -
  have it: "iterates (ord (containers s)) (containers s)"
    using assms(1,2) by (simp add: chooserD wf_state_def)
  show "nodes (kill_goroutine ord f (Inr resp) i s) =
      (nodes s)(i := map_option (\<lambda>n. n\<lparr>nStatus := NodeAlive\<rparr>) (nodes s i))"
    by (simp add: kill_goroutine_def nodes_SetNodeStatus stop_all_frame [OF assms(3)])
  show "containers (kill_goroutine ord f (Inr resp) i s) =
      (\<lambda>k. map_option (\<lambda>c. if cNodeID c = i \<and> active_status c then c\<lparr>cStatus := ContainerStopped\<rparr> else c)
        (containers s k))"
  proof
    fix k
    show "containers (kill_goroutine ord f (Inr resp) i s) k =
        map_option (\<lambda>c. if cNodeID c = i \<and> active_status c then c\<lparr>cStatus := ContainerStopped\<rparr> else c)
          (containers s k)"
      by (cases "containers s k")
        (simp_all add: kill_goroutine_def containers_stop_all [OF assms(3)] active_ids [OF assms(1) it]
          del: set_map)
  qed
qed

text \<open>The steps of a goroutine that nothing interferes with.\<close>

lemma kill_steps_stop:
  "w = \<lparr>cluster = s, recovering = R, kills = [\<lparr>ktNode = i, ktAddr = a, ktPc = KStop cs\<rparr>]\<rparr> \<Longrightarrow>
   (kill_step ord f reply 0 ^^ (length cs + 2)) w =
     \<lparr>cluster = snd (SetNodeStatus i NodeAlive (stop_all f cs s)), recovering = R - {i}, kills = []\<rparr>"
proof (induction cs arbitrary: s w)
  case Nil
  then show ?case by (simp add: kill_step_def set_pc_def numeral_2_eq_2)
next
  case (Cons c cs)
  have "(kill_step ord f reply 0 ^^ (length (c # cs) + 2)) w =
      (kill_step ord f reply 0 ^^ (length cs + 2)) (kill_step ord f reply 0 w)"
    by (simp add: funpow_swap1)
  also have "kill_step ord f reply 0 w = \<lparr>cluster = setContainerStatus f c ContainerStopped s,
      recovering = R, kills = [\<lparr>ktNode = i, ktAddr = a, ktPc = KStop cs\<rparr>]\<rparr>"
    using Cons.prems by (simp add: kill_step_def set_pc_def)
  finally show ?case using Cons.IH [OF refl] by simp
qed

section \<open>Properties\<close>

text \<open>
  C7: the verdicts of one pass of the failure detector. With thresholds \<open>suspectAfter \<le> deadAfter\<close>, a
  node that is not DEAD or REMOVED becomes DEAD exactly when it has been silent for \<open>deadAfter\<close> or
  longer; an ALIVE node becomes SUSPECT when it has been silent for \<open>suspectAfter\<close> but not
  \<open>deadAfter\<close>; every other status stays, no node appears or disappears, and nothing else of a node
  changes. This holds for every order of the loop and every callback that leaves the nodes alone.
\<close>

theorem check_verdicts:
  assumes "wf_state s" and "chooser nord"
    and "\<And>f i cs s. onNodeDead = Some f \<Longrightarrow> nodes (f i cs s) = nodes s"
    and "0 < suspectAfter t" and "suspectAfter t \<le> deadAfter t" and "deadAfter t < 2 ^ 63"
  shows "nodes (check t now nord ord onNodeDead s) k =
    (case nodes s k of
       None \<Rightarrow> None
     | Some n \<Rightarrow> Some (n\<lparr>nStatus :=
         if nStatus n \<notin> {NodeDead, NodeRemoved} \<and> deadAfter t \<le> now - nLastHeartbeat n then NodeDead
         else if nStatus n = NodeAlive \<and> suspectAfter t \<le> now - nLastHeartbeat n then NodeSuspect
         else nStatus n\<rparr>))"
proof -
  have cb: "dead_node_callback onNodeDead" by unfold_locales (rule assms(3))
  have ge: "deadAfter t \<le> time_Sub now u \<longleftrightarrow> deadAfter t \<le> now - u"
      "suspectAfter t \<le> time_Sub now u \<longleftrightarrow> suspectAfter t \<le> now - u" for u
    using assms(4-6) by (intro time_Sub_ge; linarith)+
  show ?thesis
    unfolding dead_node_callback.nodes_check [OF cb assms(1,2)]
    using assms(5) by (auto simp: judged_def next_status_def Let_def ge split: option.split)
qed

theorem check_verdicts_witness:
  "let n = zero_node\<lparr>nID := ''a'', nStatus := NodeAlive, nLastHeartbeat := 0\<rparr>;
       t = \<lparr>checkInterval = 5 * second, suspectAfter = 15 * second, deadAfter = 30 * second\<rparr>;
       nord = (\<lambda>m. sorted_list_of_set (dom m)); ord = (\<lambda>_ _. [])
   in nodes (check t (31 * second) nord ord None (AddNode n NewState)) ''a'' = Some (n\<lparr>nStatus := NodeDead\<rparr>) \<and>
      nodes (check t (16 * second) nord ord None (AddNode n NewState)) ''a'' = Some (n\<lparr>nStatus := NodeSuspect\<rparr>) \<and>
      nodes (check t (14 * second) nord ord None (AddNode n NewState)) ''a'' = Some n"
proof -
  define n where "n = zero_node\<lparr>nID := ''a'', nStatus := NodeAlive, nLastHeartbeat := 0\<rparr>"
  define t where "t = \<lparr>checkInterval = 5 * second, suspectAfter = 15 * second, deadAfter = 30 * second\<rparr>"
  define s where "s = AddNode n NewState"
  have s: "wf_state s" "nodes s ''a'' = Some n"
    unfolding s_def by (rule wf_AddNode, simp) (simp add: node_table.lookup_add n_def)
  have n: "nStatus n = NodeAlive" "nLastHeartbeat n = 0" "n\<lparr>nStatus := NodeAlive\<rparr> = n"
    by (simp_all add: n_def)
  have "nodes (check t now (\<lambda>m. sorted_list_of_set (dom m)) (\<lambda>_ _. []) None s) ''a'' = Some (n\<lparr>nStatus :=
      if 30 * second \<le> now then NodeDead else if 15 * second \<le> now then NodeSuspect else NodeAlive\<rparr>)" for now
    using check_verdicts [OF s(1) chooser_sorted, of None t now "\<lambda>_ _. []" "''a''"]
    by (simp add: s(2) n t_def second_def)
  then show ?thesis
    by (simp add: Let_def flip: n_def t_def s_def) (simp add: second_def n)
qed

lemma kill_steps_from_send:
  assumes "w = \<lparr>cluster = s, recovering = R, kills = [\<lparr>ktNode = i, ktAddr = a, ktPc = KSend\<rparr>]\<rparr>"
  shows "\<exists>m. (kill_step ord f reply 0 ^^ m) w =
    \<lparr>cluster = kill_goroutine ord f reply i s, recovering = R - {i}, kills = []\<rparr>"
proof (cases reply)
  case (Inl e)
  with assms show ?thesis
    by (intro exI [of _ 2]) (simp add: kill_step_def set_pc_def kill_goroutine_def numeral_2_eq_2)
next
  case (Inr resp)
  let ?cs = "map cID (activeContainersOnNode (ord (containers s)) i s)"
  let ?step = "kill_step ord f reply 0"
  have "(?step ^^ (length ?cs + 2 + 2)) w = (?step ^^ (length ?cs + 2)) ((?step ^^ 2) w)"
    by (subst funpow_add) (simp only: comp_apply)
  also have "(?step ^^ 2) w = ?step (?step w)" by (simp add: numeral_2_eq_2)
  also have "?step (?step w) =
      \<lparr>cluster = s, recovering = R, kills = [\<lparr>ktNode = i, ktAddr = a, ktPc = KStop ?cs\<rparr>]\<rparr>"
    using assms Inr by (simp add: kill_step_def set_pc_def)
  finally show ?thesis
    using kill_steps_stop [OF refl, where ord = ord and f = f and reply = reply and s = s and R = R
        and i = i and a = a and cs = ?cs] Inr
    by (intro exI [of _ "length ?cs + 2 + 2"]) (simp add: kill_goroutine_def)
qed



text \<open>
  C9: the steps of the goroutine are a refinement of its atomic specification. From a heartbeat of a
  DEAD node on a leader, with no recovery under way, finitely many steps of the goroutine lead to
  the state \<open>kill_goroutine\<close> describes, with the node released; on a follower the node is ALIVE at
  once and no goroutine is started. Repeating the heartbeat before the goroutine moves changes
  nothing, in any state.
\<close>

theorem HandleLateHeartbeat_refines:
  assumes "nodes (cluster w) i = Some n" and "nStatus n = NodeDead" and "kills w = []"
    and "i \<notin> recovering w"
  shows "(isLeader \<noteq> Some False \<longrightarrow>
      (\<exists>m. (kill_step ord f reply 0 ^^ m) (HandleLateHeartbeat isLeader i w) =
        w\<lparr>cluster := kill_goroutine ord f reply i (cluster w)\<rparr>)) \<and>
    HandleLateHeartbeat (Some False) i w = w\<lparr>cluster := snd (SetNodeStatus i NodeAlive (cluster w))\<rparr> \<and>
    HandleLateHeartbeat l j (HandleLateHeartbeat l j v) = HandleLateHeartbeat l j v"
proof (intro conjI impI)
  assume leader: "isLeader \<noteq> Some False"
  let ?w = "HandleLateHeartbeat isLeader i w"
  have "?w = \<lparr>cluster = cluster w, recovering = insert i (recovering w),
      kills = [\<lparr>ktNode = i, ktAddr = nAddress n, ktPc = KSend\<rparr>]\<rparr>"
    using assms leader by (simp add: HandleLateHeartbeat_def GetNode_def)
  from kill_steps_from_send [OF this, of ord f reply]
  show "\<exists>m. (kill_step ord f reply 0 ^^ m) ?w =
      w\<lparr>cluster := kill_goroutine ord f reply i (cluster w)\<rparr>"
    using assms(3,4) by (cases w) auto
next
  show "HandleLateHeartbeat (Some False) i w = w\<lparr>cluster := snd (SetNodeStatus i NodeAlive (cluster w))\<rparr>"
    using assms by (simp add: HandleLateHeartbeat_def GetNode_def)
next
  show "HandleLateHeartbeat l j (HandleLateHeartbeat l j v) = HandleLateHeartbeat l j v"
    by (auto simp: HandleLateHeartbeat_def GetNode_def nodes_SetNodeStatus split: option.split)
qed

theorem HandleLateHeartbeat_refines_witness:
  "let n = zero_node\<lparr>nID := ''a'', nStatus := NodeDead\<rparr>; w = NewTolerance (AddNode n NewState)
   in \<exists>m. (kill_step (\<lambda>_. []) None (Inl ConnectError) 0 ^^ m) (HandleLateHeartbeat (Some True) ''a'' w) =
     w\<lparr>cluster := AddNode n NewState\<rparr>"
proof -
  let ?n = "zero_node\<lparr>nID := ''a'', nStatus := NodeDead\<rparr>"
  let ?w = "NewTolerance (AddNode ?n NewState)"
  have w: "nodes (cluster ?w) ''a'' = Some ?n" "nStatus ?n = NodeDead" "kills ?w = []"
      "''a'' \<notin> recovering ?w" "cluster ?w = AddNode ?n NewState"
    by (simp_all add: NewTolerance_def node_table.lookup_add)
  show ?thesis
    unfolding Let_def
    using HandleLateHeartbeat_refines [OF w(1-4), of "Some True" "\<lambda>_. []" None "Inl ConnectError"]
    by (simp add: kill_goroutine_def w(5))
qed

end
