(* ===== verification/Heartbeat.thy ===== *)
theory Heartbeat
  imports FaultTolerance
begin

text \<open>
  Heartbeats: the sender of a worker (\<open>internal/heartbeat/sender.go\<close>) and the receiver of a master
  (\<open>internal/heartbeat/receiver.go\<close>). A datagram is a parsed document, \<open>None\<close> when it is not JSON. The
  loops around them are in \<open>Processes\<close>: \<open>send\<close> is the datagram one tick produces, and
  \<open>handleHeartbeat\<close> the reaction to one datagram.
\<close>

section \<open>The sender\<close>

text \<open>\<open>None\<close>: the heartbeat cannot be marshalled and nothing is sent.\<close>

definition send ::
  "go_string \<Rightarrow> go_string \<Rightarrow> f64 \<times> f64 \<times> i64 \<times> i64 \<Rightarrow> go_string list \<Rightarrow> json option" where
  "send nodeID address metrics cs =
     (case metrics of (totalCPU, usedCPU, totalRAM, usedRAM) \<Rightarrow>
        enc_heartbeat \<lparr>hbNodeID = nodeID, hbAddress = address, hbTotalCPU = totalCPU,
          hbUsedCPU = usedCPU, hbTotalRAM = totalRAM, hbUsedRAM = usedRAM, hbContainers = cs\<rparr>)"

section \<open>The receiver\<close>

definition new_node :: "heartbeat \<Rightarrow> node" where
  "new_node hb = zero_node\<lparr>nID := hbNodeID hb, nAddress := hbAddress hb, nStatus := NodeAlive,
     nTotalCPU := hbTotalCPU hb, nUsedCPU := hbUsedCPU hb, nTotalRAM := hbTotalRAM hb,
     nUsedRAM := hbUsedRAM hb\<rparr>"

text \<open>
  The callbacks are \<open>None\<close> for nil. The one for a late heartbeat works on the whole of the fault
  tolerance module, the one for a discovery on the cluster state.
\<close>

type_synonym pool_order = "(go_string \<rightharpoonup> resource_pool) \<Rightarrow> go_string list"

definition handleHeartbeat ::
  "go_time \<Rightarrow> pool_order \<Rightarrow> (go_string \<Rightarrow> world \<Rightarrow> world) option \<Rightarrow> (go_string \<Rightarrow> state \<Rightarrow> state) option \<Rightarrow>
   json option \<Rightarrow> world \<Rightarrow> world" where
  "handleHeartbeat now pord onLateHeartbeat onNodeDiscovered data w =
     (case data of
        None \<Rightarrow> w
      | Some j \<Rightarrow>
          (let (hb, ok) = dec_heartbeat j zero_heartbeat in
           if \<not> ok then w
           else
             let w1 =
               (case GetNode (hbNodeID hb) (cluster w) of
                  None \<Rightarrow>
                    (let s1 = AddNode (new_node hb) (cluster w);
                         s2 = snd (AssignNodeToPool (pord (pools s1)) (hbNodeID hb) (new_node hb) s1);
                         s3 = (case onNodeDiscovered of None \<Rightarrow> s2 | Some f \<Rightarrow> f (hbNodeID hb) s2)
                     in w\<lparr>cluster := s3\<rparr>)
                | Some node \<Rightarrow>
                    if nStatus node = NodeDead then
                      (case onLateHeartbeat of None \<Rightarrow> w | Some f \<Rightarrow> f (hbNodeID hb) w)
                    else w)
             in w1\<lparr>cluster := snd (UpdateNodeFromHeartbeat now hb (cluster w1))\<rparr>))"

section \<open>What one datagram does\<close>

lemma new_node_simps [simp]:
  "nID (new_node hb) = hbNodeID hb" "nStatus (new_node hb) = NodeAlive"
  "nTotalCPU (new_node hb) = hbTotalCPU hb" "nTotalRAM (new_node hb) = hbTotalRAM hb"
  "nLastHeartbeat (new_node hb) = zero_time" "nContainers (new_node hb) = []"
  by (simp_all add: new_node_def zero_node_def)

lemma handleHeartbeat_decoded:
  assumes "heartbeat_ok hb"
  shows "\<exists>j. enc_heartbeat hb = Some j \<and> dec_heartbeat j zero_heartbeat = (hb, True)"
  using assms by (rule heartbeat_codec.roundtrip)

text \<open>The record of the sender after a datagram, as a function of what was known of it.\<close>

definition heard :: "bool option \<Rightarrow> go_time \<Rightarrow> heartbeat \<Rightarrow> node option \<Rightarrow> node" where
  "heard isLeader now hb known =
     \<lparr>nID = hbNodeID hb, nAddress = hbAddress hb,
      nStatus = (case known of
          None \<Rightarrow> NodeAlive
        | Some n \<Rightarrow> if nStatus n = NodeDead \<and> isLeader \<noteq> Some False then NodeDead else NodeAlive),
      nTotalCPU = hbTotalCPU hb, nUsedCPU = hbUsedCPU hb, nTotalRAM = hbTotalRAM hb,
      nUsedRAM = hbUsedRAM hb, nLastHeartbeat = now,
      nContainers = (case known of None \<Rightarrow> [] | Some n \<Rightarrow> nContainers n)\<rparr>"

lemma refresh_new_node: "refresh_node now hb (new_node hb) = heard l now hb None"
  by (simp add: refresh_node_def heard_def new_node_def zero_node_def)

lemma refresh_known:
  assumes "nID n = hbNodeID hb"
  shows "nStatus n \<noteq> NodeDead \<Longrightarrow> refresh_node now hb n = heard l now hb (Some n)"
    and "nStatus n = NodeDead \<Longrightarrow> l \<noteq> Some False \<Longrightarrow> refresh_node now hb n = heard l now hb (Some n)"
    and "refresh_node now hb (n\<lparr>nStatus := NodeAlive\<rparr>) = heard (Some False) now hb (Some n)"
  using assms by (cases n; simp add: refresh_node_def heard_def)+

lemma HandleLateHeartbeat_nodes:
  assumes "nodes (cluster w) i = Some n" and "nStatus n = NodeDead"
  shows "nodes (cluster (HandleLateHeartbeat l i w)) =
    (if l = Some False then (nodes (cluster w))(i \<mapsto> n\<lparr>nStatus := NodeAlive\<rparr>) else nodes (cluster w))"
  using assms by (simp add: HandleLateHeartbeat_def GetNode_def nodes_SetNodeStatus)

lemma HandleLateHeartbeat_frame [simp]:
  "pools (cluster (HandleLateHeartbeat l i w)) = pools (cluster w)"
  "containers (cluster (HandleLateHeartbeat l i w)) = containers (cluster w)"
  "services (cluster (HandleLateHeartbeat l i w)) = services (cluster w)"
  by (simp_all add: HandleLateHeartbeat_def split: option.split)

text \<open>What the receiver relies on: the callback for a discovery leaves nodes and pools alone.\<close>

locale discovery_callback =
  fixes onNodeDiscovered :: "(go_string \<Rightarrow> state \<Rightarrow> state) option"
  assumes nodes_discovered: "onNodeDiscovered = Some f \<Longrightarrow> nodes (f i s) = nodes s"
    and pools_discovered: "onNodeDiscovered = Some f \<Longrightarrow> pools (f i s) = pools s"
begin

lemma heartbeat_nodes:
  assumes "keyed nID (nodes (cluster w))" and "enc_heartbeat hb = Some j"
    and "dec_heartbeat j zero_heartbeat = (hb, True)"
  shows "nodes (cluster (handleHeartbeat now pord (Some (HandleLateHeartbeat l)) onNodeDiscovered
      (Some j) w)) =
    (nodes (cluster w))(hbNodeID hb \<mapsto> heard l now hb (nodes (cluster w) (hbNodeID hb)))"
proof (cases "nodes (cluster w) (hbNodeID hb)")
  case None
  then show ?thesis
    using assms(3)
    by (auto simp: handleHeartbeat_def GetNode_def nodes_UpdateNodeFromHeartbeat nodes_discovered
        node_table.lookup_add refresh_new_node [of _ _ l] Let_def split: option.split)
next
  case (Some n)
  then have id: "nID n = hbNodeID hb" by (rule keyedD [OF assms(1)])
  show ?thesis
  proof (cases "nStatus n = NodeDead")
    case True
    with Some assms(3) id show ?thesis
      by (auto simp: handleHeartbeat_def GetNode_def nodes_UpdateNodeFromHeartbeat Let_def
          HandleLateHeartbeat_nodes refresh_known(2,3))
  next
    case False
    with Some assms(3) id show ?thesis
      by (simp add: handleHeartbeat_def GetNode_def nodes_UpdateNodeFromHeartbeat refresh_known(1) [of _ _ _ l])
  qed
qed

lemma heartbeat_pools:
  assumes "enc_heartbeat hb = Some j" and "dec_heartbeat j zero_heartbeat = (hb, True)"
  shows "pools (cluster (handleHeartbeat now pord (Some (HandleLateHeartbeat l)) onNodeDiscovered
      (Some j) w)) =
    (case nodes (cluster w) (hbNodeID hb) of
       None \<Rightarrow> pools (snd (AssignNodeToPool (pord (pools (cluster w))) (hbNodeID hb) (new_node hb)
         (cluster w)))
     | Some n \<Rightarrow> pools (cluster w))"
proof -
  have eq: "pools (snd (AssignNodeToPool ord i n (AddNode m s))) = pools (snd (AssignNodeToPool ord i n s))"
    for ord i n m s
    by (simp add: AssignNodeToPool_eq first_match_def AddNode_def split: option.split)
  show ?thesis
    using assms(2)
    by (auto simp: handleHeartbeat_def GetNode_def pools_discovered Let_def eq split: option.split)
qed

end

interpretation no_discovery: discovery_callback None
  by unfold_locales simp_all

section \<open>Properties\<close>

text \<open>
  C26: from the sender to the table of nodes. A heartbeat of sane values is sent, and the master that
  receives it then has exactly one changed node record, the sender's: address and metrics are the
  sender's, the time is the time of receipt, the container list is as it was, and the status is ALIVE,
  except that a node this master holds for DEAD stays DEAD unless the master is a follower. A
  datagram that is not a heartbeat changes nothing.
\<close>

theorem heartbeat_end_to_end:
  assumes "wf_state (cluster w)"
    and "list_all valid_utf8 (nodeID # address # cs)" and "finite_f64 tc" and "finite_f64 uc"
    and "\<And>f i s. onNodeDiscovered = Some f \<Longrightarrow> nodes (f i s) = nodes s \<and> pools (f i s) = pools s"
  shows "\<exists>j. send nodeID address (tc, uc, tr, ur) cs = Some j \<and>
    nodes (cluster (handleHeartbeat now pord (Some (HandleLateHeartbeat isLeader)) onNodeDiscovered
        (Some j) w)) =
      (nodes (cluster w))(nodeID \<mapsto>
        \<lparr>nID = nodeID, nAddress = address,
         nStatus = (case nodes (cluster w) nodeID of
             None \<Rightarrow> NodeAlive
           | Some n \<Rightarrow> if nStatus n = NodeDead \<and> isLeader \<noteq> Some False then NodeDead else NodeAlive),
         nTotalCPU = tc, nUsedCPU = uc, nTotalRAM = tr, nUsedRAM = ur, nLastHeartbeat = now,
         nContainers = (case nodes (cluster w) nodeID of None \<Rightarrow> [] | Some n \<Rightarrow> nContainers n)\<rparr>) \<and>
    handleHeartbeat now pord late onNodeDiscovered None w = w \<and>
    (\<not> snd (dec_heartbeat bad zero_heartbeat) \<longrightarrow>
      handleHeartbeat now pord late onNodeDiscovered (Some bad) w = w)"
proof -
  let ?hb = "\<lparr>hbNodeID = nodeID, hbAddress = address, hbTotalCPU = tc, hbUsedCPU = uc,
    hbTotalRAM = tr, hbUsedRAM = ur, hbContainers = cs\<rparr>"
  have "heartbeat_ok ?hb" using assms(2-4) by (simp add: heartbeat_ok_def)
  then obtain j where j: "enc_heartbeat ?hb = Some j" "dec_heartbeat j zero_heartbeat = (?hb, True)"
    using handleHeartbeat_decoded by blast
  have disc: "discovery_callback onNodeDiscovered" using assms(5) by unfold_locales blast+
  have keyed: "keyed nID (nodes (cluster w))" using assms(1) by (rule wf_state_keyed(1))
  have bad: "handleHeartbeat now pord late onNodeDiscovered (Some bad) w = w"
    if "\<not> snd (dec_heartbeat bad zero_heartbeat)"
    using that by (cases "dec_heartbeat bad zero_heartbeat") (simp add: handleHeartbeat_def)
  show ?thesis
    using discovery_callback.heartbeat_nodes [OF disc keyed j, of now pord isLeader] j(1) bad
    by (intro exI [of _ j]) (simp add: send_def heard_def handleHeartbeat_def)
qed

theorem heartbeat_end_to_end_witness:
  "\<exists>j. send ''a'' ''h:1'' (Fin 8, Fin 2, 1024, 0) [] = Some j \<and>
     nodes (cluster (handleHeartbeat 7 (\<lambda>_. []) (Some (HandleLateHeartbeat None)) None (Some j)
       (NewTolerance NewState))) ''a'' =
     Some \<lparr>nID = ''a'', nAddress = ''h:1'', nStatus = NodeAlive, nTotalCPU = Fin 8, nUsedCPU = Fin 2,
       nTotalRAM = 1024, nUsedRAM = 0, nLastHeartbeat = 7, nContainers = []\<rparr>"
proof -
  have ok: "wf_state (cluster (NewTolerance NewState))" "list_all valid_utf8 [''a'', ''h:1'']"
      "finite_f64 (Fin 8)" "finite_f64 (Fin 2)"
    by (simp_all add: NewTolerance_def byte_in_def finite_f64_def)
  show ?thesis
    using heartbeat_end_to_end [OF ok, of None 1024 0 7 "\<lambda>_. []" None None JNull]
    by (auto simp: NewTolerance_def NewState_def)
qed

text \<open>
  A node joins a pool with its first heartbeat and only then. If a pool matches the reported
  totals, after the first heartbeat a matching pool lists the node; if none does, and for every
  heartbeat of a node the master already knows, no pool changes.
\<close>

theorem heartbeat_pool_membership:
  assumes "wf_state (cluster w)" and "heartbeat_ok hb" and "enc_heartbeat hb = Some j"
    and "chooser pord"
    and "\<And>f i s. onNodeDiscovered = Some f \<Longrightarrow> nodes (f i s) = nodes s \<and> pools (f i s) = pools s"
  shows "let w' = handleHeartbeat now pord (Some (HandleLateHeartbeat isLeader)) onNodeDiscovered (Some j) w;
      matching = {p \<in> ran (pools (cluster w)). MatchesNode p (new_node hb)}
    in if nodes (cluster w) (hbNodeID hb) = None \<and> matching \<noteq> {}
      then \<exists>p p'. p \<in> matching \<and> pools (cluster w') (pID p) = Some p' \<and>
        set (pNodeIDs p') = insert (hbNodeID hb) (set (pNodeIDs p)) \<and>
        (\<forall>k. k \<noteq> pID p \<longrightarrow> pools (cluster w') k = pools (cluster w) k)
      else pools (cluster w') = pools (cluster w)"
proof -
  let ?w = "handleHeartbeat now pord (Some (HandleLateHeartbeat isLeader)) onNodeDiscovered (Some j) w"
  have disc: "discovery_callback onNodeDiscovered" using assms(5) by unfold_locales blast+
  have dec: "dec_heartbeat j zero_heartbeat = (hb, True)"
    by (rule heartbeat_codec.enc_dec [OF assms(2,3)])
  note pools = discovery_callback.heartbeat_pools [OF disc assms(3) dec, of now pord isLeader w]
  have it: "iterates (pord (pools (cluster w))) (pools (cluster w))"
    using assms(1,4) by (simp add: chooserD wf_state_def)
  have key: "keyed pID (pools (cluster w))" using assms(1) by (rule wf_state_keyed(4))
  show ?thesis
  proof (cases "first_match (pord (pools (cluster w))) (new_node hb) (cluster w)")
    case None
    then have "\<forall>p\<in>ran (pools (cluster w)). \<not> MatchesNode p (new_node hb)"
      by (simp only: first_match_None_iff [OF it])
    then have "{p \<in> ran (pools (cluster w)). MatchesNode p (new_node hb)} = {}" by blast
    moreover have "pools (cluster ?w) = pools (cluster w)"
      unfolding pools using None by (simp add: AssignNodeToPool_eq split: option.split)
    ultimately show ?thesis by simp
  next
    case (Some k)
    then obtain p where p: "pools (cluster w) k = Some p" "MatchesNode p (new_node hb)"
      using first_match_SomeD by blast
    then have "p \<in> {p \<in> ran (pools (cluster w)). MatchesNode p (new_node hb)}" "pID p = k"
      using keyedD [OF key] by (auto intro: ranI)
    moreover have "pools (cluster ?w) =
        (if nodes (cluster w) (hbNodeID hb) = None
         then (pools (cluster w))(k \<mapsto> join_pool (hbNodeID hb) p) else pools (cluster w))"
      unfolding pools using Some p by (simp add: AssignNodeToPool_eq split: option.split)
    ultimately show ?thesis
      unfolding Let_def by (auto intro!: exI [of _ p])
  qed
qed

theorem heartbeat_pool_membership_witness:
  "\<exists>j. enc_heartbeat zero_heartbeat = Some j \<and>
     (\<exists>p'. pools (cluster (handleHeartbeat 7 (\<lambda>m. sorted_list_of_set (dom m)) (Some (HandleLateHeartbeat None))
        None (Some j) (NewTolerance (AddPool zero_pool NewState)))) '''' = Some p' \<and> '''' \<in> set (pNodeIDs p'))"
proof -
  let ?w = "NewTolerance (AddPool zero_pool NewState)"
  have ok: "wf_state (cluster ?w)" "heartbeat_ok zero_heartbeat"
    by (simp_all add: NewTolerance_def wf_AddPool zero_pool_def heartbeat_ok_def zero_heartbeat_def
        finite_f64_def zero_f64_def)
  then obtain j where j: "enc_heartbeat zero_heartbeat = Some j" using handleHeartbeat_decoded by blast
  have pools: "pools (cluster ?w) = ['''' \<mapsto> zero_pool]" "nodes (cluster ?w) = Map.empty"
    by (simp_all add: NewTolerance_def pool_table.lookup_add NewState_def zero_pool_def)
  have m: "MatchesNode zero_pool (new_node zero_heartbeat)" "hbNodeID zero_heartbeat = ''''" "pID zero_pool = ''''"
    by (simp_all add: MatchesNode_def zero_pool_def zero_heartbeat_def zero_f64_def less_eq_f64_def)
  show ?thesis
    using heartbeat_pool_membership [OF ok j chooser_sorted, of None 7 None] j
    by (auto simp: Let_def pools m)
qed

end
