(* ===== verification/Lifecycle.thy ===== *)
theory Lifecycle
  imports Heartbeat
begin

text \<open>
  The goroutines of a master that touch the nodes, interleaved: the receiver (one datagram at a
  time), the ticker of the failure detector, the recoveries of late nodes, and everything else as
  steps that leave the nodes alone. A step is one critical section of the cluster state or of the
  fault tolerance module, so the reader sees the program counters of \<open>handleHeartbeat\<close> and \<open>check\<close>.
\<close>

section \<open>State\<close>

datatype recv_pc =
    RIdle
  | RGet heartbeat
  | RAdd heartbeat
  | RAssign heartbeat
  | RDiscovered heartbeat
  | RLate heartbeat
  | RUpdate heartbeat

text \<open>\<open>CMark i status now ks\<close>: the pass has decided to give node \<open>i\<close> a status, and has \<open>ks\<close> to go.\<close>

datatype check_pc =
    CIdle
  | CLoop go_time "go_string list"
  | CMark go_string go_string go_time "go_string list"
  | CDead go_string go_time "go_string list"

record system =
  world_of :: world
  clock :: go_time
  rpc :: recv_pc
  cpc :: check_pc

definition sys_nodes :: "system \<Rightarrow> go_string \<rightharpoonup> node" where
  "sys_nodes S = nodes (cluster (world_of S))"

definition on_cluster :: "(state \<Rightarrow> state) \<Rightarrow> system \<Rightarrow> system" where
  "on_cluster f S = S\<lparr>world_of := (world_of S)\<lparr>cluster := f (cluster (world_of S))\<rparr>\<rparr>"

section \<open>Steps\<close>

text \<open>One step of \<open>handleHeartbeat\<close>.\<close>

definition recv_step ::
  "pool_order \<Rightarrow> bool option \<Rightarrow> (go_string \<Rightarrow> state \<Rightarrow> state) option \<Rightarrow> system \<Rightarrow> system" where
  "recv_step pord isLeader onNodeDiscovered S =
     (case rpc S of
        RIdle \<Rightarrow> S
      | RGet hb \<Rightarrow>
          S\<lparr>rpc := (case GetNode (hbNodeID hb) (cluster (world_of S)) of
             None \<Rightarrow> RAdd hb
           | Some node \<Rightarrow> if nStatus node = NodeDead then RLate hb else RUpdate hb)\<rparr>
      | RAdd hb \<Rightarrow> (on_cluster (AddNode (new_node hb)) S)\<lparr>rpc := RAssign hb\<rparr>
      | RAssign hb \<Rightarrow>
          (on_cluster (\<lambda>s. snd (AssignNodeToPool (pord (pools s)) (hbNodeID hb) (new_node hb) s)) S)
            \<lparr>rpc := RDiscovered hb\<rparr>
      | RDiscovered hb \<Rightarrow>
          (on_cluster (case onNodeDiscovered of None \<Rightarrow> id | Some f \<Rightarrow> f (hbNodeID hb)) S)\<lparr>rpc := RUpdate hb\<rparr>
      | RLate hb \<Rightarrow>
          S\<lparr>world_of := HandleLateHeartbeat isLeader (hbNodeID hb) (world_of S), rpc := RUpdate hb\<rparr>
      | RUpdate hb \<Rightarrow>
          (on_cluster (\<lambda>s. snd (UpdateNodeFromHeartbeat (clock S) hb s)) S)\<lparr>rpc := RIdle\<rparr>)"

text \<open>One step of \<open>check\<close>: a node is read without the lock, then its status is written with it.\<close>

definition check_step ::
  "tolerance \<Rightarrow> ((go_string \<rightharpoonup> node) \<Rightarrow> go_string list) \<Rightarrow> container_order \<Rightarrow> dead_callback option \<Rightarrow>
   system \<Rightarrow> system" where
  "check_step t nord ord onNodeDead S =
     (case cpc S of
        CIdle \<Rightarrow> S\<lparr>cpc := CLoop (clock S) (nord (sys_nodes S))\<rparr>
      | CLoop now [] \<Rightarrow> S\<lparr>cpc := CIdle\<rparr>
      | CLoop now (k # ks) \<Rightarrow>
          S\<lparr>cpc := (case sys_nodes S k of
             None \<Rightarrow> CLoop now ks
           | Some node \<Rightarrow>
               if nStatus node = NodeDead \<or> nStatus node = NodeRemoved then CLoop now ks
               else if deadAfter t \<le> time_Sub now (nLastHeartbeat node) then CMark (nID node) NodeDead now ks
               else if suspectAfter t \<le> time_Sub now (nLastHeartbeat node) \<and> nStatus node = NodeAlive
               then CMark (nID node) NodeSuspect now ks
               else CLoop now ks)\<rparr>
      | CMark i status now ks \<Rightarrow>
          (on_cluster (\<lambda>s. snd (SetNodeStatus i status s)) S)
            \<lparr>cpc := (if status = NodeDead then CDead i now ks else CLoop now ks)\<rparr>
      | CDead i now ks \<Rightarrow>
          (on_cluster (\<lambda>s. let cs = activeContainersOnNode (ord (containers s)) i s
             in case onNodeDead of
                  None \<Rightarrow> s
                | Some f \<Rightarrow> if cs \<noteq> [] then f i cs s else s) S)
            \<lparr>cpc := CLoop now ks\<rparr>)"

definition recovery_step ::
  "container_order \<Rightarrow> status_callback option \<Rightarrow> send_error + command_response \<Rightarrow> nat \<Rightarrow> system \<Rightarrow> system" where
  "recovery_step ord apply_status reply i S =
     S\<lparr>world_of := kill_step ord apply_status reply i (world_of S)\<rparr>"

text \<open>
  \<open>other\<close>: API requests, the retry loop, log entries applied by Raft; none of them touches a node.
  The leadership and the callbacks are fixed, the results of the network are not.
\<close>

inductive sys_step ::
  "tolerance \<Rightarrow> bool option \<Rightarrow> (go_string \<Rightarrow> state \<Rightarrow> state) option \<Rightarrow> dead_callback option \<Rightarrow>
   status_callback option \<Rightarrow> system \<Rightarrow> system \<Rightarrow> bool"
  for t isLeader onNodeDiscovered onNodeDead apply_status where
  tick: "clock S \<le> now \<Longrightarrow>
    sys_step t isLeader onNodeDiscovered onNodeDead apply_status S (S\<lparr>clock := now\<rparr>)"
| arrive: "rpc S = RIdle \<Longrightarrow>
    sys_step t isLeader onNodeDiscovered onNodeDead apply_status S (S\<lparr>rpc := RGet hb\<rparr>)"
| recv: "sys_step t isLeader onNodeDiscovered onNodeDead apply_status S
    (recv_step pord isLeader onNodeDiscovered S)"
| detect: "sys_step t isLeader onNodeDiscovered onNodeDead apply_status S
    (check_step t nord ord onNodeDead S)"
| recover: "sys_step t isLeader onNodeDiscovered onNodeDead apply_status S
    (recovery_step ord apply_status reply i S)"
| other: "nodes (f (cluster (world_of S))) = sys_nodes S \<Longrightarrow>
    sys_step t isLeader onNodeDiscovered onNodeDead apply_status S (on_cluster f S)"

inductive_cases sys_stepE: "sys_step t isLeader disc dead st S T"

definition init_system :: "state \<Rightarrow> go_time \<Rightarrow> system" where
  "init_system s now = \<lparr>world_of = NewTolerance s, clock = now, rpc = RIdle, cpc = CIdle\<rparr>"

lemma on_cluster_simps [simp]:
  "sys_nodes (on_cluster f S) = nodes (f (cluster (world_of S)))"
  "kills (world_of (on_cluster f S)) = kills (world_of S)"
  "recovering (world_of (on_cluster f S)) = recovering (world_of S)"
  "rpc (on_cluster f S) = rpc S" "cpc (on_cluster f S) = cpc S" "clock (on_cluster f S) = clock S"
  by (simp_all add: on_cluster_def sys_nodes_def)

lemma sys_nodes_frame [simp]:
  "sys_nodes (S\<lparr>rpc := r\<rparr>) = sys_nodes S" "sys_nodes (S\<lparr>cpc := c\<rparr>) = sys_nodes S"
  "sys_nodes (S\<lparr>clock := now\<rparr>) = sys_nodes S"
  by (simp_all add: sys_nodes_def)

section \<open>Mutual exclusion of the recoveries\<close>

definition mutex :: "world \<Rightarrow> bool" where
  "mutex w \<longleftrightarrow> distinct (map ktNode (kills w)) \<and> set (map ktNode (kills w)) = recovering w"

lemma mutex_HandleLateHeartbeat: "mutex w \<Longrightarrow> mutex (HandleLateHeartbeat l i w)"
  by (auto simp: mutex_def HandleLateHeartbeat_def split: option.split)

lemma map_ktNode_update [simp]:
  "map ktNode (ks[i := (ks ! i)\<lparr>ktPc := pc\<rparr>]) = map ktNode ks"
proof (cases "i < length ks")
  case True
  then have "map ktNode (ks[i := (ks ! i)\<lparr>ktPc := pc\<rparr>]) = (map ktNode ks)[i := ktNode (ks ! i)]"
    by (simp add: map_update)
  with True show ?thesis by (metis list_update_id nth_map)
qed (simp add: list_update_beyond)

lemma mutex_set_pc [simp]:
  "mutex (set_pc i pc w) = mutex w" "mutex (w\<lparr>cluster := s\<rparr>) = mutex w"
  by (simp_all add: mutex_def set_pc_def del: set_map)

lemma mutex_release:
  assumes "mutex w" and "i < length (kills w)"
  shows "mutex (w\<lparr>recovering := recovering w - {ktNode (kills w ! i)},
    kills := take i (kills w) @ drop (Suc i) (kills w)\<rparr>)"
proof -
  let ?ks = "map ktNode (kills w)"
  have eq: "?ks = take i ?ks @ ?ks ! i # drop (Suc i) ?ks"
    using assms(2) by (intro id_take_nth_drop) simp
  have d: "distinct (take i ?ks @ ?ks ! i # drop (Suc i) ?ks)" "set (take i ?ks @ ?ks ! i # drop (Suc i) ?ks) = recovering w"
    using assms(1) eq unfolding mutex_def by metis+
  then show ?thesis
    using assms(2) by (auto simp: mutex_def take_map [symmetric] drop_map [symmetric])
qed

lemma mutex_kill_step: "mutex w \<Longrightarrow> mutex (kill_step ord f reply i w)"
  by (simp add: kill_step_def Let_def mutex_release split: kill_pc.split sum.split list.split)

lemma mutex_sys_step:
  assumes "sys_step t l disc dead st S T" and "mutex (world_of S)"
  shows "mutex (world_of T)"
  using assms
proof (cases rule: sys_step.cases)
  case (recv pord)
  with assms(2) show ?thesis
    by (auto simp: recv_step_def on_cluster_def mutex_HandleLateHeartbeat split: recv_pc.split)
next
  case (detect nord ord)
  with assms(2) show ?thesis
    by (auto simp: check_step_def on_cluster_def split: check_pc.split list.split)
next
  case (recover ord reply i)
  with assms(2) show ?thesis by (simp add: recovery_step_def mutex_kill_step)
qed (simp_all add: on_cluster_def)

section \<open>What a step can do to the nodes\<close>

locale lifecycle = dead_node_callback onNodeDead + discovery_callback onNodeDiscovered
  for onNodeDead :: "dead_callback option" and onNodeDiscovered :: "(go_string \<Rightarrow> state \<Rightarrow> state) option" +
  fixes apply_status :: "status_callback option"
  assumes nodes_status: "apply_status = Some f \<Longrightarrow> nodes (f i st s) = nodes s"
begin

lemma nodes_setContainerStatus [simp]: "nodes (setContainerStatus apply_status i st s) = nodes s"
  by (simp add: setContainerStatus_def nodes_status split: option.split)

lemma kill_step_nodes:
  "nodes (cluster (kill_step ord apply_status reply j w)) = nodes (cluster w) \<or>
   j < length (kills w) \<and> ktPc (kills w ! j) = KStop [] \<and>
   nodes (cluster (kill_step ord apply_status reply j w)) =
     (nodes (cluster w))(ktNode (kills w ! j) :=
        map_option (\<lambda>n. n\<lparr>nStatus := NodeAlive\<rparr>) (nodes (cluster w) (ktNode (kills w ! j))))"
  by (auto simp: kill_step_def Let_def set_pc_def nodes_SetNodeStatus
      split: kill_pc.split sum.split list.split)

lemma sys_step_effect:
  assumes "sys_step t l onNodeDiscovered onNodeDead apply_status S T"
  obtains (keep) "sys_nodes T = sys_nodes S" and "rpc T = rpc S \<or> (\<forall>hb. rpc T \<noteq> RAdd hb) \<or>
        (\<exists>hb. rpc T = RAdd hb \<and> sys_nodes S (hbNodeID hb) = None)"
      and "cpc T = cpc S \<or> (\<forall>i st now ks. cpc T \<noteq> CMark i st now ks) \<or>
        (\<exists>i k n now ks. cpc T = CMark i NodeDead now ks \<or>
          cpc T = CMark (nID n) NodeSuspect now ks \<and> sys_nodes S k = Some n \<and> nStatus n = NodeAlive)"
  | (register) hb where "rpc S = RAdd hb" and "rpc T = RAssign hb" and "cpc T = cpc S"
      and "sys_nodes T = (sys_nodes S)(hbNodeID hb \<mapsto> new_node hb)"
  | (refresh) hb where "rpc T = RIdle" and "cpc T = cpc S"
      and "sys_nodes T = (sys_nodes S)(hbNodeID hb := map_option (refresh_node (clock S) hb) (sys_nodes S (hbNodeID hb)))"
  | (mark) i st now ks where "cpc S = CMark i st now ks" and "\<forall>i st now ks. cpc T \<noteq> CMark i st now ks"
      and "rpc T = rpc S"
      and "sys_nodes T = (sys_nodes S)(i := map_option (\<lambda>n. n\<lparr>nStatus := st\<rparr>) (sys_nodes S i))"
  | (revive) i where "rpc T = rpc S \<or> (\<forall>hb. rpc T \<noteq> RAdd hb)" and "cpc T = cpc S"
      and "sys_nodes T = (sys_nodes S)(i := map_option (\<lambda>n. n\<lparr>nStatus := NodeAlive\<rparr>) (sys_nodes S i))"
      and "l = Some False \<or> (\<exists>j<length (kills (world_of S)). ktNode (kills (world_of S) ! j) = i \<and>
        ktPc (kills (world_of S) ! j) = KStop [])"
  using assms
proof (cases rule: sys_step.cases)
  case (recv pord)
  show ?thesis
  proof (cases "rpc S")
    case RIdle
    with recv show ?thesis by (intro keep) (simp_all add: recv_step_def)
  next
    case (RGet hb)
    with recv show ?thesis
      by (intro keep)
        (auto simp: recv_step_def GetNode_def sys_nodes_def split: option.splits if_splits)
  next
    case (RAdd hb)
    with recv show ?thesis
      by (intro register [of hb]) (simp_all add: recv_step_def node_table.lookup_add, simp add: sys_nodes_def)
  next
    case (RAssign hb)
    with recv show ?thesis by (intro keep) (simp_all add: recv_step_def, simp add: sys_nodes_def)
  next
    case (RDiscovered hb)
    have "nodes ((case onNodeDiscovered of None \<Rightarrow> id | Some f \<Rightarrow> f i) s) = nodes s" for i s
      by (simp add: nodes_discovered split: option.split)
    with recv RDiscovered show ?thesis
      by (intro keep) (simp_all add: recv_step_def, simp add: sys_nodes_def)
  next
    case (RLate hb)
    have late: "sys_nodes T = nodes (cluster (HandleLateHeartbeat l (hbNodeID hb) (world_of S)))"
        "rpc T = RUpdate hb" "cpc T = cpc S"
      using recv RLate by (simp_all add: recv_step_def sys_nodes_def)
    show ?thesis
    proof (cases "nodes (cluster (HandleLateHeartbeat l (hbNodeID hb) (world_of S))) = sys_nodes S")
      case True
      with late show ?thesis by (intro keep) simp_all
    next
      case False
      with late show ?thesis
        by (intro revive [of "hbNodeID hb"])
          (auto simp: HandleLateHeartbeat_def GetNode_def nodes_SetNodeStatus sys_nodes_def
            split: option.splits if_splits)
    qed
  next
    case (RUpdate hb)
    with recv show ?thesis
      by (intro refresh [of hb])
        (simp_all add: recv_step_def nodes_UpdateNodeFromHeartbeat, simp add: sys_nodes_def)
  qed
next
  case (detect nord ord)
  show ?thesis
  proof (cases "cpc S")
    case CIdle
    with detect show ?thesis by (intro keep) (simp_all add: check_step_def)
  next
    case (CLoop now ks)
    with detect show ?thesis
      by (intro keep; cases ks)
        (auto simp: check_step_def split: option.splits if_splits)
  next
    case (CMark i st now ks)
    with detect show ?thesis
      by (intro mark [of i st now ks])
        (simp_all add: check_step_def nodes_SetNodeStatus, simp add: sys_nodes_def)
  next
    case (CDead i now ks)
    with detect show ?thesis
      by (intro keep)
        (simp_all add: check_step_def Let_def nodes_callback split: option.split, simp add: sys_nodes_def)
  qed
next
  case (recover ord reply j)
  then have eq: "sys_nodes T = nodes (cluster (kill_step ord apply_status reply j (world_of S)))"
      "rpc T = rpc S" "cpc T = cpc S" by (simp_all add: recovery_step_def sys_nodes_def)
  show ?thesis
    using kill_step_nodes [of ord reply j "world_of S"]
  proof (elim disjE)
    assume "nodes (cluster (kill_step ord apply_status reply j (world_of S))) = nodes (cluster (world_of S))"
    with eq show ?thesis by (intro keep) (simp_all add: sys_nodes_def)
  qed (use eq in \<open>intro revive [of "ktNode (kills (world_of S) ! j)"]; auto simp: sys_nodes_def\<close>)
qed (intro keep; simp)+

end

text \<open>
  The invariant of all interleavings. Only the receiver adds nodes and only the failure detector
  suspects one, so what they have read about it still holds when they write.
\<close>

definition sys_inv :: "system \<Rightarrow> bool" where
  "sys_inv S \<longleftrightarrow> keyed nID (sys_nodes S) \<and>
     (\<forall>n\<in>ran (sys_nodes S). nStatus n \<in> {NodeAlive, NodeSuspect, NodeDead}) \<and>
     (\<forall>hb. rpc S = RAdd hb \<longrightarrow> sys_nodes S (hbNodeID hb) = None) \<and>
     (\<forall>i st now ks. cpc S = CMark i st now ks \<longrightarrow> st = NodeDead \<or>
        st = NodeSuspect \<and> (\<forall>n. sys_nodes S i = Some n \<longrightarrow> nStatus n \<noteq> NodeDead))"

lemma sys_inv_init: "wf_state s \<Longrightarrow> \<forall>n\<in>ran (nodes s). nStatus n \<in> {NodeAlive, NodeSuspect, NodeDead} \<Longrightarrow>
    sys_inv (init_system s now)"
  by (simp add: sys_inv_def init_system_def sys_nodes_def NewTolerance_def wf_state_def)

lemma statuses_upd:
  assumes "\<forall>n\<in>ran m. P n" and "\<And>n. m i = Some n \<Longrightarrow> P (f n)"
  shows "\<forall>n\<in>ran (m(i := map_option f (m i))). P n"
  using assms by (auto simp: ran_def split: if_splits)

context lifecycle
begin

lemma sys_inv_step:
  assumes "sys_step t l onNodeDiscovered onNodeDead apply_status S T" and inv: "sys_inv S"
  shows "sys_inv T"
  using assms(1)
proof (cases rule: sys_step_effect)
  case keep
  have "cpc T = CMark i st now ks \<Longrightarrow> st = NodeDead \<or>
      st = NodeSuspect \<and> (\<forall>n. sys_nodes S i = Some n \<longrightarrow> nStatus n \<noteq> NodeDead)" for i st now ks
    using keep(3)
  proof (elim disjE exE)
    fix i' k n now' ks'
    assume "cpc T = CMark i st now ks"
      and "cpc T = CMark (nID n) NodeSuspect now' ks' \<and> sys_nodes S k = Some n \<and> nStatus n = NodeAlive"
    moreover from this inv have "nID n = k" by (auto simp: sys_inv_def dest: keyedD)
    ultimately show ?thesis by auto
  qed (use inv in \<open>auto simp: sys_inv_def\<close>)
  with keep(1,2) inv show ?thesis by (auto simp: sys_inv_def)
next
  case (register hb)
  with inv show ?thesis by (auto simp: sys_inv_def ran_def keyed_def)
next
  case (refresh hb)
  with inv show ?thesis
    unfolding sys_inv_def refresh(3)
    by (intro conjI keyed_map_option statuses_upd) (auto split: if_splits)
next
  case (mark i st now ks)
  with inv have "st = NodeDead \<or> st = NodeSuspect" by (auto simp: sys_inv_def)
  with mark inv show ?thesis
    unfolding sys_inv_def mark(4)
    by (intro conjI keyed_map_option statuses_upd) (auto split: if_splits)
next
  case (revive i)
  have "\<forall>hb. rpc T = RAdd hb \<longrightarrow> sys_nodes S (hbNodeID hb) = None"
    using revive(1) inv by (auto simp: sys_inv_def)
  with revive(2) inv show ?thesis
    unfolding sys_inv_def revive(3)
    by (intro conjI keyed_map_option statuses_upd) (auto split: if_splits)
qed

lemma sys_inv_reachable:
  assumes "(sys_step t l onNodeDiscovered onNodeDead apply_status)\<^sup>*\<^sup>* S T" and "sys_inv S"
  shows "sys_inv T"
  using assms by (induction rule: rtranclp_induct) (blast intro: sys_inv_step)+

lemma leaves_DEAD:
  assumes "sys_step t l onNodeDiscovered onNodeDead apply_status S T" and inv: "sys_inv S"
    and k: "sys_nodes S k = Some n" "nStatus n = NodeDead" "sys_nodes T k = Some m" "nStatus m \<noteq> NodeDead"
  shows "l = Some False \<or> (\<exists>j<length (kills (world_of S)). ktNode (kills (world_of S) ! j) = k \<and>
    ktPc (kills (world_of S) ! j) = KStop [])"
  using assms(1)
proof (cases rule: sys_step_effect)
  case (register hb)
  with inv k show ?thesis by (auto simp: sys_inv_def split: if_splits)
next
  case (mark i st now ks)
  with inv k show ?thesis by (auto simp: sys_inv_def split: if_splits)
next
  case (revive i)
  with k show ?thesis by (auto split: if_splits)
qed (use k in \<open>auto split: if_splits\<close>)

end

interpretation bare: lifecycle None None None
  by unfold_locales simp_all

lemma mutex_reachable:
  assumes "(sys_step t l disc dead st)\<^sup>*\<^sup>* S T" and "mutex (world_of S)"
  shows "mutex (world_of T)"
  using assms by (induction rule: rtranclp_induct) (blast intro: mutex_sys_step)+

text \<open>The callbacks write services, containers and the audit log at most.\<close>

definition callbacks_ok ::
  "dead_callback option \<Rightarrow> (go_string \<Rightarrow> state \<Rightarrow> state) option \<Rightarrow> status_callback option \<Rightarrow> bool" where
  "callbacks_ok dead disc st \<longleftrightarrow>
     (\<forall>f i cs s. dead = Some f \<longrightarrow> nodes (f i cs s) = nodes s) \<and>
     (\<forall>f i s. disc = Some f \<longrightarrow> nodes (f i s) = nodes s \<and> pools (f i s) = pools s) \<and>
     (\<forall>f i x s. st = Some f \<longrightarrow> nodes (f i x s) = nodes s)"

lemma callbacks_ok_None [simp]: "callbacks_ok None None None"
  by (simp add: callbacks_ok_def)

lemma callbacks_ok_lifecycle: "callbacks_ok dead disc st \<Longrightarrow> lifecycle dead disc st"
  unfolding callbacks_ok_def by unfold_locales blast+

lemma sys_inv_init_empty: "nodes s = Map.empty \<Longrightarrow> sys_inv (init_system s now)"
  by (simp add: sys_inv_def init_system_def sys_nodes_def NewTolerance_def)

lemma nodes_NewState [simp]: "nodes NewState = Map.empty"
  by (simp add: NewState_def)

section \<open>Properties\<close>

text \<open>
  In every interleaving of the receiver, the failure detector, the recoveries and the rest, at
  most one recovery goroutine is under way per node, the set \<open>recovering\<close> holds exactly the nodes
  that have one, and every node is ALIVE, SUSPECT or DEAD and filed under its own ID.
\<close>

theorem interleavings_safe:
  assumes "(sys_step t isLeader disc dead st)\<^sup>*\<^sup>* (init_system s now) S" and "nodes s = Map.empty"
    and "callbacks_ok dead disc st"
  shows "distinct (map ktNode (kills (world_of S))) \<and>
    set (map ktNode (kills (world_of S))) = recovering (world_of S) \<and>
    (\<forall>k n. sys_nodes S k = Some n \<longrightarrow> nID n = k \<and> nStatus n \<in> {NodeAlive, NodeSuspect, NodeDead})"
proof -
  have "mutex (world_of (init_system s now))"
    by (simp add: mutex_def init_system_def NewTolerance_def)
  then have mutex: "mutex (world_of S)" by (rule mutex_reachable [OF assms(1)])
  have "sys_inv S"
    by (rule lifecycle.sys_inv_reachable [OF callbacks_ok_lifecycle [OF assms(3)] assms(1)
        sys_inv_init_empty [OF assms(2)]])
  then show ?thesis
    using mutex by (auto simp: sys_inv_def mutex_def intro: ranI dest: keyedD)
qed

theorem interleavings_safe_witness:
  "set (map ktNode (kills (world_of ((init_system NewState 0)\<lparr>clock := 5\<rparr>)))) =
     recovering (world_of ((init_system NewState 0)\<lparr>clock := 5\<rparr>))"
proof -
  let ?t = "\<lparr>checkInterval = 5 * second, suspectAfter = 15 * second, deadAfter = 30 * second\<rparr>"
  have "(sys_step ?t (Some True) None None None)\<^sup>*\<^sup>* (init_system NewState 0) ((init_system NewState 0)\<lparr>clock := 5\<rparr>)"
    by (intro r_into_rtranclp sys_step.tick) (simp add: init_system_def)
  from interleavings_safe [OF this] show ?thesis by simp
qed

text \<open>
  The run in which a node is found dead at birth: the failure detector runs between the registration
  of a new node, whose time of the last heartbeat is still the zero time, and the refresh.
\<close>

definition birth_heartbeat :: heartbeat where
  "birth_heartbeat = zero_heartbeat\<lparr>hbNodeID := ''w1''\<rparr>"

definition birth_dead :: "tolerance \<Rightarrow> bool option \<Rightarrow> system \<Rightarrow> system" where
  "birth_dead t l S =
     (let recv = recv_step (\<lambda>_. []) l None;
          detect = check_step t (\<lambda>_. [''w1'']) (\<lambda>_. []) None
      in recv (recv (recv (detect (detect (detect (recv (recv (S\<lparr>rpc := RGet birth_heartbeat\<rparr>)))))))))"

lemma birth_dead_reachable:
  assumes "rpc S = RIdle"
  shows "(sys_step t l None None None)\<^sup>*\<^sup>* S (birth_dead t l S)"
proof -
  let ?R = "sys_step t l None None None"
  have recv: "?R\<^sup>*\<^sup>* S (recv_step (\<lambda>_. []) l None T)" if "?R\<^sup>*\<^sup>* S T" for T
    using that by (rule rtranclp.rtrancl_into_rtrancl) (rule sys_step.recv)
  have detect: "?R\<^sup>*\<^sup>* S (check_step t (\<lambda>_. [''w1'']) (\<lambda>_. []) None T)" if "?R\<^sup>*\<^sup>* S T" for T
    using that by (rule rtranclp.rtrancl_into_rtrancl) (rule sys_step.detect)
  show ?thesis
    unfolding birth_dead_def Let_def
    by (intro recv detect r_into_rtranclp sys_step.arrive assms)
qed

definition newborn :: "go_time \<Rightarrow> node" where
  "newborn now = new_node birth_heartbeat\<lparr>nStatus := NodeDead, nLastHeartbeat := now\<rparr>"

lemma newborn_simps [simp]:
  "nID (newborn now) = ''w1''" "nStatus (newborn now) = NodeDead" "nLastHeartbeat (newborn now) = now"
  by (simp_all add: newborn_def birth_heartbeat_def)

lemma birth_dead_eq:
  assumes "0 \<le> now" and "deadAfter t \<le> 30 * second"
  shows "birth_dead t l (init_system NewState now) =
    \<lparr>world_of = NewTolerance (NewState\<lparr>nodes := [''w1'' \<mapsto> newborn now]\<rparr>), clock = now, rpc = RIdle,
     cpc = CDead ''w1'' now []\<rparr>"
proof -
  have silent: "deadAfter t \<le> time_Sub now zero_time"
    using assms by (simp add: time_Sub_def zero_time_def second_def)
  have id: "hbNodeID birth_heartbeat = ''w1''" by (simp add: birth_heartbeat_def)
  have node: "nID (new_node birth_heartbeat) = ''w1''" "new_node birth_heartbeat\<lparr>nStatus := NodeDead,
      nAddress := hbAddress birth_heartbeat, nTotalCPU := hbTotalCPU birth_heartbeat,
      nUsedCPU := hbUsedCPU birth_heartbeat, nTotalRAM := hbTotalRAM birth_heartbeat,
      nUsedRAM := hbUsedRAM birth_heartbeat, nLastHeartbeat := now\<rparr> = newborn now"
    by (simp_all add: id new_node_def newborn_def)
  show ?thesis
    using silent node
    by (simp add: birth_dead_def Let_def recv_step_def check_step_def init_system_def NewTolerance_def
        NewState_def GetNode_def on_cluster_def sys_nodes_def AddNode_def id SetNodeStatus_def
        UpdateNodeFromHeartbeat_def)
qed

lemma birth_dead_nodes:
  assumes "0 \<le> now" and "deadAfter t \<le> 30 * second"
  shows "sys_nodes (birth_dead t l (init_system NewState now)) ''w1'' = Some (newborn now) \<and>
    rpc (birth_dead t l (init_system NewState now)) = RIdle \<and>
    clock (birth_dead t l (init_system NewState now)) = now"
  by (simp add: birth_dead_eq [OF assms] sys_nodes_def NewTolerance_def)

text \<open>A run that continues: the next heartbeat starts a recovery, which lists no container.\<close>

definition birth_recovered :: "tolerance \<Rightarrow> system \<Rightarrow> system" where
  "birth_recovered t S =
     (let recv = recv_step (\<lambda>_. []) (Some True) None;
          recover = recovery_step (\<lambda>_. []) None (Inr zero_response) 0
      in recover (recover (recv (recv ((birth_dead t (Some True) S)\<lparr>rpc := RGet birth_heartbeat\<rparr>)))))"

lemma birth_recovered_reachable:
  assumes "rpc S = RIdle" and "rpc (birth_dead t (Some True) S) = RIdle"
  shows "(sys_step t (Some True) None None None)\<^sup>*\<^sup>* S (birth_recovered t S)"
proof -
  let ?R = "sys_step t (Some True) None None None"
  have recv: "?R\<^sup>*\<^sup>* S (recv_step (\<lambda>_. []) (Some True) None T)" if "?R\<^sup>*\<^sup>* S T" for T
    using that by (rule rtranclp.rtrancl_into_rtrancl) (rule sys_step.recv)
  have recover: "?R\<^sup>*\<^sup>* S (recovery_step (\<lambda>_. []) None (Inr zero_response) 0 T)" if "?R\<^sup>*\<^sup>* S T" for T
    using that by (rule rtranclp.rtrancl_into_rtrancl) (rule sys_step.recover)
  have "?R\<^sup>*\<^sup>* S ((birth_dead t (Some True) S)\<lparr>rpc := RGet birth_heartbeat\<rparr>)"
    using birth_dead_reachable [OF assms(1)] sys_step.arrive [OF assms(2)]
    by (rule rtranclp.rtrancl_into_rtrancl)
  then show ?thesis
    unfolding birth_recovered_def Let_def by (intro recv recover)
qed

text \<open>
  C6: on a leader a DEAD node comes back only through a recovery goroutine of its own, at the step
  after the last of the containers it had to stop. No heartbeat, no pass of the failure detector, no
  new registration and no interleaving of them revives it.
\<close>

theorem leader_revives_only_by_recovery:
  assumes "(sys_step t isLeader disc dead st)\<^sup>*\<^sup>* (init_system s now) S" and "nodes s = Map.empty"
    and "callbacks_ok dead disc st"
    and "sys_step t isLeader disc dead st S T" and "isLeader \<noteq> Some False"
    and "sys_nodes S k = Some n" and "nStatus n = NodeDead"
    and "sys_nodes T k = Some m" and "nStatus m \<noteq> NodeDead"
  shows "\<exists>j<length (kills (world_of S)). ktNode (kills (world_of S) ! j) = k \<and>
    ktPc (kills (world_of S) ! j) = KStop []"
proof -
  note lc = callbacks_ok_lifecycle [OF assms(3)]
  have "sys_inv S"
    by (rule lifecycle.sys_inv_reachable [OF lc assms(1) sys_inv_init_empty [OF assms(2)]])
  from lifecycle.leaves_DEAD [OF lc assms(4) this assms(6-9)] assms(5) show ?thesis by blast
qed

theorem leader_revives_only_by_recovery_witness:
  "let t = \<lparr>checkInterval = 5 * second, suspectAfter = 15 * second, deadAfter = 30 * second\<rparr>;
       S = birth_recovered t (init_system NewState 0)
   in nStatus (the (sys_nodes S ''w1'')) = NodeDead \<and>
      (\<exists>j<length (kills (world_of S)). ktNode (kills (world_of S) ! j) = ''w1'')"
proof -
  define t where "t = \<lparr>checkInterval = 5 * second, suspectAfter = 15 * second, deadAfter = 30 * second\<rparr>"
  have t: "deadAfter t \<le> 30 * second" by (simp add: t_def)
  let ?S = "birth_recovered t (init_system NewState 0)"
  have id: "hbNodeID birth_heartbeat = ''w1''" by (simp add: birth_heartbeat_def)
  have S: "?S = \<lparr>world_of = \<lparr>cluster = NewState\<lparr>nodes := [''w1'' \<mapsto> newborn 0]\<rparr>, recovering = {''w1''},
      kills = [\<lparr>ktNode = ''w1'', ktAddr = nAddress (newborn 0), ktPc = KStop []\<rparr>]\<rparr>, clock = 0,
      rpc = RUpdate birth_heartbeat, cpc = CDead ''w1'' 0 []\<rparr>"
    by (simp add: birth_recovered_def Let_def birth_dead_eq [OF order_refl t] recv_step_def recovery_step_def
        kill_step_def set_pc_def GetNode_def HandleLateHeartbeat_def NewTolerance_def id
        activeContainersOnNode_def GetContainersByNode_def)
  have "(sys_step t (Some True) None None None)\<^sup>*\<^sup>* (init_system NewState 0) ?S"
    using birth_dead_nodes [OF order_refl t] by (intro birth_recovered_reachable) (simp_all add: init_system_def)
  moreover have "sys_step t (Some True) None None None ?S (recovery_step (\<lambda>_. []) None (Inr zero_response) 0 ?S)"
    by (rule sys_step.recover)
  moreover have "sys_nodes ?S ''w1'' = Some (newborn 0)" by (simp add: S sys_nodes_def)
  moreover have "sys_nodes (recovery_step (\<lambda>_. []) None (Inr zero_response) 0 ?S) ''w1'' =
      Some ((newborn 0)\<lparr>nStatus := NodeAlive\<rparr>)"
    by (simp add: S sys_nodes_def recovery_step_def kill_step_def set_pc_def SetNodeStatus_def Let_def)
  ultimately show ?thesis
    using leader_revives_only_by_recovery [of t "Some True" None None None NewState 0 ?S _ "''w1''"]
    by (fastforce simp: Let_def t_def)
qed

text \<open>
  The failure detector can declare a healthy new worker dead. There is a run, on a leader or on a
  follower, in which the only heartbeat of a new worker is completely processed and no time has
  passed since, and the worker is DEAD: the record it is registered with carries the zero time as
  its last heartbeat until the refresh that ends the handling of the datagram.
\<close>

theorem newborn_node_declared_dead:
  assumes "0 \<le> now" and "deadAfter t \<le> 30 * second"
  shows "\<exists>S n. (sys_step t isLeader None None None)\<^sup>*\<^sup>* (init_system NewState now) S \<and>
    rpc S = RIdle \<and> clock S = now \<and> sys_nodes S ''w1'' = Some n \<and> nStatus n = NodeDead \<and>
    nLastHeartbeat n = now"
proof -
  let ?S = "birth_dead t isLeader (init_system NewState now)"
  have "(sys_step t isLeader None None None)\<^sup>*\<^sup>* (init_system NewState now) ?S"
    by (rule birth_dead_reachable) (simp add: init_system_def)
  with birth_dead_nodes [OF assms, of isLeader] show ?thesis
    by (intro exI [of _ ?S] exI [of _ "newborn now"])
      simp
qed

theorem newborn_node_declared_dead_witness:
  "\<exists>S n. (sys_step \<lparr>checkInterval = 5 * second, suspectAfter = 15 * second, deadAfter = 30 * second\<rparr>
      (Some True) None None None)\<^sup>*\<^sup>* (init_system NewState (1700000000 * second)) S \<and>
    sys_nodes S ''w1'' = Some n \<and> nStatus n = NodeDead \<and> nLastHeartbeat n = 1700000000 * second"
  using newborn_node_declared_dead [of "1700000000 * second"
      "\<lparr>checkInterval = 5 * second, suspectAfter = 15 * second, deadAfter = 30 * second\<rparr>" "Some True"]
  by (auto simp: second_def)

end
