(* ===== verification/LoadBalancer.thy ===== *)
theory LoadBalancer
  imports ClusterState
begin

text \<open>
  The load balancers of \<open>internal/loadbalancer\<close>. A candidate is a pointer to a node: here a pair of
  an address (a position in the scheduler's working set) and the node it points to. The interface
  \<open>LoadBalancer\<close> is the locale \<open>load_balancer\<close>: what the scheduler relies on is that a balancer
  picks one of the candidates, and refuses only an empty list. Both strategies, and the choice the
  master makes between them from its \<open>-lb\<close> flag, are interpretations.
\<close>

type_synonym node_ref = "nat \<times> node"
type_synonym balancer = "node_ref list \<Rightarrow> service \<Rightarrow> node_ref option"

section \<open>Least connections\<close>

fun leastconn_loop :: "node_ref \<Rightarrow> node_ref list \<Rightarrow> node_ref" where
  "leastconn_loop best [] = best"
| "leastconn_loop best (n # ns) =
     leastconn_loop
       (if length (nContainers (snd n)) < length (nContainers (snd best)) then n else best) ns"

definition LeastConnections_SelectNode :: balancer where
  "LeastConnections_SelectNode candidates service =
     (case candidates of [] \<Rightarrow> None | c # cs \<Rightarrow> Some (leastconn_loop c cs))"

section \<open>Weighted\<close>

definition score :: "node \<Rightarrow> f64" where
  "score n =
     (let cpuScore = (if 0 < nTotalCPU n then f64_div (AvailableCPU n) (nTotalCPU n) else 0);
          ramScore = (if 0 <s nTotalRAM n
            then f64_div (f64_of_int (sint (AvailableRAM n))) (f64_of_int (sint (nTotalRAM n)))
            else 0)
      in cpuScore + ramScore)"

fun weighted_loop :: "node_ref \<Rightarrow> f64 \<Rightarrow> node_ref list \<Rightarrow> node_ref" where
  "weighted_loop best bestScore [] = best"
| "weighted_loop best bestScore (n # ns) =
     (let s = score (snd n)
      in if bestScore < s then weighted_loop n s ns else weighted_loop best bestScore ns)"

definition Weighted_SelectNode :: balancer where
  "Weighted_SelectNode candidates service =
     (case candidates of [] \<Rightarrow> None | c # cs \<Rightarrow> Some (weighted_loop c (score (snd c)) cs))"

section \<open>The strategy of the master\<close>

definition lb_of_flag :: "go_string \<Rightarrow> balancer" where
  "lb_of_flag lbStrategy =
     (if lbStrategy = ''weighted'' then Weighted_SelectNode else LeastConnections_SelectNode)"

section \<open>The interface\<close>

locale load_balancer =
  fixes select :: balancer
  assumes select_None_iff: "select cs svc = None \<longleftrightarrow> cs = []"
    and select_in: "select cs svc = Some r \<Longrightarrow> r \<in> set cs"
begin

lemma select_total: "cs \<noteq> [] \<Longrightarrow> \<exists>r\<in>set cs. select cs svc = Some r"
proof -
  assume "cs \<noteq> []"
  then obtain r where "select cs svc = Some r"
    using select_None_iff [of cs svc] by (cases "select cs svc") auto
  then show ?thesis using select_in by blast
qed

lemma select_singleton: "select [r] svc = Some r"
  using select_total [of "[r]" svc] by simp

end

lemma leastconn_loop_in: "leastconn_loop best ns \<in> insert best (set ns)"
  by (induction best ns rule: leastconn_loop.induct) (auto split: if_splits)

lemma weighted_loop_in: "weighted_loop best b ns \<in> insert best (set ns)"
  by (induction best b ns rule: weighted_loop.induct) (auto simp: Let_def split: if_splits)

lemma leastconn_in: "LeastConnections_SelectNode cs svc = Some r \<Longrightarrow> r \<in> set cs"
  using leastconn_loop_in [of "hd cs" "tl cs"]
  by (cases cs) (auto simp: LeastConnections_SelectNode_def simp del: leastconn_loop.simps)

lemma weighted_in: "Weighted_SelectNode cs svc = Some r \<Longrightarrow> r \<in> set cs"
  using weighted_loop_in [of "hd cs" "score (snd (hd cs))" "tl cs"]
  by (cases cs) (auto simp: Weighted_SelectNode_def simp del: weighted_loop.simps)

interpretation leastconn: load_balancer LeastConnections_SelectNode
  by unfold_locales
    (simp add: LeastConnections_SelectNode_def split: list.split, erule leastconn_in)

interpretation weighted: load_balancer Weighted_SelectNode
  by unfold_locales (simp add: Weighted_SelectNode_def split: list.split, erule weighted_in)

interpretation flag: load_balancer "lb_of_flag strategy" for strategy
  by (cases "strategy = ''weighted''")
    (simp_all add: lb_of_flag_def weighted.load_balancer_axioms leastconn.load_balancer_axioms)

section \<open>What each strategy optimises\<close>

lemma leastconn_loop_least:
  "length (nContainers (snd (leastconn_loop best ns)))
     \<le> Min (insert (length (nContainers (snd best))) ((\<lambda>n. length (nContainers (snd n))) ` set ns))"
proof (induction best ns rule: leastconn_loop.induct)
  case (2 best n ns)
  then show ?case by auto
qed simp

lemma leastconn_minimal:
  assumes "LeastConnections_SelectNode cs svc = Some r" and "c \<in> set cs"
  shows "length (nContainers (snd r)) \<le> length (nContainers (snd c))"
proof (cases cs)
  case (Cons d ds)
  with assms leastconn_loop_least [of d ds] show ?thesis
    by (auto simp: LeastConnections_SelectNode_def)
qed (use assms in simp)

lemma f64_less_trans: "(a :: f64) < b \<Longrightarrow> \<not> a < c \<Longrightarrow> \<not> b < c"
  unfolding less_f64_def by (cases a; cases b; cases c) auto

lemma f64_less_irrefl [simp]: "\<not> (x :: f64) < x"
  by (cases x) (simp_all add: less_f64_def)

lemma weighted_loop_max:
  assumes "b = score (snd best)"
  shows "(\<forall>n\<in>set ns. \<not> score (snd (weighted_loop best b ns)) < score (snd n)) \<and>
     (\<forall>x. \<not> b < x \<longrightarrow> \<not> score (snd (weighted_loop best b ns)) < x)"
  using assms
proof (induction best b ns rule: weighted_loop.induct)
  case (2 best b n ns)
  show ?case
  proof (cases "b < score (snd n)")
    case True
    let ?w = "score (snd (weighted_loop n (score (snd n)) ns))"
    have "(\<forall>m\<in>set ns. \<not> ?w < score (snd m)) \<and> (\<forall>x. \<not> score (snd n) < x \<longrightarrow> \<not> ?w < x)"
      using "2.IH"(1) True by simp
    with True show ?thesis
      by (simp add: Let_def) (meson f64_less_irrefl f64_less_trans)
  next
    case False
    with 2 show ?thesis by (simp add: Let_def)
  qed
qed simp

lemma weighted_maximal:
  assumes "Weighted_SelectNode cs svc = Some r" and "c \<in> set cs"
  shows "\<not> score (snd r) < score (snd c)"
proof (cases cs)
  case (Cons d ds)
  with assms weighted_loop_max [of "score (snd d)" d ds] show ?thesis
    by (auto simp: Weighted_SelectNode_def simp del: weighted_loop.simps)
qed (use assms in simp)

subsection \<open>The score lies between 0 and 2\<close>

lemma f64_of_rat_small:
  assumes "0 \<le> x" and "x \<le> y" and "rnd y = y" and "y < 2 ^ 1024"
  shows "f64_of_rat x = Fin (rnd x)" and "0 \<le> rnd x" and "rnd x \<le> y"
proof -
  show ge: "0 \<le> rnd x" using assms(1) by (rule rnd_nonneg)
  show le: "rnd x \<le> y" using rnd_mono [OF assms(2)] assms(3) by simp
  have "- (2 ^ 1024) < (0 :: rat)" by simp
  then show "f64_of_rat x = Fin (rnd x)"
    using le ge assms(4) unfolding f64_of_rat_def Let_def by auto
qed

lemma f64_ratio_unit:
  assumes "0 \<le> a" and "a \<le> b" and "0 < b"
  shows "\<exists>v. f64_div (Fin a) (Fin b) = Fin v \<and> 0 \<le> v \<and> v \<le> 1"
proof -
  have "rnd 1 = 1" using rnd_of_int [of 1] by simp
  moreover have "0 \<le> a / b" "a / b \<le> 1" using assms by simp_all
  ultimately show ?thesis
    using f64_of_rat_small [of "a / b" 1] assms(3) by simp
qed

lemma rnd_of_int_mono: "m \<le> n \<Longrightarrow> rnd (of_int m) \<le> rnd (of_int n)"
  by (intro rnd_mono) simp

lemma rnd_of_int_pos: "0 < n \<Longrightarrow> 0 < rnd (of_int n)"
  using rnd_of_int_mono [of 1 n] rnd_of_int [of 1] by simp

lemma rnd_pow63: "rnd (2 ^ 63) = 2 ^ 63"
  using rnd_grid [of 1 63] by simp

lemma f64_of_int_i64:
  assumes "0 \<le> n" and "n < 2 ^ 63"
  shows "f64_of_int n = Fin (rnd (of_int n))" and "0 \<le> rnd (of_int n)"
proof -
  have "(of_int n :: rat) < of_int (2 ^ 63)" using assms(2) by (simp only: of_int_less_iff)
  then have "(of_int n :: rat) \<le> 2 ^ 63" by simp
  then show "f64_of_int n = Fin (rnd (of_int n))" "0 \<le> rnd (of_int n)"
    using assms(1) f64_of_rat_small [OF _ _ rnd_pow63, of "of_int n"] by (simp_all add: f64_of_int_def)
qed

lemma AvailableCPU_range:
  assumes "nTotalCPU n = Fin t" and "nUsedCPU n = Fin u" and "f64_ok (Fin t)"
    and "0 \<le> u" and "u \<le> t"
  shows "\<exists>a. AvailableCPU n = Fin a \<and> 0 \<le> a \<and> a \<le> t"
proof -
  have "t < 2 ^ 1024" "rnd t = t" using assms(3) by auto
  then show ?thesis
    using f64_of_rat_small [of "t - u" t] assms by (simp add: AvailableCPU_def f64_minus_Fin)
qed

lemma f64_unit_sum:
  assumes "0 \<le> x" "x \<le> 1" "0 \<le> y" "y \<le> 1"
  shows "\<exists>v. Fin x + Fin y = Fin v \<and> 0 \<le> v \<and> v \<le> 2"
proof -
  have "rnd 2 = 2" using rnd_of_int [of 2] by simp
  then show ?thesis
    using f64_of_rat_small [of "x + y" 2] assms by (simp add: f64_plus_Fin)
qed

definition sane_capacity :: "node \<Rightarrow> bool" where
  "sane_capacity n \<longleftrightarrow>
     (case (nTotalCPU n, nUsedCPU n) of
        (Fin t, Fin u) \<Rightarrow> f64_ok (Fin t) \<and> f64_ok (Fin u) \<and> 0 \<le> u \<and> u \<le> t
      | _ \<Rightarrow> False) \<and>
     0 \<le> sint (nUsedRAM n) \<and> sint (nUsedRAM n) \<le> sint (nTotalRAM n)"

lemma score_range:
  assumes "sane_capacity n"
  shows "\<exists>v. score n = Fin v \<and> 0 \<le> v \<and> v \<le> 2"
proof -
  obtain t u where cpu: "nTotalCPU n = Fin t" "nUsedCPU n = Fin u" "f64_ok (Fin t)" "0 \<le> u" "u \<le> t"
    using assms by (auto simp: sane_capacity_def split: f64.splits)
  have ram: "0 \<le> sint (nUsedRAM n)" "sint (nUsedRAM n) \<le> sint (nTotalRAM n)"
    using assms by (simp_all add: sane_capacity_def)
  obtain c where c: "(if 0 < nTotalCPU n then f64_div (AvailableCPU n) (nTotalCPU n) else 0) = Fin c"
      "0 \<le> c" "c \<le> 1"
  proof (cases "0 < t")
    case True
    obtain a where "AvailableCPU n = Fin a" "0 \<le> a" "a \<le> t"
      using AvailableCPU_range [OF cpu] by blast
    with f64_ratio_unit [of a t] True cpu(1) show ?thesis
      by (auto simp: zero_f64_def intro: that)
  next
    case False
    with cpu(1) show ?thesis by (intro that [of 0]) (simp_all add: zero_f64_def)
  qed
  obtain r where r: "(if 0 <s nTotalRAM n
        then f64_div (f64_of_int (sint (AvailableRAM n))) (f64_of_int (sint (nTotalRAM n)))
        else 0) = Fin r" "0 \<le> r" "r \<le> 1"
  proof (cases "0 <s nTotalRAM n")
    case True
    then have pos: "0 < sint (nTotalRAM n)" by (simp add: word_sless_alt)
    have av: "sint (AvailableRAM n) = sint (nTotalRAM n) - sint (nUsedRAM n)"
      using ram by (simp add: AvailableRAM_def sint_diff_nonneg)
    have i: "f64_of_int (sint (AvailableRAM n)) = Fin (rnd (of_int (sint (AvailableRAM n))))"
        "0 \<le> rnd (of_int (sint (AvailableRAM n)))"
        "f64_of_int (sint (nTotalRAM n)) = Fin (rnd (of_int (sint (nTotalRAM n))))"
      using av ram sint_i64_range(2) [of "AvailableRAM n"] sint_i64_range(2) [of "nTotalRAM n"]
      by (intro f64_of_int_i64; linarith)+
    have "0 < rnd (of_int (sint (nTotalRAM n)))" using pos by (rule rnd_of_int_pos)
    moreover have "rnd (of_int (sint (AvailableRAM n))) \<le> rnd (of_int (sint (nTotalRAM n)))"
      using av ram by (intro rnd_of_int_mono) linarith
    ultimately obtain r where r: "0 \<le> r" "r \<le> 1"
        "f64_div (Fin (rnd (of_int (sint (AvailableRAM n)))))
           (Fin (rnd (of_int (sint (nTotalRAM n))))) = Fin r"
      using f64_ratio_unit [OF i(2)] by blast
    show ?thesis
      by (rule that [of r]) (simp_all only: True if_True i(1,3) r)
  next
    case False
    then show ?thesis by (intro that [of 0]) (simp_all add: zero_f64_def)
  qed
  show ?thesis
    using f64_unit_sum [OF c(2,3) r(2,3)] unfolding score_def Let_def c(1) r(1) .
qed

section \<open>Properties\<close>

lemma leastconn_loop_scan:
  "leastconn_loop b ns =
     scan (\<lambda>x y. length (nContainers (snd x)) < length (nContainers (snd y))) b ns"
  by (induction b ns rule: leastconn_loop.induct) simp_all

lemma weighted_loop_scan:
  "weighted_loop b (score (snd b)) ns = scan (\<lambda>x y. score (snd y) < score (snd x)) b ns"
  by (induction ns arbitrary: b) (simp_all add: Let_def)

definition score_value :: "node \<Rightarrow> rat" where
  "score_value n = (case score n of Fin v \<Rightarrow> v | _ \<Rightarrow> 0)"

lemma score_value: "sane_capacity n \<Longrightarrow> score n = Fin (score_value n)"
  using score_range [of n] by (auto simp: score_value_def)

text \<open>
  \<open>LeastConnections\<close> returns the first of the candidates with the fewest containers: every
  candidate before it has more, none after it has fewer; with no candidates it returns nil.
\<close>

theorem LeastConnections_first_minimum:
  "case LeastConnections_SelectNode cs svc of
     None \<Rightarrow> cs = []
   | Some r \<Rightarrow> \<exists>ys zs. cs = ys @ r # zs \<and>
       (\<forall>y\<in>set ys. length (nContainers (snd r)) < length (nContainers (snd y))) \<and>
       (\<forall>z\<in>set zs. length (nContainers (snd r)) \<le> length (nContainers (snd z)))"
proof (cases cs)
  case (Cons c cs')
  have "first_least (\<lambda>r. length (nContainers (snd r))) (leastconn_loop c cs') (c # cs')"
    unfolding leastconn_loop_scan by (rule scan_first_least) simp
  with Cons show ?thesis by (simp add: LeastConnections_SelectNode_def first_least_def)
qed (simp add: LeastConnections_SelectNode_def)

theorem LeastConnections_first_minimum_witness:
  "let n = zero_node\<lparr>nID := ''n1'', nContainers := [zero_container, zero_container]\<rparr>;
       m = zero_node\<lparr>nID := ''n2'', nContainers := [zero_container]\<rparr>
   in LeastConnections_SelectNode [(0, n), (1, m)] zero_service = Some (1, m) \<and>
     (\<exists>ys zs. [(0, n), (1, m)] = ys @ (1 :: nat, m) # zs)"
proof -
  let ?n = "zero_node\<lparr>nID := ''n1'', nContainers := [zero_container, zero_container]\<rparr>"
  let ?m = "zero_node\<lparr>nID := ''n2'', nContainers := [zero_container]\<rparr>"
  have eq: "LeastConnections_SelectNode [(0, ?n), (1, ?m)] zero_service = Some (1, ?m)"
    by (simp add: LeastConnections_SelectNode_def)
  have "\<exists>ys zs. [(0, ?n), (1, ?m)] = ys @ (1 :: nat, ?m) # zs"
    using LeastConnections_first_minimum [of "[(0, ?n), (1, ?m)]" zero_service]
    unfolding eq option.case by blast
  with eq show ?thesis by (simp only: Let_def simp_thms)
qed

text \<open>
  On nodes that report sane totals, \<open>Weighted\<close> returns the first of the candidates with the
  highest score, and every score lies between 0 and 2: each of the two quotients is in \<open>[0, 1]\<close>,
  rounding included.
\<close>

theorem Weighted_first_maximum:
  assumes "\<forall>c\<in>set cs. sane_capacity (snd c)" and "cs \<noteq> []"
  shows "\<exists>r ys zs. Weighted_SelectNode cs svc = Some r \<and> cs = ys @ r # zs \<and>
     (\<forall>y\<in>set ys. score (snd y) < score (snd r)) \<and>
     (\<forall>z\<in>set zs. score (snd z) \<le> score (snd r)) \<and>
     (\<forall>c\<in>set cs. 0 \<le> score (snd c) \<and> score (snd c) \<le> Fin 2)"
proof -
  obtain c cs' where cs: "cs = c # cs'" using assms(2) by (cases cs) auto
  have val: "score (snd x) = Fin (score_value (snd x))" if "x \<in> set cs" for x
    using assms(1) that by (simp add: score_value)
  have less: "score (snd y) < score (snd x) \<longleftrightarrow> - score_value (snd x) < - score_value (snd y)"
    if "x \<in> set cs" "y \<in> set cs" for x y
    using val that by (simp add: less_f64_def)
  let ?r = "weighted_loop c (score (snd c)) cs'"
  have "first_least (\<lambda>r. - score_value (snd r)) ?r cs"
    unfolding cs weighted_loop_scan using less cs by (intro scan_first_least) simp
  then obtain ys zs where sp: "cs = ys @ ?r # zs"
      "\<forall>y\<in>set ys. score_value (snd y) < score_value (snd ?r)"
      "\<forall>z\<in>set zs. score_value (snd z) \<le> score_value (snd ?r)"
    by (auto simp: first_least_def)
  have mem: "?r \<in> set cs" "set ys \<subseteq> set cs" "set zs \<subseteq> set cs"
    by (subst sp(1), simp)+ (use sp(1) in \<open>auto simp del: weighted_loop.simps\<close>)
  have sel: "Weighted_SelectNode cs svc = Some ?r" by (simp add: Weighted_SelectNode_def cs)
  have before: "\<forall>y\<in>set ys. score (snd y) < score (snd ?r)"
    using sp(2) mem less by fastforce
  have after: "score (snd z) \<le> score (snd ?r)" if z: "z \<in> set zs" for z
  proof -
    have "z \<in> set cs" using z mem(3) by blast
    then show ?thesis
      using sp(3) z by (simp add: less_eq_f64_def val [of z] val [OF mem(1)])
  qed
  have range: "\<forall>c\<in>set cs. 0 \<le> score (snd c) \<and> score (snd c) \<le> Fin 2"
    using assms(1) score_range by (fastforce simp: less_eq_f64_def zero_f64_def)
  show ?thesis
    by (intro exI [of _ ?r] exI [of _ ys] exI [of _ zs] conjI)
      (rule sel, rule sp(1), rule before, rule ballI, erule after, rule range)
qed

theorem Weighted_first_maximum_witness:
  "let n = \<lparr>nID = ''n1'', nAddress = '''', nStatus = NodeAlive, nTotalCPU = Fin 8, nUsedCPU = Fin 2,
      nTotalRAM = 16384, nUsedRAM = 4096, nLastHeartbeat = 0, nContainers = []\<rparr>
   in 0 \<le> score n \<and> score n \<le> Fin 2"
proof -
  let ?n = "\<lparr>nID = ''n1'', nAddress = '''', nStatus = NodeAlive, nTotalCPU = Fin 8, nUsedCPU = Fin 2,
      nTotalRAM = 16384, nUsedRAM = 4096, nLastHeartbeat = 0, nContainers = []\<rparr>"
  have "sane_capacity ?n" by (simp add: sane_capacity_def)
  then have "\<forall>c\<in>set [(0, ?n)]. 0 \<le> score (snd c) \<and> score (snd c) \<le> Fin 2"
    using Weighted_first_maximum [of "[(0, ?n)]"] by fastforce
  then show ?thesis by (simp only: Let_def list.set ball_simps snd_conv)
qed

end
