(* ===== verification/Scheduler.thy ===== *)
theory Scheduler
  imports LoadBalancer
begin

text \<open>
  The scheduler of \<open>internal/scheduler/scheduler.go\<close>. \<open>Plan\<close> builds working copies of the alive
  nodes of the pool, then places the replicas one after the other; a placement changes the copy it
  is made on. The working set is a list, a pointer to a working copy is its position, and the plan
  is a list of such pointers, read at the end (as the caller does).
\<close>

section \<open>The working copies\<close>

datatype plan_error =
    NoNodesInPool go_string
  | CanPlaceOnly int int f64 i64
  | BalancerReturnedNoNode
  | PanicMakeslice
  | PanicNilMap

type_synonym port_table = "go_string \<rightharpoonup> int set"

fun collect_ports :: "state \<Rightarrow> container list \<Rightarrow> int set \<Rightarrow> int set" where
  "collect_ports s [] ports = ports"
| "collect_ports s (ctr # ctrs) ports =
     (case GetService (cServiceID ctr) s of
        None \<Rightarrow> collect_ports s ctrs ports
      | Some svc \<Rightarrow> collect_ports s ctrs (ports \<union> set (sPorts svc)))"

text \<open>
  \<open>ord i\<close> is the order in which the call of \<open>GetActiveContainersByNode\<close> for the \<open>i\<close>-th node of the
  pool visits the containers.
\<close>

fun working_copies ::
  "(nat \<Rightarrow> go_string list) \<Rightarrow> nat \<Rightarrow> state \<Rightarrow> node list \<Rightarrow> node list \<times> port_table \<Rightarrow>
   node list \<times> port_table" where
  "working_copies ord i s [] acc = acc"
| "working_copies ord i s (pn # pns) (working, usedPorts) =
     (if \<not> IsAlive pn then working_copies ord (Suc i) s pns (working, usedPorts)
      else
        let c = pn\<lparr>nContainers := GetActiveContainersByNode (ord i) (nID pn) s\<rparr>;
            ports = collect_ports s (nContainers c) {}
        in working_copies ord (Suc i) s pns (working @ [c], usedPorts(nID c \<mapsto> ports)))"

section \<open>Placing the replicas\<close>

fun portConflict :: "int set \<Rightarrow> int list \<Rightarrow> bool" where
  "portConflict used [] = False"
| "portConflict used (p # ps) = (if p \<in> used then True else portConflict used ps)"

text \<open>Reading a missing key of \<open>usedPorts\<close> gives a nil map, in which no port is set.\<close>

definition ports_at :: "port_table \<Rightarrow> go_string \<Rightarrow> int set" where
  "ports_at up i = (case up i of None \<Rightarrow> {} | Some ps \<Rightarrow> ps)"

definition fits :: "service \<Rightarrow> int set \<Rightarrow> node \<Rightarrow> bool" where
  "fits service used c \<longleftrightarrow>
     sRequiredCPU service \<le> AvailableCPU c \<and> sRequiredRAM service <=s AvailableRAM c \<and>
     \<not> portConflict used (sPorts service)"

definition candidates :: "service \<Rightarrow> node list \<Rightarrow> port_table \<Rightarrow> node_ref list" where
  "candidates service working up =
     filter (\<lambda>r. fits service (ports_at up (nID (snd r))) (snd r))
       (zip [0..<length working] working)"

definition place_on :: "service \<Rightarrow> node \<Rightarrow> node" where
  "place_on service node =
     node\<lparr>nUsedCPU := nUsedCPU node + sRequiredCPU service,
       nUsedRAM := nUsedRAM node + sRequiredRAM service,
       nContainers := nContainers node @
         [\<lparr>cID = '''', cServiceID = sID service, cNodeID = '''', cDockerID = '''',
           cStatus = ContainerScheduled, cStartedAt = zero_time\<rparr>]\<rparr>"

text \<open>Writing a port into the nil map of a missing key panics.\<close>

definition bind_ports :: "port_table \<Rightarrow> go_string \<Rightarrow> int list \<Rightarrow> port_table option" where
  "bind_ports up i ps =
     (case up i of
        None \<Rightarrow> if ps = [] then Some up else None
      | Some used \<Rightarrow> Some (up(i \<mapsto> used \<union> set ps)))"

text \<open>\<open>i\<close> replicas are placed, \<open>m\<close> remain, \<open>plan\<close> points to the nodes chosen so far.\<close>

fun Plan_loop ::
  "balancer \<Rightarrow> service \<Rightarrow> nat \<Rightarrow> nat \<Rightarrow> node list \<Rightarrow> port_table \<Rightarrow> nat list \<Rightarrow>
   plan_error + (nat list \<times> node list)" where
  "Plan_loop lb service i 0 working up plan = Inr (plan, working)"
| "Plan_loop lb service i (Suc m) working up plan =
     (let cs = candidates service working up in
      if cs = [] then
        Inl (CanPlaceOnly (int i) (int (i + Suc m)) (sRequiredCPU service) (sRequiredRAM service))
      else
        case lb cs service of
          None \<Rightarrow> Inl BalancerReturnedNoNode
        | Some (k, _) \<Rightarrow>
            (let node = place_on service (working ! k) in
             case bind_ports up (nID node) (sPorts service) of
               None \<Rightarrow> Inl PanicNilMap
             | Some up' \<Rightarrow>
                 Plan_loop lb service (Suc i) m (working[k := node]) up' (plan @ [k])))"

definition Plan ::
  "balancer \<Rightarrow> (nat \<Rightarrow> go_string list) \<Rightarrow> state \<Rightarrow> service \<Rightarrow> int \<Rightarrow> plan_error + node list" where
  "Plan lb ord s service n =
     (let poolNodes = GetPoolNodes (sPoolID service) s in
      if poolNodes = [] then Inl (NoNodesInPool (sPoolID service))
      else
        let (working, usedPorts) = working_copies ord 0 s poolNodes ([], Map.empty) in
        if n < 0 then Inl PanicMakeslice
        else
          case Plan_loop lb service 0 (nat n) working usedPorts [] of
            Inl e \<Rightarrow> Inl e
          | Inr (plan, working') \<Rightarrow> Inr (map (\<lambda>k. working' ! k) plan))"

text \<open>\<open>Schedule\<close> reads \<open>plan[0]\<close> of a plan for one replica, which a successful plan has.\<close>

definition Schedule ::
  "balancer \<Rightarrow> (nat \<Rightarrow> go_string list) \<Rightarrow> state \<Rightarrow> service \<Rightarrow> plan_error + node" where
  "Schedule lb ord s service =
     (case Plan lb ord s service 1 of
        Inl e \<Rightarrow> Inl e
      | Inr plan \<Rightarrow> Inr (hd plan))"

section \<open>The working copies mirror the pool\<close>

lemma set_collect_ports:
  "collect_ports s ctrs P =
     P \<union> {p. \<exists>c\<in>set ctrs. \<exists>svc. GetService (cServiceID c) s = Some svc \<and> p \<in> set (sPorts svc)}"
  by (induction s ctrs P rule: collect_ports.induct) (auto split: option.splits)

lemma portConflict_iff [simp]: "portConflict used ps \<longleftrightarrow> used \<inter> set ps \<noteq> {}"
  by (induction ps) auto

text \<open>Ports of the active containers a node runs, as the state records them.\<close>

definition active_on :: "state \<Rightarrow> go_string \<Rightarrow> container \<Rightarrow> bool" where
  "active_on s i c \<longleftrightarrow>
     c \<in> ran (containers s) \<and> cNodeID c = i \<and> cStatus c \<in> {ContainerRunning, ContainerScheduled}"

definition bound_ports :: "state \<Rightarrow> go_string \<Rightarrow> int set" where
  "bound_ports s i =
     {p. \<exists>c svc. active_on s i c \<and> services s (cServiceID c) = Some svc \<and> p \<in> set (sPorts svc)}"

lemma set_GetActiveContainersByNode:
  "iterates ord (containers s) \<Longrightarrow>
     set (GetActiveContainersByNode ord i s) = {c. active_on s i c}"
  by (auto simp: GetActiveContainersByNode_def active_on_def)

lemma collect_ports_active:
  "iterates ord (containers s) \<Longrightarrow>
     collect_ports s (GetActiveContainersByNode ord i s) {} = bound_ports s i"
  by (simp add: set_collect_ports set_GetActiveContainersByNode bound_ports_def GetService_def)

lemma working_copies_eq:
  assumes "orders ord (containers s)"
  shows "\<exists>cs. fst (working_copies ord i s pns (w, up)) =
        w @ map (\<lambda>(n, c). n\<lparr>nContainers := c\<rparr>) (zip (filter IsAlive pns) cs) \<and>
      length cs = length (filter IsAlive pns) \<and>
      (\<forall>j<length cs. set (cs ! j) = {c. active_on s (nID (filter IsAlive pns ! j)) c}) \<and>
      snd (working_copies ord i s pns (w, up)) =
        (\<lambda>x. if x \<in> nID ` set (filter IsAlive pns) then Some (bound_ports s x) else up x)"
proof (induction pns arbitrary: i w up)
  case (Cons pn pns)
  show ?case
  proof (cases "IsAlive pn")
    case True
    let ?c = "GetActiveContainersByNode (ord i) (nID pn) s"
    let ?up = "up(nID pn \<mapsto> bound_ports s (nID pn))"
    obtain cs where cs: "fst (working_copies ord (Suc i) s pns (w @ [pn\<lparr>nContainers := ?c\<rparr>], ?up)) =
          (w @ [pn\<lparr>nContainers := ?c\<rparr>]) @
            map (\<lambda>(n, c). n\<lparr>nContainers := c\<rparr>) (zip (filter IsAlive pns) cs)"
        "length cs = length (filter IsAlive pns)"
        "\<forall>j<length cs. set (cs ! j) = {c. active_on s (nID (filter IsAlive pns ! j)) c}"
        "snd (working_copies ord (Suc i) s pns (w @ [pn\<lparr>nContainers := ?c\<rparr>], ?up)) =
          (\<lambda>x. if x \<in> nID ` set (filter IsAlive pns) then Some (bound_ports s x) else ?up x)"
      using Cons.IH by blast
    from True cs assms show ?thesis
      by (intro exI [of _ "?c # cs"])
        (auto simp: Let_def collect_ports_active set_GetActiveContainersByNode nth_Cons
          split: nat.split)
  next
    case False
    with Cons.IH [of "Suc i" w up] show ?thesis by simp
  qed
qed simp

section \<open>Rules for the placement loop\<close>

lemma place_on_simps [simp]:
  "nID (place_on svc n) = nID n" "nAddress (place_on svc n) = nAddress n"
  "nStatus (place_on svc n) = nStatus n" "nTotalCPU (place_on svc n) = nTotalCPU n"
  "nTotalRAM (place_on svc n) = nTotalRAM n"
  "nUsedCPU (place_on svc n) = nUsedCPU n + sRequiredCPU svc"
  "nUsedRAM (place_on svc n) = nUsedRAM n + sRequiredRAM svc"
  by (simp_all add: place_on_def)

lemma set_enumerate: "r \<in> set (zip [0..<length w] w) \<longleftrightarrow> fst r < length w \<and> snd r = w ! fst r"
  by (cases r) (auto simp: in_set_zip intro!: exI [of _ "fst r"])

lemma candidates_iff:
  "r \<in> set (candidates svc w up) \<longleftrightarrow>
     fst r < length w \<and> snd r = w ! fst r \<and> fits svc (ports_at up (nID (w ! fst r))) (w ! fst r)"
  by (auto simp: candidates_def set_enumerate)

lemma ports_at_bind:
  "bind_ports up i ps = Some up' \<Longrightarrow>
     ports_at up' j = (if j = i then ports_at up i \<union> set ps else ports_at up j)"
  by (auto simp: bind_ports_def ports_at_def split: option.splits if_splits)

lemma bind_ports_dom: "bind_ports up i ps = Some up' \<Longrightarrow> dom up \<subseteq> dom up'"
  by (auto simp: bind_ports_def split: option.splits if_splits)

lemma bind_ports_Some: "i \<in> dom up \<Longrightarrow> \<exists>up'. bind_ports up i ps = Some up'"
  by (auto simp: bind_ports_def)

text \<open>What a placement never changes: the identities, statuses and totals of the working set.\<close>

definition same_nodes :: "node list \<Rightarrow> node list \<Rightarrow> bool" where
  "same_nodes w0 w \<longleftrightarrow> length w = length w0 \<and> (\<forall>j<length w0.
     nID (w ! j) = nID (w0 ! j) \<and> nAddress (w ! j) = nAddress (w0 ! j) \<and>
     nStatus (w ! j) = nStatus (w0 ! j) \<and> nTotalCPU (w ! j) = nTotalCPU (w0 ! j) \<and>
     nTotalRAM (w ! j) = nTotalRAM (w0 ! j))"

text \<open>
  What the placements have consumed: RAM exactly (signed, without wrap-around), CPU in floating
  point, and the requested ports at most once per node.
\<close>

definition ram_used :: "service \<Rightarrow> node list \<Rightarrow> node list \<Rightarrow> nat list \<Rightarrow> bool" where
  "ram_used svc w0 w plan \<longleftrightarrow> length w = length w0 \<and> (\<forall>j<length w0.
     nTotalRAM (w ! j) = nTotalRAM (w0 ! j) \<and>
     sint (nUsedRAM (w ! j)) =
       sint (nUsedRAM (w0 ! j)) + int (count_list plan j) * sint (sRequiredRAM svc) \<and>
     (j \<in> set plan \<longrightarrow> sint (nUsedRAM (w ! j)) \<le> sint (nTotalRAM (w ! j))))"

definition cpu_used :: "node list \<Rightarrow> node list \<Rightarrow> nat list \<Rightarrow> bool" where
  "cpu_used w0 w plan \<longleftrightarrow> length w = length w0 \<and> (\<forall>j<length w0.
     nTotalCPU (w ! j) = nTotalCPU (w0 ! j) \<and>
     (\<exists>u. nUsedCPU (w ! j) = Fin u \<and> f64_ok (Fin u) \<and> 0 \<le> u) \<and>
     (j \<in> set plan \<longrightarrow> nUsedCPU (w ! j) \<le> nTotalCPU (w ! j)))"

definition ports_used ::
  "service \<Rightarrow> node list \<Rightarrow> port_table \<Rightarrow> node list \<Rightarrow> port_table \<Rightarrow> nat list \<Rightarrow> bool" where
  "ports_used svc w0 up0 w up plan \<longleftrightarrow>
     map nID w = map nID w0 \<and> set plan \<subseteq> {..<length w0} \<and>
     (sPorts svc \<noteq> [] \<longrightarrow> distinct plan) \<and>
     (\<forall>j<length w0. ports_at up (nID (w0 ! j)) =
        ports_at up0 (nID (w0 ! j)) \<union> (if j \<in> set plan then set (sPorts svc) else {})) \<and>
     (\<forall>j\<in>set plan. ports_at up0 (nID (w0 ! j)) \<inter> set (sPorts svc) = {})"

lemma ram_used_place:
  assumes inv: "ram_used svc w0 w plan" and k: "k < length w"
    and fit: "fits svc P (w ! k)"
    and pos: "0 \<le> sint (sRequiredRAM svc)" "0 \<le> sint (nUsedRAM (w0 ! k))" "0 \<le> sint (nTotalRAM (w0 ! k))"
  shows "ram_used svc w0 (w[k := place_on svc (w ! k)]) (plan @ [k])"
proof -
  let ?n = "w ! k" and ?r = "sint (sRequiredRAM svc)"
  have used: "0 \<le> sint (nUsedRAM ?n)" and tot: "nTotalRAM ?n = nTotalRAM (w0 ! k)"
    using inv k pos by (auto simp: ram_used_def)
  have "?r \<le> sint (nTotalRAM ?n - nUsedRAM ?n)"
    using fit by (simp add: fits_def AvailableRAM_def word_sle_eq)
  then have le: "sint (nUsedRAM ?n) + ?r \<le> sint (nTotalRAM ?n)"
    using used pos(3) tot by (simp add: sint_diff_nonneg)
  then have "sint (nUsedRAM ?n + sRequiredRAM svc) = sint (nUsedRAM ?n) + ?r"
    using used pos(1) sint_i64_range(2) [of "nTotalRAM ?n"]
    by (intro sint_add_bounded) linarith+
  with le inv k show ?thesis
    by (auto simp: ram_used_def nth_list_update algebra_simps)
qed

lemma cpu_used_place:
  assumes inv: "cpu_used w0 w plan" and k: "k < length w" and fit: "fits svc P (w ! k)"
    and t: "nTotalCPU (w0 ! k) = Fin (of_int t)" "0 \<le> t" "t < 2 ^ 52"
    and r: "sRequiredCPU svc = Fin r" "0 \<le> r" "f64_ok (Fin r)"
  shows "cpu_used w0 (w[k := place_on svc (w ! k)]) (plan @ [k])"
proof -
  obtain u where u: "nUsedCPU (w ! k) = Fin u" "f64_ok (Fin u)" "0 \<le> u"
    using inv k by (auto simp: cpu_used_def)
  have tk: "nTotalCPU (w ! k) = Fin (of_int t)"
    using inv k t(1) by (simp add: cpu_used_def)
  have "Fin r \<le> Fin (of_int t) - Fin u"
    using fit by (simp add: fits_def AvailableCPU_def tk u(1) r(1))
  then obtain v where "Fin u + Fin r = Fin v" "0 \<le> v" "v \<le> of_int t" "f64_ok (Fin v)"
    using f64_placement_le_total [OF u(3,2) t(2,3) r(2,3)] by blast
  with inv k tk u(1) r(1) show ?thesis
    by (auto simp: cpu_used_def nth_list_update)
qed

lemma ports_used_place:
  assumes inv: "ports_used svc w0 up0 w up plan" and k: "k < length w"
    and fit: "fits svc (ports_at up (nID (w ! k))) (w ! k)"
    and bind: "bind_ports up (nID (w ! k)) (sPorts svc) = Some up'"
    and ids: "distinct (map nID w0)"
  shows "ports_used svc w0 up0 (w[k := place_on svc (w ! k)]) up' (plan @ [k])"
proof -
  have eq: "map nID w = map nID w0" using inv by (simp add: ports_used_def)
  then have len: "length w = length w0" by (rule map_eq_imp_length_eq)
  have id: "nID (w ! j) = nID (w0 ! j)" if "j < length w0" for j
    using eq len that by (metis nth_map)
  have same: "nID (w0 ! j) = nID (w0 ! k) \<longleftrightarrow> j = k" if "j < length w0" for j
    using ids k len that by (metis distinct_conv_nth length_map nth_map)
  have free: "ports_at up (nID (w0 ! k)) \<inter> set (sPorts svc) = {}"
    using fit id k len by (simp add: fits_def)
  have at': "ports_at up' (nID (w0 ! j)) =
      (if j = k then ports_at up (nID (w0 ! k)) \<union> set (sPorts svc) else ports_at up (nID (w0 ! j)))"
    if "j < length w0" for j
    using ports_at_bind [OF bind] same that id k len by simp
  have "map nID (w[k := place_on svc (w ! k)]) = (map nID w)[k := map nID w ! k]"
    using k by (simp add: map_update)
  then have "map nID (w[k := place_on svc (w ! k)]) = map nID w0"
    by (simp only: list_update_id eq)
  moreover have "k \<notin> set plan" if "sPorts svc \<noteq> []"
    using inv free k len that by (auto simp: ports_used_def)
  ultimately show ?thesis
    using inv free k len at' by (auto simp: ports_used_def)
qed

context load_balancer
begin

text \<open>
  One iteration: the loop goes on from a node that fits, and a node that fits is found whenever
  there is one. All other facts on the loop are proved from this case analysis.
\<close>

lemma Plan_loop_step:
  obtains (stop) "candidates svc w up = []"
      and "Plan_loop select svc i (Suc m) w up plan =
        Inl (CanPlaceOnly (int i) (int (i + Suc m)) (sRequiredCPU svc) (sRequiredRAM svc))"
  | (panic) k where "k < length w" and "nID (w ! k) \<notin> dom up"
      and "Plan_loop select svc i (Suc m) w up plan = Inl PanicNilMap"
  | (go) k up' where "k < length w" and "fits svc (ports_at up (nID (w ! k))) (w ! k)"
      and "bind_ports up (nID (w ! k)) (sPorts svc) = Some up'"
      and "Plan_loop select svc i (Suc m) w up plan =
        Plan_loop select svc (Suc i) m (w[k := place_on svc (w ! k)]) up' (plan @ [k])"
proof (cases "candidates svc w up = []")
  case True
  then show ?thesis by (intro stop) simp_all
next
  case False
  then obtain r where r: "select (candidates svc w up) svc = Some r" "r \<in> set (candidates svc w up)"
    using select_total by blast
  obtain k n where rk: "r = (k, n)" by (cases r)
  have k: "k < length w" "fits svc (ports_at up (nID (w ! k))) (w ! k)"
    using r(2) by (auto simp: candidates_iff rk)
  show ?thesis
  proof (cases "bind_ports up (nID (w ! k)) (sPorts svc)")
    case None
    then have "nID (w ! k) \<notin> dom up" by (auto simp: bind_ports_def split: option.splits)
    with None False r(1) k(1) rk show ?thesis by (intro panic) simp_all
  next
    case (Some up')
    with False r(1) rk k show ?thesis by (intro go) (simp_all add: Let_def)
  qed
qed

lemma Plan_loop_invariant:
  assumes "Plan_loop select svc i m w up plan = Inr (plan', w')" and "P w up plan"
    and "\<And>w up plan k up'. P w up plan \<Longrightarrow> k < length w \<Longrightarrow>
      fits svc (ports_at up (nID (w ! k))) (w ! k) \<Longrightarrow>
      bind_ports up (nID (w ! k)) (sPorts svc) = Some up' \<Longrightarrow>
      P (w[k := place_on svc (w ! k)]) up' (plan @ [k])"
  shows "\<exists>up'. P w' up' plan'"
  using assms(1,2)
proof (induction m arbitrary: i w up plan)
  case (Suc m)
  show ?case
  proof (cases rule: Plan_loop_step [of svc w up i m plan])
    case (go k up')
    with Suc show ?thesis using assms(3) by metis
  qed (use Suc.prems in simp_all)
qed auto

lemma Plan_loop_length:
  "Plan_loop select svc i m w up plan = Inr (plan', w') \<Longrightarrow>
     length plan' = length plan + m \<and> length w' = length w"
proof (induction m arbitrary: i w up plan)
  case (Suc m)
  show ?case
  proof (cases rule: Plan_loop_step [of svc w up i m plan])
    case (go k up')
    with Suc show ?thesis by fastforce
  qed (use Suc.prems in simp_all)
qed simp

lemma Plan_loop_same_nodes:
  assumes "Plan_loop select svc i m w up [] = Inr (plan', w')"
  shows "same_nodes w w' \<and> set plan' \<subseteq> {..<length w}"
proof -
  let ?P = "\<lambda>v (up :: port_table) plan. same_nodes w v \<and> set plan \<subseteq> {..<length w}"
  have "\<exists>up'. ?P w' up' plan'"
  proof (rule Plan_loop_invariant [where P = ?P, OF assms])
    show "same_nodes w w \<and> set [] \<subseteq> {..<length w}" by (simp add: same_nodes_def)
  qed (auto simp: same_nodes_def nth_list_update)
  then show ?thesis by blast
qed

lemma Plan_loop_ram_used:
  assumes "Plan_loop select svc i m w up [] = Inr (plan', w')" and "0 \<le> sint (sRequiredRAM svc)"
    and "\<forall>n\<in>set w. 0 \<le> sint (nUsedRAM n) \<and> 0 \<le> sint (nTotalRAM n)"
  shows "ram_used svc w w' plan'"
proof -
  let ?P = "\<lambda>v (up :: port_table) plan. ram_used svc w v plan"
  have "\<exists>up'. ?P w' up' plan'"
  proof (rule Plan_loop_invariant [where P = ?P, OF assms(1)])
    show "ram_used svc w w []" by (simp add: ram_used_def)
  next
    fix v and up :: port_table and plan k up'
    assume inv: "ram_used svc w v plan" and k: "k < length v"
      and fit: "fits svc (ports_at up (nID (v ! k))) (v ! k)"
    have "w ! k \<in> set w" using inv k by (simp add: ram_used_def)
    with assms(2,3) show "ram_used svc w (v[k := place_on svc (v ! k)]) (plan @ [k])"
      by (intro ram_used_place [OF inv k fit]) auto
  qed
  then show ?thesis by blast
qed

lemma Plan_loop_cpu_used:
  assumes "Plan_loop select svc i m w up [] = Inr (plan', w')"
    and r: "sRequiredCPU svc = Fin r" "0 \<le> r" "f64_ok (Fin r)"
    and w: "\<forall>n\<in>set w. (\<exists>t u. nTotalCPU n = Fin (of_int t) \<and> 0 \<le> t \<and> t < 2 ^ 52 \<and>
      nUsedCPU n = Fin u \<and> f64_ok (Fin u) \<and> 0 \<le> u)"
  shows "cpu_used w w' plan'"
proof -
  let ?P = "\<lambda>v (up :: port_table) plan. cpu_used w v plan"
  have "\<exists>up'. ?P w' up' plan'"
  proof (rule Plan_loop_invariant [where P = ?P, OF assms(1)])
    show "cpu_used w w []" using w by (fastforce simp: cpu_used_def)
  next
    fix v and up :: port_table and plan k up'
    assume inv: "cpu_used w v plan" and k: "k < length v"
      and fit: "fits svc (ports_at up (nID (v ! k))) (v ! k)"
    have "w ! k \<in> set w" using inv k by (simp add: cpu_used_def)
    with w obtain t where "nTotalCPU (w ! k) = Fin (of_int t)" "0 \<le> t" "t < 2 ^ 52" by blast
    then show "cpu_used w (v[k := place_on svc (v ! k)]) (plan @ [k])"
      by (intro cpu_used_place [OF inv k fit _ _ _ r])
  qed
  then show ?thesis by blast
qed

lemma Plan_loop_ports_used:
  assumes "Plan_loop select svc i m w up [] = Inr (plan', w')" and "distinct (map nID w)"
  shows "\<exists>up'. ports_used svc w up w' up' plan'"
proof (rule Plan_loop_invariant [where P = "ports_used svc w up", OF assms(1)])
  show "ports_used svc w up w up []" by (simp add: ports_used_def)
next
  fix v up1 plan k up'
  assume "ports_used svc w up v up1 plan" "k < length v"
    "fits svc (ports_at up1 (nID (v ! k))) (v ! k)"
    "bind_ports up1 (nID (v ! k)) (sPorts svc) = Some up'"
  then show "ports_used svc w up (v[k := place_on svc (v ! k)]) up' (plan @ [k])"
    using ports_used_place assms(2) by blast
qed

end

section \<open>How many replicas fit\<close>

text \<open>
  \<open>room svc b n P\<close> is the number of replicas, at most \<open>b\<close>, that can be placed one after the other on
  the node \<open>n\<close> alone, whose bound ports are \<open>P\<close>: the code's own test and update, iterated.
\<close>

fun room :: "service \<Rightarrow> nat \<Rightarrow> node \<Rightarrow> int set \<Rightarrow> nat" where
  "room svc 0 n P = 0"
| "room svc (Suc b) n P =
     (if fits svc P n then Suc (room svc b (place_on svc n) (P \<union> set (sPorts svc))) else 0)"

lemma room_le: "room svc b n P \<le> b"
  by (induction svc b n P rule: room.induct) simp_all

lemma room_Suc_ge: "room svc b n P \<le> room svc (Suc b) n P"
  by (induction svc b n P rule: room.induct) simp_all

lemma room_stop: "room svc b n P < b \<Longrightarrow> room svc (Suc b) n P = room svc b n P"
  by (induction svc b n P rule: room.induct) (auto split: if_splits)

lemma fits_containers: "fits svc P (n\<lparr>nContainers := cs\<rparr>) = fits svc P n"
  by (simp add: fits_def AvailableCPU_def AvailableRAM_def)

lemma room_containers: "room svc b (n\<lparr>nContainers := cs\<rparr>) P = room svc b n P"
proof (induction b arbitrary: n cs P)
  case (Suc b)
  have "place_on svc (n\<lparr>nContainers := cs\<rparr>) = (place_on svc n)
      \<lparr>nContainers := nContainers (place_on svc (n\<lparr>nContainers := cs\<rparr>))\<rparr>"
    by (simp add: place_on_def)
  then show ?case by (metis Suc.IH fits_containers room.simps(2))
qed simp

definition total_room :: "service \<Rightarrow> nat \<Rightarrow> node list \<Rightarrow> port_table \<Rightarrow> nat" where
  "total_room svc b w up = (\<Sum>j<length w. room svc b (w ! j) (ports_at up (nID (w ! j))))"

text \<open>Placing one replica on a node that fits uses up exactly one unit of the total room.\<close>

lemma total_room_place:
  assumes k: "k < length w" and fit: "fits svc (ports_at up (nID (w ! k))) (w ! k)"
    and bind: "bind_ports up (nID (w ! k)) (sPorts svc) = Some up'"
    and ids: "distinct (map nID w)"
  defines "w' \<equiv> w[k := place_on svc (w ! k)]"
  shows "min (Suc m) (total_room svc (Suc m) w up) = Suc (min m (total_room svc m w' up'))"
proof -
  let ?f = "\<lambda>b j. room svc b (w ! j) (ports_at up (nID (w ! j)))"
  let ?rest = "{..<length w} - {k}"
  have "ports_at up' (nID (w ! j)) = ports_at up (nID (w ! j))" if "j \<in> ?rest" for j
    using ports_at_bind [OF bind] ids k that by (auto simp: distinct_conv_nth)
  then have rest: "(\<Sum>j\<in>?rest. room svc m (w' ! j) (ports_at up' (nID (w' ! j)))) = (\<Sum>j\<in>?rest. ?f m j)"
    by (intro sum.cong) (auto simp: w'_def)
  define c where "c = room svc m (place_on svc (w ! k)) (ports_at up (nID (w ! k)) \<union> set (sPorts svc))"
  have whole: "total_room svc (Suc m) w up = Suc c + (\<Sum>j\<in>?rest. ?f (Suc m) j)"
    using k fit by (simp add: total_room_def c_def sum.remove [of _ k])
  have "total_room svc m w' up' = room svc m (w' ! k) (ports_at up' (nID (w' ! k))) +
      (\<Sum>j\<in>?rest. room svc m (w' ! j) (ports_at up' (nID (w' ! j))))"
    using k by (simp add: total_room_def w'_def sum.remove)
  moreover have "room svc m (w' ! k) (ports_at up' (nID (w' ! k))) = c"
    using k by (simp add: w'_def c_def ports_at_bind [OF bind])
  ultimately have whole': "total_room svc m w' up' = c + (\<Sum>j\<in>?rest. ?f m j)"
    using rest by simp
  show ?thesis
  proof (cases "\<exists>j\<in>?rest. ?f m j = m")
    case True
    then obtain j where j: "j \<in> ?rest" "?f m j = m" by blast
    then have "m \<le> (\<Sum>j\<in>?rest. ?f m j)"
      using member_le_sum [of j ?rest "?f m"] by simp
    moreover have "(\<Sum>j\<in>?rest. ?f m j) \<le> (\<Sum>j\<in>?rest. ?f (Suc m) j)"
      by (intro sum_mono room_Suc_ge)
    ultimately show ?thesis using whole whole' by linarith
  next
    case False
    then have "?f m j < m" if "j \<in> ?rest" for j
      using that room_le [of svc m "w ! j" "ports_at up (nID (w ! j))"] by force
    then have "(\<Sum>j\<in>?rest. ?f (Suc m) j) = (\<Sum>j\<in>?rest. ?f m j)"
      by (intro sum.cong refl room_stop) simp
    with whole whole' show ?thesis by linarith
  qed
qed

context load_balancer
begin

text \<open>
  The outcome of the loop is decided by the total room alone: it places all the replicas if that
  many fit, and otherwise stops after exactly as many as fit, whatever the balancer chooses.
\<close>

lemma Plan_loop_outcome:
  assumes "distinct (map nID w)" and "nID ` set w \<subseteq> dom up"
  shows "if m \<le> total_room svc m w up
    then \<exists>r. Plan_loop select svc i m w up plan = Inr r
    else Plan_loop select svc i m w up plan =
      Inl (CanPlaceOnly (int i + int (total_room svc m w up)) (int (i + m)) (sRequiredCPU svc)
        (sRequiredRAM svc))"
  using assms
proof (induction m arbitrary: i w up plan)
  case (Suc m)
  show ?case
  proof (cases rule: Plan_loop_step [of svc w up i m plan])
    case stop
    have "room svc (Suc m) (w ! j) (ports_at up (nID (w ! j))) = 0" if "j < length w" for j
      using stop(1) that candidates_iff [of "(j, w ! j)" svc w up] by simp
    then have "total_room svc (Suc m) w up = 0" by (simp add: total_room_def)
    with stop(2) show ?thesis by simp
  next
    case (panic k)
    with Suc.prems(2) show ?thesis using nth_mem by blast
  next
    case (go k up')
    let ?w = "w[k := place_on svc (w ! k)]"
    have ids: "map nID ?w = map nID w"
      using go(1) by (metis list_update_id map_update nth_map place_on_simps(1))
    then have "nID ` set ?w = nID ` set w" by (metis list.set_map)
    with Suc.prems ids go(3) have IH: "if m \<le> total_room svc m ?w up'
        then \<exists>r. Plan_loop select svc (Suc i) m ?w up' (plan @ [k]) = Inr r
        else Plan_loop select svc (Suc i) m ?w up' (plan @ [k]) =
          Inl (CanPlaceOnly (int (Suc i) + int (total_room svc m ?w up')) (int (Suc i + m))
            (sRequiredCPU svc) (sRequiredRAM svc))"
      using bind_ports_dom [OF go(3)] by (intro Suc.IH) auto
    have "min (Suc m) (total_room svc (Suc m) w up) = Suc (min m (total_room svc m ?w up'))"
      using go Suc.prems(1) by (intro total_room_place)
    then have iff: "Suc m \<le> total_room svc (Suc m) w up \<longleftrightarrow> m \<le> total_room svc m ?w up'"
      and eq: "\<not> m \<le> total_room svc m ?w up' \<Longrightarrow>
        total_room svc (Suc m) w up = Suc (total_room svc m ?w up')"
      by linarith+
    show ?thesis
      using IH unfolding go(4) iff by (auto simp: eq split: if_splits)
  qed
qed simp

end

section \<open>The plan, seen from the state\<close>

definition alive_pool_nodes :: "go_string \<Rightarrow> state \<Rightarrow> node list" where
  "alive_pool_nodes poolID s = filter IsAlive (GetPoolNodes poolID s)"

lemma GetPoolNodes_lookup:
  assumes "wf_state s" and "n \<in> set (GetPoolNodes p s)"
  shows "nodes s (nID n) = Some n" and "\<exists>pool. pools s p = Some pool \<and> nID n \<in> set (pNodeIDs pool)"
proof -
  obtain pool k where "pools s p = Some pool" "k \<in> set (pNodeIDs pool)" "nodes s k = Some n"
    using assms(2) by (cases "pools s p") (auto simp: GetPoolNodes_def set_range_vals)
  moreover from this have "nID n = k" using wf_state_keyed(1) [OF assms(1)] by (auto dest: keyedD)
  ultimately show "nodes s (nID n) = Some n" "\<exists>pool. pools s p = Some pool \<and> nID n \<in> set (pNodeIDs pool)"
    by auto
qed

lemma distinct_keys_range_vals:
  assumes "keyed key m"
  shows "distinct ks \<Longrightarrow> key ` set (range_vals ks m) \<subseteq> set ks \<and> distinct (map key (range_vals ks m))"
proof (induction ks)
  case (Cons k ks)
  with assms show ?case by (cases "m k") (auto dest: keyedD)
qed simp

lemma distinct_GetPoolNodes:
  assumes "wf_state s"
  shows "distinct (map nID (GetPoolNodes p s))"
proof (cases "pools s p")
  case (Some pool)
  then have "distinct (pNodeIDs pool)" using assms by (auto simp: wf_state_def ran_def)
  then show ?thesis
    using distinct_keys_range_vals [OF wf_state_keyed(1) [OF assms]] by (simp add: GetPoolNodes_def Some)
qed (simp add: GetPoolNodes_def)

lemma alive_pool_nodes_props:
  assumes "wf_state s"
  shows "distinct (map nID (alive_pool_nodes p s))"
    and "n \<in> set (alive_pool_nodes p s) \<Longrightarrow> nodes s (nID n) = Some n \<and> IsAlive n"
  using distinct_GetPoolNodes [OF assms, of p] GetPoolNodes_lookup [OF assms]
  by (auto simp: alive_pool_nodes_def distinct_map_filter)

text \<open>The working set: one copy per alive node of the pool, with that node's bound ports.\<close>

definition working_set :: "state \<Rightarrow> node list \<Rightarrow> node list \<Rightarrow> port_table \<Rightarrow> bool" where
  "working_set s alive w up \<longleftrightarrow> length w = length alive \<and>
     (\<forall>j<length w. \<exists>cs. w ! j = (alive ! j)\<lparr>nContainers := cs\<rparr> \<and>
        set cs = {c. active_on s (nID (alive ! j)) c}) \<and>
     (\<forall>j<length w. ports_at up (nID (alive ! j)) = bound_ports s (nID (alive ! j))) \<and>
     map nID w = map nID alive \<and> nID ` set w \<subseteq> dom up"

lemma working_copies_working_set:
  assumes "orders ord (containers s)"
  shows "\<exists>w up. working_copies ord 0 s (GetPoolNodes p s) ([], Map.empty) = (w, up) \<and>
    working_set s (alive_pool_nodes p s) w up"
proof -
  let ?A = "alive_pool_nodes p s"
  obtain w up where wu: "working_copies ord 0 s (GetPoolNodes p s) ([], Map.empty) = (w, up)"
    by (cases "working_copies ord 0 s (GetPoolNodes p s) ([], Map.empty)")
  obtain cs where w: "w = map (\<lambda>(n, c). n\<lparr>nContainers := c\<rparr>) (zip ?A cs)"
    and len: "length cs = length ?A"
    and act: "\<forall>j<length cs. set (cs ! j) = {c. active_on s (nID (?A ! j)) c}"
    and up: "up = (\<lambda>x. if x \<in> nID ` set ?A then Some (bound_ports s x) else None)"
    using working_copies_eq [where ord = ord and s = s and i = 0 and pns = "GetPoolNodes p s"
        and w = "[]" and up = Map.empty, OF assms]
    by (auto simp: wu alive_pool_nodes_def)
  have "map nID w = map nID ?A" using len by (intro nth_equalityI) (simp_all add: w)
  moreover from this have "nID ` set w = nID ` set ?A" by (metis list.set_map)
  ultimately have "working_set s ?A w up"
    unfolding working_set_def using len act up
    by (auto simp: w ports_at_def)
  with wu show ?thesis by blast
qed

lemma working_set_copy:
  assumes "wf_state s" and "working_set s (alive_pool_nodes p s) w up" and "j < length w"
  shows "\<exists>n0 cs. w ! j = n0\<lparr>nContainers := cs\<rparr> \<and> nodes s (nID n0) = Some n0 \<and>
    n0 \<in> set (alive_pool_nodes p s) \<and> ports_at up (nID n0) = bound_ports s (nID n0)"
proof -
  let ?n0 = "alive_pool_nodes p s ! j"
  have "?n0 \<in> set (alive_pool_nodes p s)" using assms(2,3) by (simp add: working_set_def)
  moreover from this have "nodes s (nID ?n0) = Some ?n0"
    using alive_pool_nodes_props(2) [OF assms(1)] by blast
  moreover obtain cs where "w ! j = ?n0\<lparr>nContainers := cs\<rparr>" using assms(2,3) by (auto simp: working_set_def)
  moreover have "ports_at up (nID ?n0) = bound_ports s (nID ?n0)" using assms(2,3) by (simp add: working_set_def)
  ultimately show ?thesis by blast
qed

lemma working_set_member:
  assumes "wf_state s" and "working_set s (alive_pool_nodes p s) w up" and "m \<in> set w"
  shows "\<exists>n0\<in>ran (nodes s). \<exists>cs. m = n0\<lparr>nContainers := cs\<rparr>"
proof -
  obtain j where j: "j < length w" "m = w ! j" using assms(3) by (metis in_set_conv_nth)
  obtain n0 cs where "w ! j = n0\<lparr>nContainers := cs\<rparr>" and "nodes s (nID n0) = Some n0"
    using working_set_copy [OF assms(1,2) j(1)] by blast
  moreover from this(2) have "n0 \<in> ran (nodes s)" by (rule ranI)
  ultimately show ?thesis using j(2) by blast
qed

lemma total_room_working_set:
  assumes "working_set s alive w up"
  shows "total_room svc b w up = (\<Sum>n\<leftarrow>alive. room svc b n (bound_ports s (nID n)))"
proof -
  have "room svc b (w ! j) (ports_at up (nID (w ! j))) =
      room svc b (alive ! j) (bound_ports s (nID (alive ! j)))" if "j < length w" for j
    using assms that by (auto simp: working_set_def room_containers)
  then show ?thesis
    using assms by (simp add: total_room_def working_set_def sum_list_sum_nth atLeast0LessThan)
qed

lemma count_plan:
  assumes "distinct (map nID w)" and "j < length w" and "set idx \<subseteq> {..<length w}"
  shows "count_list (map (\<lambda>k. nID (w ! k)) idx) (nID (w ! j)) = count_list idx j"
  using assms(3)
proof (induction idx)
  case (Cons k idx)
  then have "nID (w ! k) = nID (w ! j) \<longleftrightarrow> k = j"
    using assms(1,2) by (auto simp: distinct_conv_nth)
  with Cons show ?case by simp
qed simp

text \<open>The facts every result on a successful plan starts from.\<close>

context load_balancer
begin

lemma Plan_InrE:
  assumes "Plan select ord s svc n = Inr plan" and "orders ord (containers s)"
  obtains w up idx w' where "working_set s (alive_pool_nodes (sPoolID svc) s) w up"
    and "Plan_loop select svc 0 (nat n) w up [] = Inr (idx, w')"
    and "plan = map (\<lambda>k. w' ! k) idx" and "0 \<le> n"
    and "same_nodes w w'" and "set idx \<subseteq> {..<length w}" and "length idx = nat n"
proof -
  obtain w up where wu: "working_copies ord 0 s (GetPoolNodes (sPoolID svc) s) ([], Map.empty) = (w, up)"
      "working_set s (alive_pool_nodes (sPoolID svc) s) w up"
    using working_copies_working_set [OF assms(2), of "sPoolID svc"] by blast
  have n: "0 \<le> n"
    using assms(1) by (auto simp: Plan_def wu(1) Let_def split: if_splits)
  with assms(1) obtain idx w' where loop: "Plan_loop select svc 0 (nat n) w up [] = Inr (idx, w')"
      and plan: "plan = map (\<lambda>k. w' ! k) idx"
    by (auto simp: Plan_def wu(1) Let_def split: if_splits sum.splits)
  show ?thesis
    using that [OF wu(2) loop plan n] Plan_loop_same_nodes [OF loop] Plan_loop_length [OF loop] by simp
qed

lemma Plan_length:
  assumes "Plan select ord s svc n = Inr plan" and "orders ord (containers s)"
  shows "int (length plan) = n"
  using Plan_InrE [OF assms] by (metis int_nat_eq length_map)

lemma Plan_members:
  assumes "Plan select ord s svc n = Inr plan" and "orders ord (containers s)"
    and "nd \<in> set plan"
  shows "\<exists>n0\<in>set (alive_pool_nodes (sPoolID svc) s).
    nID nd = nID n0 \<and> nAddress nd = nAddress n0 \<and> nTotalCPU nd = nTotalCPU n0 \<and>
    nTotalRAM nd = nTotalRAM n0"
proof -
  obtain w up idx w' where p: "working_set s (alive_pool_nodes (sPoolID svc) s) w up"
      "plan = map (\<lambda>k. w' ! k) idx" "same_nodes w w'" "set idx \<subseteq> {..<length w}"
    using Plan_InrE [OF assms(1,2)] by metis
  obtain k where k: "k < length w" "nd = w' ! k" using p(2,4) assms(3) by auto
  let ?n0 = "alive_pool_nodes (sPoolID svc) s ! k"
  have "?n0 \<in> set (alive_pool_nodes (sPoolID svc) s)" using p(1) k(1) by (simp add: working_set_def)
  moreover have "\<exists>cs. w ! k = ?n0\<lparr>nContainers := cs\<rparr>" using p(1) k(1) by (auto simp: working_set_def)
  ultimately show ?thesis using p(3) k by (auto simp: same_nodes_def)
qed

text \<open>
  A node of the plan is the final state of a working copy: where it came from, and how often the
  plan names it.
\<close>

lemma Plan_member_origin:
  assumes p: "working_set s (alive_pool_nodes (sPoolID svc) s) w up"
      "plan = map (\<lambda>k. w' ! k) idx" "same_nodes w w'" "set idx \<subseteq> {..<length w}"
    and wf: "wf_state s" and nd: "nd \<in> set plan"
  obtains k n0 cs where "k \<in> set idx" "k < length w" "nd = w' ! k" "w ! k = n0\<lparr>nContainers := cs\<rparr>"
    "nodes s (nID nd) = Some n0" "nID nd = nID n0" "n0 \<in> set (alive_pool_nodes (sPoolID svc) s)"
    "ports_at up (nID n0) = bound_ports s (nID n0)"
    "count_list (map nID plan) (nID nd) = count_list idx k"
proof -
  obtain k where k: "k \<in> set idx" "nd = w' ! k" using p(2) nd by auto
  have kl: "k < length w" "length w' = length w" using k p(3,4) by (auto simp: same_nodes_def)
  obtain n0 cs where n0: "w ! k = n0\<lparr>nContainers := cs\<rparr>" "nodes s (nID n0) = Some n0"
      "n0 \<in> set (alive_pool_nodes (sPoolID svc) s)" "ports_at up (nID n0) = bound_ports s (nID n0)"
    using working_set_copy [OF wf p(1) kl(1)] by blast
  have ids: "map nID w' = map nID w"
    using p(3) by (intro nth_equalityI) (simp_all add: same_nodes_def)
  have "nID (w' ! k) = nID (w ! k)" using p(3) kl(1) by (simp add: same_nodes_def)
  then have id: "nID nd = nID n0" by (simp add: n0(1) k(2))
  have "distinct (map nID w')"
    using ids p(1) alive_pool_nodes_props(1) [OF wf] by (simp add: working_set_def)
  then have "count_list (map nID plan) (nID nd) = count_list idx k"
    using count_plan [of w' k idx] p(4) kl k by (simp add: p(2) comp_def)
  then show ?thesis using that [OF k(1) kl(1) k(2) n0(1) _ id n0(3,4)] n0(2) id by simp
qed

lemma Plan_RAM:
  assumes plan: "Plan select ord s svc n = Inr plan" and ord: "orders ord (containers s)"
    and wf: "wf_state s" and r: "0 \<le> sint (sRequiredRAM svc)"
    and sane: "\<forall>n\<in>ran (nodes s). 0 \<le> sint (nUsedRAM n) \<and> 0 \<le> sint (nTotalRAM n)"
    and nd: "nd \<in> set plan"
  shows "\<exists>n0. nodes s (nID nd) = Some n0 \<and>
    sint (nUsedRAM n0) + int (count_list (map nID plan) (nID nd)) * sint (sRequiredRAM svc)
      \<le> sint (nTotalRAM n0)"
proof -
  obtain w up idx w' where p: "working_set s (alive_pool_nodes (sPoolID svc) s) w up"
      "Plan_loop select svc 0 (nat n) w up [] = Inr (idx, w')" "plan = map (\<lambda>k. w' ! k) idx"
      "same_nodes w w'" "set idx \<subseteq> {..<length w}"
    using Plan_InrE [OF plan ord] by metis
  have "0 \<le> sint (nUsedRAM m) \<and> 0 \<le> sint (nTotalRAM m)" if m: "m \<in> set w" for m
  proof -
    obtain n0 cs where n0: "n0 \<in> ran (nodes s)" "m = n0\<lparr>nContainers := cs\<rparr>"
      using working_set_member [OF wf p(1) m] by blast
    show ?thesis using bspec [OF sane n0(1)] by (simp add: n0(2))
  qed
  then have used: "ram_used svc w w' idx" using p(2) r by (intro Plan_loop_ram_used) auto
  show ?thesis
  proof (rule Plan_member_origin [OF p(1,3-5) wf nd])
    fix k n0 cs
    assume k: "k \<in> set idx" "k < length w" "nd = w' ! k" "w ! k = n0\<lparr>nContainers := cs\<rparr>"
      "nodes s (nID nd) = Some n0" "count_list (map nID plan) (nID nd) = count_list idx k"
    have "sint (nUsedRAM (w' ! k)) = sint (nUsedRAM (w ! k)) +
        int (count_list idx k) * sint (sRequiredRAM svc)"
        "sint (nUsedRAM (w' ! k)) \<le> sint (nTotalRAM (w' ! k))" "nTotalRAM (w' ! k) = nTotalRAM (w ! k)"
      using used k(1,2) by (auto simp: ram_used_def)
    with k show ?thesis by simp
  qed
qed

lemma Plan_CPU:
  assumes plan: "Plan select ord s svc n = Inr plan" and ord: "orders ord (containers s)"
    and wf: "wf_state s" and r: "sRequiredCPU svc = Fin r" "0 \<le> r" "f64_ok (Fin r)"
    and sane: "\<forall>n\<in>ran (nodes s). \<exists>t u. nTotalCPU n = Fin (of_int t) \<and> 0 \<le> t \<and> t < 2 ^ 52 \<and>
      nUsedCPU n = Fin u \<and> f64_ok (Fin u) \<and> 0 \<le> u"
    and nd: "nd \<in> set plan"
  shows "nUsedCPU nd \<le> nTotalCPU nd"
proof -
  obtain w up idx w' where p: "working_set s (alive_pool_nodes (sPoolID svc) s) w up"
      "Plan_loop select svc 0 (nat n) w up [] = Inr (idx, w')" "plan = map (\<lambda>k. w' ! k) idx"
      "same_nodes w w'" "set idx \<subseteq> {..<length w}"
    using Plan_InrE [OF plan ord] by metis
  have "\<exists>t u. nTotalCPU m = Fin (of_int t) \<and> 0 \<le> t \<and> t < 2 ^ 52 \<and>
      nUsedCPU m = Fin u \<and> f64_ok (Fin u) \<and> 0 \<le> u" if m: "m \<in> set w" for m
  proof -
    obtain n0 cs where n0: "n0 \<in> ran (nodes s)" "m = n0\<lparr>nContainers := cs\<rparr>"
      using working_set_member [OF wf p(1) m] by blast
    show ?thesis using bspec [OF sane n0(1)] by (simp add: n0(2))
  qed
  then have used: "cpu_used w w' idx" using p(2) r by (intro Plan_loop_cpu_used) auto
  obtain k where "k \<in> set idx" "nd = w' ! k" using p(3) nd by auto
  with used p(4,5) show ?thesis by (auto simp: cpu_used_def same_nodes_def)
qed

lemma Plan_ports:
  assumes plan: "Plan select ord s svc n = Inr plan" and ord: "orders ord (containers s)"
    and wf: "wf_state s"
  shows "(sPorts svc \<noteq> [] \<longrightarrow> distinct (map nID plan)) \<and>
    (\<forall>nd\<in>set plan. bound_ports s (nID nd) \<inter> set (sPorts svc) = {})"
proof -
  obtain w up idx w' where p: "working_set s (alive_pool_nodes (sPoolID svc) s) w up"
      "Plan_loop select svc 0 (nat n) w up [] = Inr (idx, w')" "plan = map (\<lambda>k. w' ! k) idx"
      "same_nodes w w'" "set idx \<subseteq> {..<length w}"
    using Plan_InrE [OF plan ord] by metis
  have dw: "distinct (map nID w)"
    using p(1) alive_pool_nodes_props(1) [OF wf] by (simp add: working_set_def)
  obtain up' where used: "ports_used svc w up w' up' idx"
    using Plan_loop_ports_used [OF p(2) dw] by blast
  have len: "length w' = length w" using p(4) by (simp add: same_nodes_def)
  have ids: "nID (w' ! k) = nID (w ! k)" if "k < length w" for k
    using p(4) that by (simp add: same_nodes_def)
  have "distinct (map nID plan)" if "sPorts svc \<noteq> []"
  proof -
    have "inj_on (\<lambda>k. nID (w' ! k)) (set idx)"
      using dw p(5) ids by (intro inj_onI) (auto simp: distinct_conv_nth subset_iff)
    moreover have "distinct idx" using used that by (simp add: ports_used_def)
    ultimately show ?thesis by (simp add: p(3) distinct_map comp_def)
  qed
  moreover have "bound_ports s (nID nd) \<inter> set (sPorts svc) = {}" if nd: "nd \<in> set plan" for nd
  proof (rule Plan_member_origin [OF p(1,3-5) wf nd])
    fix k n0 cs
    assume k: "k \<in> set idx" "w ! k = n0\<lparr>nContainers := cs\<rparr>" "nID nd = nID n0"
      "ports_at up (nID n0) = bound_ports s (nID n0)"
    have "ports_at up (nID (w ! k)) \<inter> set (sPorts svc) = {}"
      using used k(1) by (simp add: ports_used_def)
    then show ?thesis by (simp add: k(2-4))
  qed
  ultimately show ?thesis by blast
qed

text \<open>Success and failure, for any balancer that keeps the contract.\<close>

lemma Plan_outcome:
  assumes ord: "orders ord (containers s)" and wf: "wf_state s" and n: "0 \<le> n"
    and pool: "GetPoolNodes (sPoolID svc) s \<noteq> []"
  defines "capacity \<equiv> \<Sum>nd\<leftarrow>alive_pool_nodes (sPoolID svc) s. room svc (nat n) nd (bound_ports s (nID nd))"
  shows "if nat n \<le> capacity then \<exists>plan. Plan select ord s svc n = Inr plan
    else Plan select ord s svc n =
      Inl (CanPlaceOnly (int capacity) n (sRequiredCPU svc) (sRequiredRAM svc))"
proof -
  obtain w up where wu: "working_copies ord 0 s (GetPoolNodes (sPoolID svc) s) ([], Map.empty) = (w, up)"
      "working_set s (alive_pool_nodes (sPoolID svc) s) w up"
    using working_copies_working_set [OF ord, of "sPoolID svc"] by blast
  have cap: "total_room svc (nat n) w up = capacity"
    by (simp add: capacity_def total_room_working_set [OF wu(2)])
  have d: "distinct (map nID w)" "nID ` set w \<subseteq> dom up"
    using wu(2) alive_pool_nodes_props(1) [OF wf] by (simp_all add: working_set_def)
  show ?thesis
    using Plan_loop_outcome [OF d, of "nat n" svc 0 "[]"] n pool
    by (auto simp: Plan_def wu(1) Let_def cap split: if_splits sum.splits)
qed

end

section \<open>A concrete cluster\<close>

text \<open>
  The fixture of \<open>scheduler_test.go\<close>: one pool and one alive node with 6 of 8 CPUs and 12288 of
  16384 MB free. It has no containers, so every range loop over them visits nothing.
\<close>

definition fixture_node :: node where
  "fixture_node = \<lparr>nID = ''n1'', nAddress = '''', nStatus = NodeAlive, nTotalCPU = Fin 8,
     nUsedCPU = Fin 2, nTotalRAM = 16384, nUsedRAM = 4096, nLastHeartbeat = zero_time,
     nContainers = []\<rparr>"

definition fixture_pool :: resource_pool where
  "fixture_pool = \<lparr>pID = ''pool-1'', pName = ''pool-1'', pMinCPU = Fin 0, pMaxCPU = Fin 128,
     pMinRAM = 0, pMaxRAM = 65536, pNodeIDs = []\<rparr>"

definition setupState :: state where
  "setupState = snd (AssignNodeToPool [''pool-1''] ''n1'' fixture_node
     (AddNode fixture_node (AddPool fixture_pool NewState)))"

definition fixture_service :: "rat \<Rightarrow> i64 \<Rightarrow> int list \<Rightarrow> service" where
  "fixture_service cpu ram ports = \<lparr>sID = ''svc-1'', sName = ''web'', sImage = ''nginx'',
     sRequiredCPU = Fin cpu, sRequiredRAM = ram, sReplicas = 0, sDesiredReplicas = 1,
     sPoolID = ''pool-1'', sContainers = [], sCreatedBy = '''', sEnvVars = [], sPorts = ports,
     sCmd = []\<rparr>"

lemma fixture_matches: "MatchesNode fixture_pool fixture_node"
  by (simp add: MatchesNode_def fixture_pool_def fixture_node_def word_sle_eq)

lemma setupState_simps [simp]:
  "nodes setupState = [''n1'' \<mapsto> fixture_node]" "services setupState = Map.empty"
  "containers setupState = Map.empty"
  "pools setupState = [''pool-1'' \<mapsto> fixture_pool\<lparr>pNodeIDs := [''n1'']\<rparr>]"
  "users setupState = Map.empty" "audit setupState = []"
  using fixture_matches
  by (simp_all add: setupState_def AddNode_def AddPool_def NewState_def)
    (simp_all add: fixture_node_def fixture_pool_def)

lemma wf_setupState [simp]: "wf_state setupState"
  by (simp add: wf_state_def keyed_def fixture_node_def fixture_pool_def)

lemma fixture_available:
  "AvailableCPU fixture_node = Fin 6" "AvailableRAM fixture_node = 12288"
  by (simp_all add: AvailableCPU_def AvailableRAM_def fixture_node_def f64_minus_Fin
      f64_of_rat_def)

lemma fixture_service_simps [simp]:
  "sID (fixture_service c r ps) = ''svc-1''" "sRequiredCPU (fixture_service c r ps) = Fin c"
  "sRequiredRAM (fixture_service c r ps) = r" "sPoolID (fixture_service c r ps) = ''pool-1''"
  "sPorts (fixture_service c r ps) = ps"
  by (simp_all add: fixture_service_def)

lemma fixture_node_simps [simp]:
  "nID fixture_node = ''n1''" "nStatus fixture_node = NodeAlive" "IsAlive fixture_node"
  "nTotalCPU fixture_node = Fin 8" "nUsedCPU fixture_node = Fin 2"
  "nTotalRAM fixture_node = 16384" "nUsedRAM fixture_node = 4096" "nContainers fixture_node = []"
  "fixture_node\<lparr>nContainers := []\<rparr> = fixture_node"
  by (simp_all add: fixture_node_def IsAlive_def)

lemma setupState_pool [simp]:
  "GetPoolNodes ''pool-1'' setupState = [fixture_node]"
  "alive_pool_nodes ''pool-1'' setupState = [fixture_node]"
  "bound_ports setupState i = {}"
  by (simp_all add: GetPoolNodes_def alive_pool_nodes_def bound_ports_def)

lemma fixture_room:
  "room (fixture_service 4 1024 ps) (Suc 0) fixture_node {} = 1"
  "room (fixture_service 4 1024 []) 2 fixture_node {} = 1"
  by (simp_all add: numeral_2_eq_2 fits_def AvailableCPU_def AvailableRAM_def f64_minus_Fin
      f64_plus_Fin f64_of_rat_def word_sle_eq)

lemma setupState_plan_1:
  "Plan (lb_of_flag f) (\<lambda>_. []) setupState (fixture_service 4 1024 [80]) 1 =
     Inr [place_on (fixture_service 4 1024 [80]) fixture_node]"
proof -
  have "fits (fixture_service 4 1024 [80]) {} fixture_node"
    by (simp add: fits_def fixture_available word_sle_eq)
  then have cs: "candidates (fixture_service 4 1024 [80]) [fixture_node] [''n1'' \<mapsto> {}] = [(0, fixture_node)]"
    by (simp add: candidates_def ports_at_def)
  then show ?thesis
    by (simp add: Plan_def GetActiveContainersByNode_def flag.select_singleton bind_ports_def)
qed

section \<open>Properties\<close>

text \<open>
  C1: the outcome of \<open>Plan\<close> is decided by the capacity of the alive nodes of the pool alone. If
  their room, measured node by node with the code's own test, covers the \<open>n\<close> replicas, a plan with
  exactly \<open>n\<close> entries is returned; otherwise nothing is planned and the error reports exactly how
  many replicas fit. This holds for both strategies of the \<open>-lb\<close> flag and all map orders.
\<close>

theorem Plan_all_or_nothing:
  assumes "orders ord (containers s)" and "wf_state s" and "0 \<le> n"
    and "GetPoolNodes (sPoolID svc) s \<noteq> []"
  shows "if int (\<Sum>nd\<leftarrow>alive_pool_nodes (sPoolID svc) s.
        room svc (nat n) nd (bound_ports s (nID nd))) \<ge> n
    then \<exists>plan. Plan (lb_of_flag f) ord s svc n = Inr plan \<and> int (length plan) = n
    else Plan (lb_of_flag f) ord s svc n =
      Inl (CanPlaceOnly (int (\<Sum>nd\<leftarrow>alive_pool_nodes (sPoolID svc) s.
        room svc (nat n) nd (bound_ports s (nID nd)))) n (sRequiredCPU svc) (sRequiredRAM svc))"
proof -
  let ?cap = "\<Sum>nd\<leftarrow>alive_pool_nodes (sPoolID svc) s. room svc (nat n) nd (bound_ports s (nID nd))"
  have "nat n \<le> ?cap \<longleftrightarrow> n \<le> int ?cap" by linarith
  then show ?thesis
    using flag.Plan_outcome [OF assms, of f] flag.Plan_length [OF _ assms(1), of f]
    by (cases "n \<le> int ?cap") auto
qed

theorem Plan_all_or_nothing_witness:
  "(\<exists>plan. Plan (lb_of_flag ''weighted'') (\<lambda>_. []) setupState (fixture_service 4 1024 []) 1 = Inr plan
     \<and> int (length plan) = 1) \<and>
   Plan (lb_of_flag ''weighted'') (\<lambda>_. []) setupState (fixture_service 4 1024 []) 2 =
     Inl (CanPlaceOnly 1 2 (Fin 4) 1024)"
  using Plan_all_or_nothing
      [where ord = "\<lambda>_. []" and s = setupState and n = 1 and svc = "fixture_service 4 1024 []"
        and f = "''weighted''"]
    Plan_all_or_nothing
      [where ord = "\<lambda>_. []" and s = setupState and n = 2 and svc = "fixture_service 4 1024 []"
        and f = "''weighted''"]
  by (simp add: fixture_room del: room.simps)

text \<open>
  The load balancing strategy and the order of the map loops choose the nodes, never whether
  the replicas can be placed.
\<close>

theorem Plan_feasibility_independent:
  assumes "orders ord (containers s)" and "orders ord' (containers s)"
    and "wf_state s" and "Plan (lb_of_flag f) ord s svc n = Inr plan"
  shows "\<exists>plan'. Plan (lb_of_flag f') ord' s svc n = Inr plan' \<and> length plan' = length plan"
proof -
  have n: "int (length plan) = n" by (rule flag.Plan_length [OF assms(4,1)])
  then have n0: "0 \<le> n" by linarith
  have pool: "GetPoolNodes (sPoolID svc) s \<noteq> []" using assms(4) by (auto simp: Plan_def)
  obtain plan' where plan': "Plan (lb_of_flag f') ord' s svc n = Inr plan'"
    using flag.Plan_outcome [OF assms(1,3) n0 pool, of f] assms(4)
      flag.Plan_outcome [OF assms(2,3) n0 pool, of f'] by (auto split: if_splits)
  have "length plan' = length plan"
    using flag.Plan_length [OF plan' assms(2)] n by linarith
  with plan' show ?thesis by blast
qed

theorem Plan_feasibility_independent_witness:
  "\<exists>plan'. Plan (lb_of_flag ''weighted'') (\<lambda>_. []) setupState (fixture_service 4 1024 [80]) 1 = Inr plan'
     \<and> length plan' = 1"
  using Plan_feasibility_independent [where ord = "\<lambda>_. []" and ord' = "\<lambda>_. []" and f' = "''weighted''",
      OF _ _ _ setupState_plan_1 [of "''leastconn''"]]
  by simp

text \<open>
  C2: a plan never oversubscribes the RAM of a node. The replicas it puts on one node, counted over
  the whole plan, fit in what the node has free in the cluster state, as exact integers: the 64-bit
  sums do not wrap.
\<close>

theorem Plan_never_oversubscribes_RAM:
  assumes "Plan (lb_of_flag f) ord s svc n = Inr plan" and "orders ord (containers s)"
    and "wf_state s" and "0 \<le> sint (sRequiredRAM svc)"
    and "\<forall>n\<in>ran (nodes s). 0 \<le> sint (nUsedRAM n) \<and> 0 \<le> sint (nTotalRAM n)"
    and "nd \<in> set plan"
  shows "\<exists>n0. nodes s (nID nd) = Some n0 \<and>
    sint (nUsedRAM n0) + int (count_list (map nID plan) (nID nd)) * sint (sRequiredRAM svc)
      \<le> sint (nTotalRAM n0)"
  using assms by (rule flag.Plan_RAM)

theorem Plan_never_oversubscribes_RAM_witness:
  "\<exists>n0. nodes setupState ''n1'' = Some n0 \<and> sint (nUsedRAM n0) + 1 * 1024 \<le> sint (nTotalRAM n0)"
  using Plan_never_oversubscribes_RAM
    [OF setupState_plan_1 [of f], of "place_on (fixture_service 4 1024 [80]) fixture_node"]
  by simp

text \<open>
  C3: a plan never oversubscribes the CPU of a node either, in spite of the rounding of
  \<open>float64\<close>: after the last placement the computed \<open>UsedCPU\<close> is at most \<open>TotalCPU\<close>, for any
  nonnegative request and load, where the total is a whole number of cores (as the workers report)
  below \<open>2^52\<close>.
\<close>

theorem Plan_never_oversubscribes_CPU:
  assumes "Plan (lb_of_flag f) ord s svc n = Inr plan" and "orders ord (containers s)"
    and "wf_state s" and "sRequiredCPU svc = Fin r" and "0 \<le> r" and "f64_ok (Fin r)"
    and "\<forall>n\<in>ran (nodes s). \<exists>t u. nTotalCPU n = Fin (of_int t) \<and> 0 \<le> t \<and> t < 2 ^ 52 \<and>
      nUsedCPU n = Fin u \<and> f64_ok (Fin u) \<and> 0 \<le> u"
    and "nd \<in> set plan"
  shows "nUsedCPU nd \<le> nTotalCPU nd"
  using assms by (rule flag.Plan_CPU)

theorem Plan_never_oversubscribes_CPU_witness:
  "nUsedCPU (place_on (fixture_service 4 1024 [80]) fixture_node) \<le> nTotalCPU fixture_node"
proof -
  have "\<exists>t u. nTotalCPU fixture_node = Fin (of_int t) \<and> 0 \<le> t \<and> t < 2 ^ 52 \<and>
      nUsedCPU fixture_node = Fin u \<and> f64_ok (Fin u) \<and> 0 \<le> u"
    by (intro exI [of _ 8] exI [of _ 2]) simp
  then show ?thesis
    using Plan_never_oversubscribes_CPU
      [OF setupState_plan_1 [of f], of 4 "place_on (fixture_service 4 1024 [80]) fixture_node"]
    by simp
qed

text \<open>
  C4: a port is bound at most once per machine. A service that asks for ports gets every replica on
  a node of its own, and none on a node where an active container's service already uses one of them.
\<close>

theorem Plan_ports_exclusive:
  assumes "Plan (lb_of_flag f) ord s svc n = Inr plan" and "orders ord (containers s)"
    and "wf_state s"
  shows "(sPorts svc \<noteq> [] \<longrightarrow> distinct (map nID plan)) \<and>
    (\<forall>nd\<in>set plan. bound_ports s (nID nd) \<inter> set (sPorts svc) = {})"
  using assms by (rule flag.Plan_ports)

theorem Plan_ports_exclusive_witness:
  "bound_ports setupState ''n1'' \<inter> {80} = {}"
  using Plan_ports_exclusive [OF setupState_plan_1 [of f]]
  by simp

text \<open>
  Every node of a plan is an alive member of the service's pool, with the identity, address and
  totals the cluster state has for it.
\<close>

theorem Plan_picks_alive_pool_nodes:
  assumes "Plan (lb_of_flag f) ord s svc n = Inr plan" and "orders ord (containers s)"
    and "wf_state s" and "nd \<in> set plan"
  shows "\<exists>pool n0. pools s (sPoolID svc) = Some pool \<and> nID nd \<in> set (pNodeIDs pool) \<and>
    nodes s (nID nd) = Some n0 \<and> nStatus n0 = NodeAlive \<and> nAddress nd = nAddress n0 \<and>
    nTotalCPU nd = nTotalCPU n0 \<and> nTotalRAM nd = nTotalRAM n0"
proof -
  obtain n0 where n0: "n0 \<in> set (alive_pool_nodes (sPoolID svc) s)"
      "nID nd = nID n0" "nAddress nd = nAddress n0" "nTotalCPU nd = nTotalCPU n0"
      "nTotalRAM nd = nTotalRAM n0"
    using flag.Plan_members [OF assms(1,2,4)] by blast
  then have "n0 \<in> set (GetPoolNodes (sPoolID svc) s)" "nStatus n0 = NodeAlive"
    by (simp_all add: alive_pool_nodes_def IsAlive_def)
  with n0 show ?thesis using GetPoolNodes_lookup [OF assms(3)] by metis
qed

theorem Plan_picks_alive_pool_nodes_witness:
  "\<exists>pool. pools setupState ''pool-1'' = Some pool \<and> ''n1'' \<in> set (pNodeIDs pool)"
  using Plan_picks_alive_pool_nodes
    [OF setupState_plan_1 [of f], of "place_on (fixture_service 4 1024 [80]) fixture_node"]
  by simp

text \<open>
  \<open>Schedule\<close> never reads \<open>plan[0]\<close> of an empty plan: it returns a node exactly when the plan
  for one replica is that node.
\<close>

theorem Schedule_iff_Plan:
  assumes "orders ord (containers s)"
  shows "Schedule (lb_of_flag f) ord s svc = Inr nd \<longleftrightarrow>
    Plan (lb_of_flag f) ord s svc 1 = Inr [nd]"
proof (cases "Plan (lb_of_flag f) ord s svc 1")
  case (Inr plan)
  then have "length plan = 1" using flag.Plan_length [OF Inr assms] by simp
  then obtain x where "plan = [x]" by (cases plan) auto
  with Inr show ?thesis by (simp add: Schedule_def)
qed (simp add: Schedule_def)

theorem Schedule_iff_Plan_witness:
  "Schedule (lb_of_flag ''weighted'') (\<lambda>_. []) setupState (fixture_service 4 1024 [80]) =
     Inr (place_on (fixture_service 4 1024 [80]) fixture_node)"
  using Schedule_iff_Plan [where ord = "\<lambda>_. []" and s = setupState and f = "''weighted''"
      and svc = "fixture_service 4 1024 [80]"]
  by (simp add: setupState_plan_1)

end
