(* ===== verification/Master.thy ===== *)
theory Master
  imports Lifecycle Scheduler AuditLog
begin

text \<open>
  The master process, \<open>cmd/master/main.go\<close>: the closures that start a replica and replicate
  a status, the recovery of the containers of a dead node, and one round of the retry loop
  for pending containers.

  The network is an argument (\<open>net\<close>: what \<open>SendCommand\<close> returns for an address and a command), and so
  are the leadership and the outcome of every Raft submission, the clock and the orders of the map
  loops: an \<open>env\<close> holds what the handling of one container meets.
\<close>

section \<open>The closures\<close>

type_synonym raft_result = "bool \<times> raft_future"
type_synonym network = "go_string \<Rightarrow> command \<Rightarrow> send_error + command_response"

definition applyContainerStatus :: "raft_result \<Rightarrow> go_string \<Rightarrow> go_string \<Rightarrow> state \<Rightarrow> state" where
  "applyContainerStatus r containerID status s =
     snd (RaftNode_Apply (fst r) (snd r) LogSetContainerStatus (enc_status_args containerID status) s)"

definition start_command :: "service \<Rightarrow> command" where
  "start_command svc = zero_command\<lparr>cmType := CmdStartContainer, cmServiceID := sID svc,
     cmImage := sImage svc, cmCPULimit := sRequiredCPU svc, cmRAMLimit := sRequiredRAM svc,
     cmEnvVars := sEnvVars svc, cmPorts := sPorts svc, cmCmd := sCmd svc\<rparr>"

datatype start_error =
    NotScheduled plan_error
  | NotSent send_error
  | WorkerError go_string go_string

definition startOn :: "network \<Rightarrow> service \<Rightarrow> node \<Rightarrow> start_error + go_string" where
  "startOn net svc node =
     (case net (nAddress node) (start_command svc) of
        Inl e \<Rightarrow> Inl (NotSent e)
      | Inr resp \<Rightarrow>
          if \<not> rsSuccess resp then Inl (WorkerError (nID node) (rsError resp))
          else Inr (rsContainerID resp))"

definition startReplica ::
  "balancer \<Rightarrow> (nat \<Rightarrow> go_string list) \<Rightarrow> network \<Rightarrow> state \<Rightarrow> service \<Rightarrow> start_error + (go_string \<times> go_string)" where
  "startReplica lb ord net s svc =
     (case Schedule lb ord s svc of
        Inl e \<Rightarrow> Inl (NotScheduled e)
      | Inr node \<Rightarrow>
          (case startOn net svc node of
             Inl e \<Rightarrow> Inl e
           | Inr dockerID \<Rightarrow> Inr (nID node, dockerID)))"

section \<open>Recovery of the containers of a dead node\<close>

record env =
  eStatus1 :: raft_result
  eStatus2 :: raft_result
  eAdd :: raft_result
  eNet :: network
  eNow :: go_time
  eOrd :: "nat \<Rightarrow> container_order"

definition new_container :: "go_time \<Rightarrow> service \<Rightarrow> go_string \<Rightarrow> go_string \<Rightarrow> container" where
  "new_container now svc nodeID dockerID = zero_container\<lparr>cID := ''ctr-'' @ format_int now,
     cServiceID := sID svc, cNodeID := nodeID, cDockerID := dockerID, cStatus := ContainerRunning\<rparr>"

text \<open>One iteration of the loop of the callback.\<close>

definition recover_container :: "balancer \<Rightarrow> env \<Rightarrow> container \<Rightarrow> state \<Rightarrow> state" where
  "recover_container lb e c s =
     (let s1 = applyContainerStatus (eStatus1 e) (cID c) ContainerRescheduling s in
      case GetService (cServiceID c) s1 of
        None \<Rightarrow> s1
      | Some svc \<Rightarrow>
          (case startReplica lb (\<lambda>i. eOrd e i (containers s1)) (eNet e) s1 svc of
             Inl err \<Rightarrow> applyContainerStatus (eStatus2 e) (cID c) ContainerPending s1
           | Inr (newNodeID, dockerID) \<Rightarrow>
               (let s2 = applyContainerStatus (eStatus2 e) (cID c) ContainerStopped s1;
                    newContainer = new_container (eNow e) svc newNodeID dockerID;
                    (err, s3) = RaftNode_Apply (fst (eAdd e)) (snd (eAdd e)) LogAddContainer
                      (enc_container newContainer) s2
                in if err \<noteq> None then s3
                   else Log (eNow e) ''system'' EventContainerRescheduled (cID c)
                     (''rescheduled to node '' @ newNodeID @ '' as '' @ cID newContainer) s3)))"

fun recover_loop :: "balancer \<Rightarrow> (nat \<Rightarrow> env) \<Rightarrow> container list \<Rightarrow> state \<Rightarrow> state" where
  "recover_loop lb es [] s = s"
| "recover_loop lb es (c # cs) s =
     recover_loop lb (\<lambda>i. es (Suc i)) cs (recover_container lb (es 0) c s)"

text \<open>The callback; \<open>es i\<close> is what the \<open>i\<close>-th container meets.\<close>

definition recover_node ::
  "balancer \<Rightarrow> bool \<Rightarrow> go_time \<Rightarrow> (nat \<Rightarrow> env) \<Rightarrow> go_string \<Rightarrow> container list \<Rightarrow> state \<Rightarrow> state" where
  "recover_node lb isLeader now es nodeID cs s =
     (if \<not> isLeader then s
      else recover_loop lb es cs
        (Log now ''system'' EventNodeDead nodeID
          (''node died with '' @ format_int (int (length cs)) @ '' containers'') s))"

section \<open>The retry loop\<close>

text \<open>Starting one pending container on its node of the plan, and the loop over the group.\<close>

definition updated_container :: "container \<Rightarrow> node \<Rightarrow> go_string \<Rightarrow> container" where
  "updated_container c node dockerID = zero_container\<lparr>cID := cID c, cServiceID := cServiceID c,
     cNodeID := nID node, cDockerID := dockerID, cStatus := ContainerRunning\<rparr>"

definition retry_container :: "service \<Rightarrow> env \<Rightarrow> container \<Rightarrow> node \<Rightarrow> state \<Rightarrow> state" where
  "retry_container svc e c node s =
     (case startOn (eNet e) svc node of
        Inl err \<Rightarrow> s
      | Inr dockerID \<Rightarrow>
          snd (RaftNode_Apply (fst (eAdd e)) (snd (eAdd e)) LogAddContainer
            (enc_container (updated_container c node dockerID)) s))"

fun retry_group :: "service \<Rightarrow> (nat \<Rightarrow> env) \<Rightarrow> container list \<Rightarrow> node list \<Rightarrow> state \<Rightarrow> state" where
  "retry_group svc es (c # cs) (node # plan) s =
     retry_group svc (\<lambda>i. es (Suc i)) cs plan (retry_container svc (es 0) c node s)"
| "retry_group svc es cs plan s = s"

text \<open>The pending containers grouped by service: the grp of one service keeps the loop's order.\<close>

definition pending_of :: "go_string list \<Rightarrow> go_string \<Rightarrow> state \<Rightarrow> container list" where
  "pending_of ord svcID s =
     filter (\<lambda>c. cServiceID c = svcID) (GetContainersByStatus ord ContainerPending s)"

definition retry_service ::
  "balancer \<Rightarrow> (nat \<Rightarrow> container_order) \<Rightarrow> (nat \<Rightarrow> env) \<Rightarrow> container list \<Rightarrow> go_string \<Rightarrow> state \<Rightarrow> state" where
  "retry_service lb ord es grp svcID s =
     (case GetService svcID s of
        None \<Rightarrow> s
      | Some svc \<Rightarrow>
          (case Plan lb (\<lambda>i. ord i (containers s)) s svc (int (length grp)) of
             Inl err \<Rightarrow> s
           | Inr plan \<Rightarrow> retry_group svc es grp plan s))"

text \<open>One round; \<open>svcIDs\<close> is the order in which the groups are visited.\<close>

fun retry_groups ::
  "balancer \<Rightarrow> (go_string \<Rightarrow> nat \<Rightarrow> container_order) \<Rightarrow> (go_string \<Rightarrow> nat \<Rightarrow> env) \<Rightarrow>
   (go_string \<Rightarrow> container list) \<Rightarrow> go_string list \<Rightarrow> state \<Rightarrow> state" where
  "retry_groups lb ord es grp [] s = s"
| "retry_groups lb ord es grp (i # is) s =
     retry_groups lb ord es grp is (retry_service lb (ord i) (es i) (grp i) i s)"

definition retry_round ::
  "balancer \<Rightarrow> bool \<Rightarrow> go_string list \<Rightarrow> (go_string \<Rightarrow> nat \<Rightarrow> container_order) \<Rightarrow>
   (go_string \<Rightarrow> nat \<Rightarrow> env) \<Rightarrow> go_string list \<Rightarrow> state \<Rightarrow> state" where
  "retry_round lb isLeader pord ord es svcIDs s =
     (if \<not> isLeader then s
      else retry_groups lb ord es (\<lambda>i. pending_of pord i s) svcIDs s)"

section \<open>What the closures leave alone\<close>

lemma applyContainerStatus_frame [simp]:
  "nodes (applyContainerStatus r i st s) = nodes s" "pools (applyContainerStatus r i st s) = pools s"
  "users (applyContainerStatus r i st s) = users s" "audit (applyContainerStatus r i st s) = audit s"
  by (simp_all add: applyContainerStatus_def)

lemma recover_container_frame [simp]:
  "nodes (recover_container lb e c s) = nodes s" "pools (recover_container lb e c s) = pools s"
  "users (recover_container lb e c s) = users s"
  by (simp_all add: recover_container_def Let_def case_prod_beta split: option.split sum.split)

lemma recover_loop_frame [simp]:
  "nodes (recover_loop lb es cs s) = nodes s" "pools (recover_loop lb es cs s) = pools s"
  "users (recover_loop lb es cs s) = users s"
  by (induction lb es cs s rule: recover_loop.induct) simp_all

lemma recover_node_frame [simp]:
  "nodes (recover_node lb l now es i cs s) = nodes s" "pools (recover_node lb l now es i cs s) = pools s"
  "users (recover_node lb l now es i cs s) = users s"
  by (simp_all add: recover_node_def)

text \<open>
  The callbacks of the master meet what the fault tolerance module and the receiver rely on, so
  their results hold for the running program.
\<close>

interpretation recovery: dead_node_callback "Some (recover_node lb l now es)" for lb l now es
  by unfold_locales auto

interpretation discovery: discovery_callback
  "Some (\<lambda>i. Log now ''system'' EventNodeDiscovered i ''node discovered via first heartbeat'')" for now
  by unfold_locales auto

interpretation running: lifecycle "Some (recover_node lb l now es)"
  "Some (\<lambda>i. Log now ''system'' EventNodeDiscovered i ''node discovered via first heartbeat'')"
  "Some (applyContainerStatus r)" for lb l now es r
  by unfold_locales auto

section \<open>Replicas\<close>

text \<open>
  A replica of a service is a container of it that runs or is going to: PENDING, SCHEDULED, RUNNING
  or RESCHEDULING.
\<close>

definition live :: "container \<Rightarrow> bool" where
  "live c \<longleftrightarrow> cStatus c \<in> {ContainerPending, ContainerScheduled, ContainerRunning, ContainerRescheduling}"

definition replicas_of :: "go_string \<Rightarrow> state \<Rightarrow> go_string set" where
  "replicas_of i s = {k. \<exists>c. containers s k = Some c \<and> cServiceID c = i \<and> live c}"

lemma finite_replicas_of: "wf_state s \<Longrightarrow> finite (replicas_of i s)"
  by (rule finite_subset [of _ "dom (containers s)"]) (auto simp: replicas_of_def wf_state_def)

lemma Schedule_alive:
  assumes "Schedule (lb_of_flag f) ord s svc = Inr nd" and "orders ord (containers s)" and "wf_state s"
  shows "\<exists>n. nodes s (nID nd) = Some n \<and> nStatus n = NodeAlive"
proof -
  obtain plan where plan: "Plan (lb_of_flag f) ord s svc 1 = Inr plan" "nd = hd plan"
    using assms(1) by (auto simp: Schedule_def split: sum.splits)
  then have "length plan = 1" using flag.Plan_length [OF plan(1) assms(2)] by simp
  then have "nd \<in> set plan" using plan(2) by (cases plan) auto
  from flag.Plan_members [OF plan(1) assms(2) this] alive_pool_nodes_props(2) [OF assms(3)]
  show ?thesis by (fastforce simp: IsAlive_def)
qed

lemma startReplica_alive:
  assumes "startReplica (lb_of_flag f) ord net s svc = Inr (i, d)" and "orders ord (containers s)"
    and "wf_state s"
  shows "\<exists>n. nodes s i = Some n \<and> nStatus n = NodeAlive"
    and "\<exists>addr resp. net addr (start_command svc) = Inr resp \<and> d = rsContainerID resp"
  using assms Schedule_alive [of f ord s svc]
  by (auto simp: startReplica_def startOn_def split: sum.splits if_splits)

definition new_id :: "env \<Rightarrow> go_string" where
  "new_id e = ''ctr-'' @ format_int (eNow e)"

lemma digit_ascii: "(m :: nat) < 10 \<Longrightarrow> byte_in 0 0x7F (char_of (48 + m))"
  by (simp add: byte_in_def)

lemma digits_ascii: "list_all (byte_in 0 0x7F) (digits n)"
proof (induction n rule: digits.induct)
  case (1 n)
  then show ?case by (subst digits.simps) (auto intro: digit_ascii)
qed

lemma valid_new_id [simp]: "valid_utf8 (new_id e)"
  using digits_ascii by (auto simp: new_id_def format_int_def byte_in_def ascii_def intro: valid_utf8_ascii)

text \<open>What recovery of one container meets when Raft commits and the workers answer valid text.\<close>

definition committed :: "env \<Rightarrow> bool" where
  "committed e \<longleftrightarrow> eStatus1 e = (True, Committed) \<and> eStatus2 e = (True, Committed) \<and>
     eAdd e = (True, Committed) \<and>
     (\<forall>addr cmd resp. eNet e addr cmd = Inr resp \<longrightarrow> valid_utf8 (rsContainerID resp)) \<and>
     (\<forall>i. chooser (eOrd e i))"

definition names_ok :: "state \<Rightarrow> bool" where
  "names_ok s \<longleftrightarrow> (\<forall>v\<in>ran (services s). valid_utf8 (sID v)) \<and> (\<forall>n\<in>ran (nodes s). valid_utf8 (nID n))"

lemma status_valid [simp]:
  "valid_utf8 ContainerPending" "valid_utf8 ContainerScheduled" "valid_utf8 ContainerRunning"
  "valid_utf8 ContainerFailed" "valid_utf8 ContainerRescheduling" "valid_utf8 ContainerStopped"
  by (simp_all add: container_status_defs byte_in_def)

lemma applyContainerStatus_committed [simp]:
  "valid_utf8 i \<Longrightarrow> valid_utf8 st \<Longrightarrow>
     applyContainerStatus (True, Committed) i st s = snd (SetContainerStatus i st s)"
  by (simp add: applyContainerStatus_def commit_SetContainerStatus)

section \<open>One recovered container\<close>

definition with_status :: "go_string \<Rightarrow> go_string \<Rightarrow> state \<Rightarrow> (go_string \<rightharpoonup> container)" where
  "with_status i st s = (containers s)(i := map_option (\<lambda>c. c\<lparr>cStatus := st\<rparr>) (containers s i))"

lemma recover_container_effect:
  assumes e: "committed e" and s: "wf_state s" "names_ok s" and c: "valid_utf8 (cID c)"
  obtains (waiting) st where "st = ContainerRescheduling \<or> st = ContainerPending"
      and "containers (recover_container (lb_of_flag f) e c s) = with_status (cID c) st s"
      and "services (recover_container (lb_of_flag f) e c s) = services s"
  | (moved) d where "containers (recover_container (lb_of_flag f) e c s) =
        (with_status (cID c) ContainerStopped s)(cID d \<mapsto> d)"
      and "services (recover_container (lb_of_flag f) e c s) = services s"
      and "cID d = new_id e" and "cServiceID d = cServiceID c" and "cStatus d = ContainerRunning"
      and "\<exists>n. nodes s (cNodeID d) = Some n \<and> nStatus n = NodeAlive"
proof -
  define s1 where "s1 = snd (SetContainerStatus (cID c) ContainerRescheduling s)"
  have s1: "services s1 = services s" "nodes s1 = nodes s" "wf_state s1"
      "containers s1 = with_status (cID c) ContainerRescheduling s"
    using s(1) by (simp_all add: s1_def wf_SetContainerStatus containers_SetContainerStatus with_status_def)
  have step1: "applyContainerStatus (eStatus1 e) (cID c) ContainerRescheduling s = s1"
    using e c by (simp add: committed_def s1_def)
  have raft: "eStatus2 e = (True, Committed)" "eAdd e = (True, Committed)"
    using e by (simp_all add: committed_def)
  have twice: "containers (snd (SetContainerStatus (cID c) st s1)) = with_status (cID c) st s" for st
    by (auto simp: containers_SetContainerStatus s1(4) with_status_def option.map_comp comp_def)
  have ord: "orders (\<lambda>i. eOrd e i (containers s1)) (containers s1)"
    using e s1(3) by (simp add: orders_def committed_def chooserD wf_state_def)
  show ?thesis
  proof (cases "GetService (cServiceID c) s1")
    case None
    then have "recover_container (lb_of_flag f) e c s = s1"
      by (simp add: recover_container_def step1)
    with s1 show ?thesis by (intro waiting [of ContainerRescheduling]) simp_all
  next
    case (Some svc)
    then have svc: "services s (cServiceID c) = Some svc" using s1(1) by (simp add: GetService_def)
    then have id: "sID svc = cServiceID c" using wf_state_keyed(2) [OF s(1)] by (auto dest: keyedD)
    have "svc \<in> ran (services s)" using svc by (rule ranI)
    then have valid: "valid_utf8 (cServiceID c)" using s(2) id by (auto simp: names_ok_def)
    show ?thesis
    proof (cases "startReplica (lb_of_flag f) (\<lambda>i. eOrd e i (containers s1)) (eNet e) s1 svc")
      case (Inl err)
      then have "recover_container (lb_of_flag f) e c s = snd (SetContainerStatus (cID c) ContainerPending s1)"
        using c by (simp add: recover_container_def step1 Some raft)
      with s1(1) twice show ?thesis by (intro waiting [of ContainerPending]) simp_all
    next
      case (Inr p)
      obtain i d where p: "p = (i, d)" by (cases p)
      note start = Inr [unfolded p]
      note alive = startReplica_alive [OF start ord s1(3)]
      let ?d = "new_container (eNow e) svc i d"
      let ?s2 = "snd (SetContainerStatus (cID c) ContainerStopped s1)"
      obtain n where n: "nodes s i = Some n" "nStatus n = NodeAlive" using alive(1) s1(2) by auto
      then have "nID n = i" using wf_state_keyed(1) [OF s(1)] by (auto dest: keyedD)
      then have "valid_utf8 i" using s(2) n(1) by (auto simp: names_ok_def intro: ranI)
      moreover have "valid_utf8 d" using alive(2) e by (auto simp: committed_def)
      moreover have "valid_utf8 (cID ?d)" using valid_new_id [of e] by (simp add: new_container_def new_id_def)
      ultimately have "container_ok ?d"
        using valid id by (simp add: container_ok_def new_container_def zero_container_def)
      then have "RaftNode_Apply True Committed LogAddContainer (enc_container ?d) ?s2 = (None, AddContainer ?d ?s2)"
        by (rule commit_AddContainer)
      then have "recover_container (lb_of_flag f) e c s = Log (eNow e) ''system'' EventContainerRescheduled (cID c)
          (''rescheduled to node '' @ i @ '' as '' @ cID ?d) (AddContainer ?d ?s2)"
        using c start by (simp add: recover_container_def step1 Some raft Let_def)
      then show ?thesis
        using n twice s1(1) id
        by (intro moved [of ?d])
          (simp_all add: container_table.lookup_add new_container_def new_id_def)
    qed
  qed
qed

lemma wf_recover_container: "wf_state s \<Longrightarrow> wf_state (recover_container lb e c s)"
  by (simp add: recover_container_def Let_def applyContainerStatus_def wf_RaftNode_Apply wf_Log
      case_prod_beta split: option.split sum.split)

lemma with_status_simps:
  "with_status k st s k = map_option (\<lambda>c. c\<lparr>cStatus := st\<rparr>) (containers s k)"
  "j \<noteq> k \<Longrightarrow> with_status k st s j = containers s j"
  by (simp_all add: with_status_def)

lemma replicas_waiting:
  assumes "containers t = with_status k st s" and "st = ContainerRescheduling \<or> st = ContainerPending"
    and "containers s k = Some c" and "live c"
  shows "replicas_of i t = replicas_of i s"
  using assms by (auto simp: replicas_of_def with_status_def live_def split: if_splits)

lemma replicas_moved:
  assumes "containers t = (with_status k ContainerStopped s)(cID d \<mapsto> d)" and "wf_state s"
    and "containers s k = Some c" and "live c" and "cServiceID d = cServiceID c"
    and "cStatus d = ContainerRunning" and "containers s (cID d) = None"
  shows "card (replicas_of i t) = card (replicas_of i s)"
proof -
  have ne: "cID d \<noteq> k" using assms(3,7) by auto
  have t: "containers t j = (if j = cID d then Some d
      else if j = k then Some (c\<lparr>cStatus := ContainerStopped\<rparr>) else containers s j)" for j
    using assms(1,3) by (simp add: with_status_def)
  have new: "cID d \<notin> replicas_of i s" using assms(7) by (simp add: replicas_of_def)
  have liveness: "live d" "\<not> live (c\<lparr>cStatus := ContainerStopped\<rparr>)"
    using assms(6) by (simp_all add: live_def)
  have mem: "j \<in> replicas_of i t \<longleftrightarrow> (if j = cID d then i = cServiceID c
      else j \<noteq> k \<and> j \<in> replicas_of i s)" for j
    using ne liveness assms(5) by (auto simp: replicas_of_def t)
  show ?thesis
  proof (cases "i = cServiceID c")
    case True
    have "replicas_of i t = insert (cID d) (replicas_of i s - {k})"
      using True new mem by (intro set_eqI) auto
    moreover have "k \<in> replicas_of i s" using assms(3,4) True by (simp add: replicas_of_def)
    ultimately show ?thesis
      using finite_replicas_of [OF assms(2), of i] new card_Suc_Diff1 by fastforce
  next
    case False
    have "k \<notin> replicas_of i s" using False assms(3) by (simp add: replicas_of_def)
    then have "replicas_of i t = replicas_of i s"
      using False new mem by (intro set_eqI) auto
    then show ?thesis by simp
  qed
qed

definition fresh_ids :: "(nat \<Rightarrow> env) \<Rightarrow> nat \<Rightarrow> state \<Rightarrow> bool" where
  "fresh_ids es n s \<longleftrightarrow> (\<forall>j<n. containers s (new_id (es j)) = None) \<and>
     inj_on (\<lambda>j. new_id (es j)) {..<n}"

definition recoverable :: "container list \<Rightarrow> state \<Rightarrow> bool" where
  "recoverable cs s \<longleftrightarrow> distinct (map cID cs) \<and> (\<forall>c\<in>set cs. valid_utf8 (cID c) \<and>
     (\<exists>c'. containers s (cID c) = Some c' \<and> cServiceID c' = cServiceID c \<and> live c'))"

text \<open>What the loop leaves behind, container by container.\<close>

definition recovered :: "container list \<Rightarrow> state \<Rightarrow> state \<Rightarrow> bool" where
  "recovered cs s t \<longleftrightarrow> (\<forall>k c. containers t k = Some c \<longrightarrow>
     (if k \<in> cID ` set cs then cStatus c \<in> {ContainerRescheduling, ContainerPending, ContainerStopped}
      else containers s k = Some c \<or>
        containers s k = None \<and> (\<exists>n. nodes s (cNodeID c) = Some n \<and> nStatus n = NodeAlive)))"

lemma recoveredD:
  assumes "recovered cs s t" and "containers t k = Some c"
  shows "if k \<in> cID ` set cs then cStatus c \<in> {ContainerRescheduling, ContainerPending, ContainerStopped}
    else containers s k = Some c \<or>
      containers s k = None \<and> (\<exists>n. nodes s (cNodeID c) = Some n \<and> nStatus n = NodeAlive)"
  using assms unfolding recovered_def by blast

lemma recover_step:
  assumes "committed e" and "wf_state s" and "names_ok s" and "recoverable (c # cs) s"
    and "containers s (new_id e) = None" and t: "t = recover_container (lb_of_flag f) e c s"
  shows "card (replicas_of i t) = card (replicas_of i s) \<and> recovered [c] s t \<and> services t = services s \<and>
    dom (containers s) \<subseteq> dom (containers t) \<and>
    (\<forall>k. k \<noteq> cID c \<longrightarrow> k \<noteq> new_id e \<longrightarrow> containers t k = containers s k)"
proof -
  obtain c' where c': "containers s (cID c) = Some c'" "cServiceID c' = cServiceID c" "live c'"
    using assms(4) by (auto simp: recoverable_def)
  have valid: "valid_utf8 (cID c)" using assms(4) by (simp add: recoverable_def)
  show ?thesis
    using assms(1-3) valid
  proof (cases rule: recover_container_effect [where f = f])
    case (waiting st)
    have "replicas_of i t = replicas_of i s"
      using waiting t c' by (intro replicas_waiting [of t "cID c" st s c']) simp_all
    with waiting t c' show ?thesis
      by (auto simp: recovered_def with_status_def)
  next
    case (moved d)
    then have "card (replicas_of i t) = card (replicas_of i s)"
      using c' assms(2,5) t by (intro replicas_moved [of t "cID c" s d c']) simp_all
    moreover have "recovered [c] s t"
      using moved assms(5) c'(1) t by (auto simp: recovered_def with_status_def)
    ultimately show ?thesis
      using moved t by (auto simp: with_status_def)
  qed
qed

lemma recover_loop_outcome:
  assumes "\<forall>j<length cs. committed (es j)" and "wf_state s" and "names_ok s" and "recoverable cs s"
    and "fresh_ids es (length cs) s"
  shows "card (replicas_of i (recover_loop (lb_of_flag f) es cs s)) = card (replicas_of i s) \<and>
    recovered cs s (recover_loop (lb_of_flag f) es cs s)"
  using assms
proof (induction cs arbitrary: es s)
  case (Cons c cs)
  let ?t = "recover_container (lb_of_flag f) (es 0) c s"
  have fresh: "containers s (new_id (es 0)) = None" using Cons.prems(5) by (simp add: fresh_ids_def)
  have e: "committed (es 0)" using Cons.prems(1) by simp
  note step = recover_step [OF e Cons.prems(2-4) fresh refl, where f = f and i = i]
  have other: "cID d \<noteq> cID c" "cID d \<noteq> new_id (es 0)" if "d \<in> set cs" for d
    using that Cons.prems(4) fresh by (auto simp: recoverable_def image_iff)
  have rec: "recoverable cs ?t"
    using Cons.prems(4) step other by (simp add: recoverable_def)
  have new: "new_id (es (Suc j)) \<noteq> new_id (es 0)" "containers s (new_id (es (Suc j))) = None"
    if "j < length cs" for j
    using Cons.prems(5) that by (auto simp: fresh_ids_def inj_on_def)
  have nc: "new_id (es (Suc j)) \<noteq> cID c" if "j < length cs" for j
    using new(2) [OF that] Cons.prems(4) by (auto simp: recoverable_def)
  have fr: "fresh_ids (\<lambda>j. es (Suc j)) (length cs) ?t"
    using Cons.prems(5) step new nc by (auto simp: fresh_ids_def inj_on_def)
  have IH: "card (replicas_of i (recover_loop (lb_of_flag f) (\<lambda>j. es (Suc j)) cs ?t)) = card (replicas_of i ?t) \<and>
      recovered cs ?t (recover_loop (lb_of_flag f) (\<lambda>j. es (Suc j)) cs ?t)"
    using Cons.prems(1-3) step rec fr
    by (intro Cons.IH) (simp_all add: wf_recover_container names_ok_def)
  have "recovered (c # cs) s (recover_loop (lb_of_flag f) (\<lambda>j. es (Suc j)) cs ?t)"
    unfolding recovered_def
  proof (intro allI impI)
    fix k d
    assume d: "containers (recover_loop (lb_of_flag f) (\<lambda>j. es (Suc j)) cs ?t) k = Some d"
    have "if k \<in> cID ` set cs then cStatus d \<in> {ContainerRescheduling, ContainerPending, ContainerStopped}
        else containers ?t k = Some d \<or>
          containers ?t k = None \<and> (\<exists>n. nodes ?t (cNodeID d) = Some n \<and> nStatus n = NodeAlive)"
      using IH d by (intro recoveredD) simp_all
    moreover have "containers ?t k = Some d \<Longrightarrow> if k = cID c then cStatus d \<in> {ContainerRescheduling, ContainerPending, ContainerStopped}
        else containers s k = Some d \<or>
          containers s k = None \<and> (\<exists>n. nodes s (cNodeID d) = Some n \<and> nStatus n = NodeAlive)"
      using recoveredD [of "[c]" s ?t k d] step by (simp split del: if_split)
    moreover have "containers ?t k = None \<Longrightarrow> k \<noteq> cID c \<and> containers s k = None"
      using step Cons.prems(4) by (auto simp: recoverable_def)
    ultimately show "if k \<in> cID ` set (c # cs) then cStatus d \<in> {ContainerRescheduling, ContainerPending, ContainerStopped}
        else containers s k = Some d \<or>
          containers s k = None \<and> (\<exists>n. nodes s (cNodeID d) = Some n \<and> nStatus n = NodeAlive)"
      by (auto split: if_splits)
  qed
  with IH step show ?case by simp
qed (simp add: recovered_def)

section \<open>One service of the retry loop\<close>

lemma retry_container_frame [simp]:
  "nodes (retry_container svc e c nd s) = nodes s" "pools (retry_container svc e c nd s) = pools s"
  "users (retry_container svc e c nd s) = users s" "audit (retry_container svc e c nd s) = audit s"
  by (simp_all add: retry_container_def split: sum.split)

lemma wf_retry_container: "wf_state s \<Longrightarrow> wf_state (retry_container svc e c nd s)"
  by (simp add: retry_container_def wf_RaftNode_Apply split: sum.split)

lemma startOn_valid: "committed e \<Longrightarrow> startOn (eNet e) svc nd = Inr d \<Longrightarrow> valid_utf8 d"
  by (auto simp: startOn_def committed_def split: sum.splits if_splits)

text \<open>\<open>retriable svcID c\<close>: a container of the service whose names survive the JSON encoding.\<close>

definition retriable :: "go_string \<Rightarrow> container \<Rightarrow> bool" where
  "retriable svcID c \<longleftrightarrow> valid_utf8 (cID c) \<and> valid_utf8 svcID \<and> cServiceID c = svcID"

lemma retry_container_committed:
  assumes "committed e" and "retriable svcID c" and "valid_utf8 (nID nd)"
  shows "retry_container svc e c nd s = (case startOn (eNet e) svc nd of Inl err \<Rightarrow> s
    | Inr d \<Rightarrow> AddContainer (updated_container c nd d) s)"
proof (cases "startOn (eNet e) svc nd")
  case (Inr d)
  have "container_ok (updated_container c nd d)"
    using assms startOn_valid [OF assms(1) Inr]
    by (simp add: container_ok_def zero_container_def updated_container_def retriable_def)
  from commit_AddContainer [OF this] assms(1) Inr show ?thesis
    by (simp add: retry_container_def committed_def)
qed (simp add: retry_container_def)

text \<open>\<open>started svcID P good s t\<close>: only containers of \<open>P\<close> may differ, and then they run on a good node.\<close>

definition started :: "go_string \<Rightarrow> go_string set \<Rightarrow> (go_string \<Rightarrow> bool) \<Rightarrow> state \<Rightarrow> state \<Rightarrow> bool" where
  "started svcID P good s t \<longleftrightarrow> services t = services s \<and> (\<forall>k. containers t k = containers s k \<or>
     k \<in> P \<and> (\<exists>c. containers t k = Some c \<and> cServiceID c = svcID \<and> cStatus c = ContainerRunning \<and>
       good (cNodeID c)))"

lemma started_refl [simp]: "started i P good s s"
  by (simp add: started_def)

lemma started_trans:
  assumes "started i P good s u" and "started i Q good u t"
  shows "started i (P \<union> Q) good s t"
  using assms unfolding started_def Un_iff by metis

lemma retry_container_started:
  assumes "committed e" and "retriable svcID c" and "valid_utf8 (nID nd)" and "good (nID nd)"
  shows "started svcID {cID c} good s (retry_container svc e c nd s)"
  using assms unfolding retry_container_committed [OF assms(1-3)]
  by (auto simp: started_def updated_container_def retriable_def container_table.lookup_add split: sum.split)

lemma retry_group_frame [simp]:
  "nodes (retry_group svc es cs plan s) = nodes s" "pools (retry_group svc es cs plan s) = pools s"
  "users (retry_group svc es cs plan s) = users s" "audit (retry_group svc es cs plan s) = audit s"
  by (induction svc es cs plan s rule: retry_group.induct) simp_all

lemma wf_retry_group: "wf_state s \<Longrightarrow> wf_state (retry_group svc es cs plan s)"
  by (induction svc es cs plan s rule: retry_group.induct) (simp_all add: wf_retry_container)

lemma retry_group_started:
  assumes "\<forall>j<length cs. committed (es j)" and "\<forall>c\<in>set cs. retriable svcID c"
    and "\<forall>nd\<in>set plan. valid_utf8 (nID nd) \<and> good (nID nd)"
  shows "started svcID (cID ` set cs) good s (retry_group svc es cs plan s)"
  using assms
proof (induction svc es cs plan s rule: retry_group.induct)
  case (1 svc es c cs nd plan s)
  let ?s = "retry_container svc (es 0) c nd s"
  have "started svcID {cID c} good s ?s"
    using "1.prems" by (intro retry_container_started) auto
  moreover have "started svcID (cID ` set cs) good ?s (retry_group svc (\<lambda>i. es (Suc i)) cs plan ?s)"
    using "1.prems" by (intro "1.IH") simp_all
  ultimately show ?case using started_trans by fastforce
qed simp_all

lemma set_pending_of:
  "iterates ord (containers s) \<Longrightarrow> set (pending_of ord i s) =
     {c \<in> ran (containers s). cStatus c = ContainerPending \<and> cServiceID c = i}"
  by (auto simp: pending_of_def GetContainersByStatus_def)

definition all_running :: "go_string set \<Rightarrow> state \<Rightarrow> bool" where
  "all_running P t \<longleftrightarrow> (\<forall>k\<in>P. \<exists>c. containers t k = Some c \<and> cStatus c = ContainerRunning)"

lemma all_running_started: "all_running P s \<Longrightarrow> started i Q good s t \<Longrightarrow> all_running P t"
  unfolding all_running_def started_def by metis

text \<open>When every worker starts what it is asked to, every container of the group runs.\<close>

lemma retry_group_all_running:
  assumes "\<forall>j<length cs. committed (es j)" and "\<forall>c\<in>set cs. retriable svcID c"
    and "\<forall>nd\<in>set plan. valid_utf8 (nID nd)" and "length plan = length cs"
    and "\<forall>j<length cs. \<forall>nd\<in>set plan. \<exists>d. startOn (eNet (es j)) svc nd = Inr d"
  shows "all_running (cID ` set cs) (retry_group svc es cs plan s)"
  using assms
proof (induction svc es cs plan s rule: retry_group.induct)
  case (1 svc es c cs nd plan s)
  let ?s = "retry_container svc (es 0) c nd s"
  obtain d where d: "startOn (eNet (es 0)) svc nd = Inr d" using "1.prems"(5) by fastforce
  have "all_running {cID c} ?s"
    using retry_container_committed [of "es 0" svcID c nd svc s] "1.prems"(1-3) d
    by (simp add: all_running_def container_table.lookup_add updated_container_def)
  moreover have "started svcID (cID ` set cs) (\<lambda>_. True) ?s (retry_group svc (\<lambda>i. es (Suc i)) cs plan ?s)"
    using "1.prems"(1-3) by (intro retry_group_started) auto
  ultimately have "all_running {cID c} (retry_group svc es (c # cs) (nd # plan) s)"
    using all_running_started by fastforce
  moreover have "all_running (cID ` set cs) (retry_group svc es (c # cs) (nd # plan) s)"
    unfolding retry_group.simps
  proof (rule "1.IH")
    show "\<forall>j<length cs. \<forall>nd\<in>set plan. \<exists>d. startOn (eNet (es (Suc j))) svc nd = Inr d"
      using "1.prems"(5) by (metis Suc_less_eq length_Cons list.set_intros(2))
  qed (use "1.prems" in simp_all)
  ultimately show ?case by (simp add: all_running_def)
qed (simp_all add: all_running_def)

lemma Plan_alive_ids:
  assumes "Plan (lb_of_flag f) ord s svc n = Inr plan" and "orders ord (containers s)" and "wf_state s"
  shows "\<forall>nd\<in>set plan. \<exists>n0. nodes s (nID nd) = Some n0 \<and> nStatus n0 = NodeAlive"
  using flag.Plan_members [OF assms(1,2)] alive_pool_nodes_props(2) [OF assms(3)]
  by (fastforce simp: IsAlive_def)

definition alive_node :: "state \<Rightarrow> go_string \<Rightarrow> bool" where
  "alive_node s i \<longleftrightarrow> (\<exists>n. nodes s i = Some n \<and> nStatus n = NodeAlive)"

lemma Plan_valid_ids:
  assumes "Plan (lb_of_flag f) ord s svc n = Inr plan" and "orders ord (containers s)" and "wf_state s"
    and "names_ok s"
  shows "\<forall>nd\<in>set plan. valid_utf8 (nID nd) \<and> alive_node s (nID nd)"
proof
  fix nd assume "nd \<in> set plan"
  then obtain n0 where "nodes s (nID nd) = Some n0" "nStatus n0 = NodeAlive"
    using Plan_alive_ids [OF assms(1-3)] by auto
  moreover from this have "nID n0 = nID nd" using wf_state_keyed(1) [OF assms(3)] by (auto dest: keyedD)
  ultimately show "valid_utf8 (nID nd) \<and> alive_node s (nID nd)"
    using assms(4) by (metis alive_node_def names_ok_def ranI)
qed

lemma chooser_orders: "\<forall>j. chooser (ord j) \<Longrightarrow> wf_state s \<Longrightarrow> orders (\<lambda>j. ord j (containers s)) (containers s)"
  by (simp add: orders_def chooserD wf_state_def)

lemma names_ok_retriable:
  assumes "services s i = Some svc" and "wf_state s" and "names_ok s"
  shows "valid_utf8 i"
  using assms wf_state_keyed(2) [OF assms(2)] by (metis keyedD names_ok_def ranI)

lemma retry_service_started:
  assumes "\<forall>j<length grp. committed (es j)" and "\<forall>c\<in>set grp. valid_utf8 (cID c) \<and> cServiceID c = i"
    and "\<forall>j. chooser (ord j)" and "wf_state s" and "names_ok s"
  shows "started i (cID ` set grp) (alive_node s) s (retry_service (lb_of_flag f) ord es grp i s)"
proof (cases "GetService i s")
  case (Some svc)
  show ?thesis
  proof (cases "Plan (lb_of_flag f) (\<lambda>j. ord j (containers s)) s svc (int (length grp))")
    case (Inr plan)
    have "valid_utf8 i" using Some names_ok_retriable assms(4,5) by (auto simp: GetService_def)
    then have "started i (cID ` set grp) (alive_node s) s (retry_group svc es grp plan s)"
      using assms(1,2) Plan_valid_ids [OF Inr chooser_orders [OF assms(3,4)] assms(4,5)]
      by (intro retry_group_started) (simp_all add: retriable_def)
    then show ?thesis using Some Inr by (simp add: retry_service_def)
  qed (simp add: Some retry_service_def)
qed (simp add: retry_service_def)

lemma retry_service_frame [simp]:
  "nodes (retry_service lb ord es grp i s) = nodes s"
  "wf_state s \<Longrightarrow> wf_state (retry_service lb ord es grp i s)"
  by (simp_all add: retry_service_def wf_retry_group split: option.split sum.split)

text \<open>\<open>revived s t\<close>: the only change is that containers PENDING in \<open>s\<close> run on nodes ALIVE in \<open>s\<close>.\<close>

definition revived :: "state \<Rightarrow> state \<Rightarrow> bool" where
  "revived s t \<longleftrightarrow> nodes t = nodes s \<and> services t = services s \<and> (\<forall>k. containers t k = containers s k \<or>
     (\<exists>c d. containers s k = Some c \<and> cStatus c = ContainerPending \<and> containers t k = Some d \<and>
        cServiceID d = cServiceID c \<and> cStatus d = ContainerRunning \<and> alive_node s (cNodeID d)))"

lemma revived_refl [simp]: "revived s s"
  by (simp add: revived_def)

lemma revived_started:
  assumes "revived s u" and "started i P (alive_node u) u t" and "nodes t = nodes u"
    and "\<forall>k\<in>P. \<exists>c. containers s k = Some c \<and> cStatus c = ContainerPending \<and> cServiceID c = i"
  shows "revived s t"
  unfolding revived_def
proof (intro conjI allI)
  have nodes: "nodes u = nodes s" using assms(1) by (simp add: revived_def)
  show "nodes t = nodes s" "services t = services s"
    using assms(1-3) by (simp_all add: revived_def started_def)
  fix k
  show "containers t k = containers s k \<or>
     (\<exists>c d. containers s k = Some c \<and> cStatus c = ContainerPending \<and> containers t k = Some d \<and>
        cServiceID d = cServiceID c \<and> cStatus d = ContainerRunning \<and> alive_node s (cNodeID d))"
  proof (cases "containers t k = containers u k")
    case True
    then show ?thesis using assms(1) by (simp add: revived_def)
  next
    case False
    then have "k \<in> P" "\<exists>d. containers t k = Some d \<and> cServiceID d = i \<and> cStatus d = ContainerRunning \<and>
        alive_node u (cNodeID d)"
      using assms(2) unfolding started_def by metis+
    then show ?thesis using assms(4) by (fastforce simp: alive_node_def nodes)
  qed
qed

lemma retry_groups_revived:
  assumes "\<forall>i\<in>set is. \<forall>j. committed (es i j)" and "\<forall>i\<in>set is. \<forall>j. chooser (ord i j)"
    and "\<forall>i. \<forall>c\<in>set (grp i). valid_utf8 (cID c) \<and> cServiceID c = i \<and>
      (\<exists>c'. containers s0 (cID c) = Some c' \<and> cStatus c' = ContainerPending \<and> cServiceID c' = i)"
    and "wf_state s" and "names_ok s" and "revived s0 s"
  shows "revived s0 (retry_groups (lb_of_flag f) ord es grp is s)"
  using assms
proof (induction "lb_of_flag f" ord es grp "is" s rule: retry_groups.induct)
  case (2 ord es grp i "is" s)
  let ?s = "retry_service (lb_of_flag f) (ord i) (es i) (grp i) i s"
  have started: "started i (cID ` set (grp i)) (alive_node s) s ?s"
    using "2.prems" by (intro retry_service_started) auto
  moreover have "revived s0 ?s"
    using "2.prems"(3) by (intro revived_started [OF "2.prems"(6) started]) auto
  moreover have "names_ok ?s" using "2.prems"(5) started by (simp add: names_ok_def started_def)
  ultimately show ?case using "2.prems" by (auto intro: "2.hyps")
qed simp

section \<open>Properties\<close>

text \<open>
  C24: the recovery of a dead node loses no replica and leaves none on it. When Raft commits what the
  callback submits and the new container IDs are new, then after the callback every service has as
  many replicas (pending, scheduled, running or rescheduling containers) as before, whether they were
  moved or wait; and no container is recorded as running or scheduled on the dead node. New
  containers are placed on ALIVE nodes only.
\<close>

theorem recovery_conserves_replicas:
  assumes "\<forall>j<length cs. committed (es j)" and "wf_state s" and "names_ok s"
    and "nodes s nodeID = Some n" and "nStatus n = NodeDead" and "iterates ord (containers s)"
    and "cs = activeContainersOnNode ord nodeID s" and "\<forall>c\<in>ran (containers s). valid_utf8 (cID c)"
    and "fresh_ids es (length cs) s"
  shows "card (replicas_of i (recover_node (lb_of_flag f) True now es nodeID cs s)) = card (replicas_of i s) \<and>
    (containers (recover_node (lb_of_flag f) True now es nodeID cs s) k = Some c \<longrightarrow>
      (cNodeID c = nodeID \<longrightarrow> cStatus c \<notin> {ContainerRunning, ContainerScheduled}) \<and>
      (containers s k = None \<longrightarrow> (\<exists>n. nodes s (cNodeID c) = Some n \<and> nStatus n = NodeAlive)))"
proof -
  let ?s = "Log now ''system'' EventNodeDead nodeID
      (''node died with '' @ format_int (int (length cs)) @ '' containers'') s"
  let ?t = "recover_node (lb_of_flag f) True now es nodeID cs s"
  have t: "?t = recover_loop (lb_of_flag f) es cs ?s" by (simp add: recover_node_def)
  have key: "keyed cID (containers s)" by (rule wf_state_keyed(3) [OF assms(2)])
  have cs: "set cs = {c \<in> ran (containers s). cNodeID c = nodeID \<and> active_status c}"
    by (simp add: assms(7) set_activeContainersOnNode [OF assms(6)])
  have dist: "distinct (map cID cs)"
    unfolding assms(7) activeContainersOnNode_def GetContainersByNode_def
    using assms(6) map_keys_range_vals [of "containers s" cID ord] keyedD [OF key]
    by (intro distinct_map_filter) simp
  have "recoverable cs ?s"
    using dist cs assms(8) keyedD [OF key]
    by (fastforce simp: recoverable_def ran_def live_def active_status_def)
  moreover have "fresh_ids es (length cs) ?s" using assms(9) by (simp add: fresh_ids_def)
  moreover have "names_ok ?s" using assms(3) by (simp add: names_ok_def)
  ultimately have out: "card (replicas_of i ?t) = card (replicas_of i ?s) \<and> recovered cs ?s ?t"
    unfolding t using assms(1,2) by (intro recover_loop_outcome) (simp_all add: wf_Log)
  have "\<forall>k c. containers ?t k = Some c \<longrightarrow> (if k \<in> cID ` set cs
      then cStatus c \<in> {ContainerRescheduling, ContainerPending, ContainerStopped}
      else containers s k = Some c \<or>
        containers s k = None \<and> (\<exists>n. nodes s (cNodeID c) = Some n \<and> nStatus n = NodeAlive))"
    using conjunct2 [OF out] by (simp only: recovered_def Log_frame)
  then have "containers ?t k = Some c \<Longrightarrow> if k \<in> cID ` set cs
      then cStatus c \<in> {ContainerRescheduling, ContainerPending, ContainerStopped}
      else containers s k = Some c \<or>
        containers s k = None \<and> (\<exists>n. nodes s (cNodeID c) = Some n \<and> nStatus n = NodeAlive)"
    by blast
  moreover have "k \<in> cID ` set cs \<Longrightarrow> containers s k \<noteq> None"
    using cs keyedD [OF key] by (auto simp: ran_def)
  moreover have "containers s k = Some c \<Longrightarrow> cNodeID c = nodeID \<Longrightarrow>
      cStatus c \<in> {ContainerRunning, ContainerScheduled} \<Longrightarrow> k \<in> cID ` set cs"
    using cs keyedD [OF key] by (force simp: ran_def active_status_def)
  ultimately show ?thesis
    using out assms(4,5) by (auto simp: replicas_of_def split: if_splits)
qed

text \<open>A worker that answers every command, at a time of the clock, with a Raft that commits.\<close>

definition fixture_env :: "go_time \<Rightarrow> env" where
  "fixture_env now = \<lparr>eStatus1 = (True, Committed), eStatus2 = (True, Committed), eAdd = (True, Committed),
     eNet = (\<lambda>_ _. Inr \<lparr>rsSuccess = True, rsContainerID = ''d'', rsError = ''''\<rparr>), eNow = now,
     eOrd = (\<lambda>_ m. sorted_list_of_set (dom m))\<rparr>"

lemma committed_fixture [simp]: "committed (fixture_env now)"
  by (simp add: committed_def fixture_env_def chooser_sorted byte_in_def)

definition fixture_dead :: node where
  "fixture_dead = zero_node\<lparr>nID := ''a'', nStatus := NodeDead\<rparr>"

definition fixture_replica :: container where
  "fixture_replica = zero_container\<lparr>cID := ''c'', cServiceID := ''v'', cNodeID := ''a'', cStatus := ContainerRunning\<rparr>"

theorem recovery_conserves_replicas_witness:
  "let s = AddContainer fixture_replica (AddService (zero_service\<lparr>sID := ''v''\<rparr>) (AddNode fixture_dead NewState));
       t = recover_node (lb_of_flag ''weighted'') True 9 (\<lambda>_. fixture_env 7) ''a'' [fixture_replica] s
   in card (replicas_of ''v'' t) = 1"
proof -
  define s where "s = AddContainer fixture_replica
    (AddService (zero_service\<lparr>sID := ''v''\<rparr>) (AddNode fixture_dead NewState))"
  have c: "containers s = [''c'' \<mapsto> fixture_replica]" and n: "nodes s = [''a'' \<mapsto> fixture_dead]"
    and v: "services s = [''v'' \<mapsto> zero_service\<lparr>sID := ''v''\<rparr>]"
    by (simp_all add: s_def AddContainer_def AddService_def AddNode_def NewState_def fixture_replica_def
        fixture_dead_def)
  have "wf_state s" by (simp add: s_def wf_AddContainer wf_AddService wf_AddNode)
  moreover have "names_ok s" by (simp add: names_ok_def v n fixture_dead_def byte_in_def)
  moreover have "iterates [''c''] (containers s)" by (simp add: c iterates_def)
  moreover have "[fixture_replica] = activeContainersOnNode [''c''] ''a'' s"
    by (simp add: activeContainersOnNode_def GetContainersByNode_def c
        fixture_replica_def active_status_def)
  moreover have "new_id (fixture_env 7) \<noteq> ''c''" by (simp add: new_id_def)
  then have "fresh_ids (\<lambda>_. fixture_env 7) (length [fixture_replica]) s"
    by (simp add: fresh_ids_def c inj_on_def)
  ultimately have "card (replicas_of ''v'' (recover_node (lb_of_flag ''weighted'') True 9 (\<lambda>_. fixture_env 7)
      ''a'' [fixture_replica] s)) = card (replicas_of ''v'' s)"
    by (intro recovery_conserves_replicas [where n = fixture_dead, THEN conjunct1])
      (simp_all add: c n fixture_dead_def fixture_replica_def byte_in_def)
  moreover have "replicas_of ''v'' s = {''c''}"
    by (auto simp: replicas_of_def c fixture_replica_def live_def split: if_splits)
  ultimately show ?thesis by (simp add: s_def [symmetric])
qed

text \<open>
  A round of the retry loop on the leader changes nothing but PENDING containers, each of which
  stays as it is or becomes a RUNNING container of the same service on a node that is ALIVE, whatever
  the order of the services, the answers of the workers and the balancer; a follower changes nothing.
\<close>

theorem retry_round_revives_only_pending:
  assumes "\<forall>i j. committed (es i j)" and "\<forall>i j. chooser (ord i j)" and "iterates pord (containers s)"
    and "wf_state s" and "names_ok s" and "\<forall>c\<in>ran (containers s). valid_utf8 (cID c)"
  shows "revived s (retry_round (lb_of_flag f) isLeader pord ord es svcIDs s) \<and>
    (\<not> isLeader \<longrightarrow> retry_round (lb_of_flag f) isLeader pord ord es svcIDs s = s)"
proof -
  have "\<forall>i. \<forall>c\<in>set (pending_of pord i s). valid_utf8 (cID c) \<and> cServiceID c = i \<and>
      (\<exists>c'. containers s (cID c) = Some c' \<and> cStatus c' = ContainerPending \<and> cServiceID c' = i)"
    using assms(6) wf_state_keyed(3) [OF assms(4)]
    by (force simp: set_pending_of [OF assms(3)] ran_def dest: keyedD)
  then have "revived s (retry_groups (lb_of_flag f) ord es (\<lambda>i. pending_of pord i s) svcIDs s)"
    using assms by (intro retry_groups_revived) simp_all
  then show ?thesis by (simp add: retry_round_def)
qed

definition fixture_waiting :: container where
  "fixture_waiting = zero_container\<lparr>cID := ''c'', cServiceID := ''v'', cStatus := ContainerPending\<rparr>"

theorem retry_round_revives_only_pending_witness:
  "let s = AddContainer fixture_waiting (AddService (zero_service\<lparr>sID := ''v''\<rparr>) (AddNode fixture_dead NewState))
   in revived s (retry_round (lb_of_flag ''leastconn'') True [''c'']
     (\<lambda>_ _ m. sorted_list_of_set (dom m)) (\<lambda>_ _. fixture_env 7) [''v''] s)"
proof -
  define s where "s = AddContainer fixture_waiting
    (AddService (zero_service\<lparr>sID := ''v''\<rparr>) (AddNode fixture_dead NewState))"
  have c: "containers s = [''c'' \<mapsto> fixture_waiting]" and n: "nodes s = [''a'' \<mapsto> fixture_dead]"
    and v: "services s = [''v'' \<mapsto> zero_service\<lparr>sID := ''v''\<rparr>]"
    by (simp_all add: s_def AddContainer_def AddService_def AddNode_def NewState_def fixture_waiting_def
        fixture_dead_def)
  have "wf_state s" by (simp add: s_def wf_AddContainer wf_AddService wf_AddNode)
  moreover have "names_ok s" by (simp add: names_ok_def v n fixture_dead_def byte_in_def)
  moreover have "iterates [''c''] (containers s)" by (simp add: c iterates_def)
  ultimately have "revived s (retry_round (lb_of_flag ''leastconn'') True [''c'']
     (\<lambda>_ _ m. sorted_list_of_set (dom m)) (\<lambda>_ _. fixture_env 7) [''v''] s)"
    by (intro retry_round_revives_only_pending [THEN conjunct1])
      (simp_all add: c chooser_sorted fixture_waiting_def byte_in_def)
  then show ?thesis by (simp add: s_def [symmetric])
qed


definition fixture_waiting_state :: state where
  "fixture_waiting_state = AddContainer (fixture_waiting\<lparr>cServiceID := ''svc-1''\<rparr>)
     (AddService (fixture_service 4 1024 [80]) setupState)"

lemma fixture_waiting_state_simps [simp]:
  "nodes fixture_waiting_state = [''n1'' \<mapsto> fixture_node]"
  "services fixture_waiting_state = [''svc-1'' \<mapsto> fixture_service 4 1024 [80]]"
  "containers fixture_waiting_state = [''c'' \<mapsto> fixture_waiting\<lparr>cServiceID := ''svc-1''\<rparr>]"
  "pools fixture_waiting_state = pools setupState"
  by (simp_all add: fixture_waiting_state_def AddContainer_def AddService_def fixture_waiting_def)

lemma fixture_waiting_plan:
  "Plan (lb_of_flag f) (\<lambda>_. [''c'']) fixture_waiting_state (fixture_service 4 1024 [80]) 1 =
     Inr [place_on (fixture_service 4 1024 [80]) fixture_node]"
proof -
  have "fits (fixture_service 4 1024 [80]) {} fixture_node"
    by (simp add: fits_def fixture_available word_sle_eq)
  then have cs: "candidates (fixture_service 4 1024 [80]) [fixture_node] [''n1'' \<mapsto> {}] = [(0, fixture_node)]"
    by (simp add: candidates_def ports_at_def)
  have "GetPoolNodes ''pool-1'' fixture_waiting_state = [fixture_node]"
    by (simp add: GetPoolNodes_def)
  moreover have "GetActiveContainersByNode [''c''] ''n1'' fixture_waiting_state = []"
    by (simp add: GetActiveContainersByNode_def fixture_waiting_def zero_container_def)
  ultimately show ?thesis
    using cs by (simp add: Plan_def flag.select_singleton bind_ports_def)
qed


end
