(* ===== verification/Sha256.thy ===== *)
theory Sha256
  imports Domain
begin

unbundle bit_operations_syntax

text \<open>
  What the platform uses of \<open>crypto/sha256\<close> and of the verb \<open>%x\<close>: the hash of a byte string (FIPS
  180-4) and its hexadecimal form. Passwords are stored and compared in this form.
\<close>

section \<open>The compression function\<close>

text \<open>
  The constants are the first 32 bits of the fractional parts of the cube roots of the first 64
  primes, and the initial hash the same of the square roots of the first 8. They are computed:
  \<open>root_bits k n x r\<close> adds to \<open>r\<close> the binary digits below \<open>2 ^ n\<close> of the \<open>k\<close>-th root of \<open>x\<close>.
\<close>

fun root_bits :: "nat \<Rightarrow> nat \<Rightarrow> nat \<Rightarrow> nat \<Rightarrow> nat" where
  "root_bits k 0 x r = r"
| "root_bits k (Suc i) x r = root_bits k i x (if (r + 2 ^ i) ^ k \<le> x then r + 2 ^ i else r)"

definition fraction_bits :: "nat \<Rightarrow> nat \<Rightarrow> 32 word" where
  "fraction_bits k p = of_nat (root_bits k 38 (p * 2 ^ (32 * k)) 0)"

definition first_primes :: "nat list" where
  "first_primes = filter (\<lambda>p. list_all (\<lambda>d. p mod d \<noteq> 0) [2..<p]) [2..<312]"

definition round_constants :: "32 word list" where
  "round_constants = map (fraction_bits 3) first_primes"

definition initial_hash :: "32 word list" where
  "initial_hash = map (fraction_bits 2) [2, 3, 5, 7, 11, 13, 17, 19]"

definition big0 :: "32 word \<Rightarrow> 32 word" where
  "big0 x = word_rotr 2 x XOR word_rotr 13 x XOR word_rotr 22 x"

definition big1 :: "32 word \<Rightarrow> 32 word" where
  "big1 x = word_rotr 6 x XOR word_rotr 11 x XOR word_rotr 25 x"

definition small0 :: "32 word \<Rightarrow> 32 word" where
  "small0 x = word_rotr 7 x XOR word_rotr 18 x XOR drop_bit 3 x"

definition small1 :: "32 word \<Rightarrow> 32 word" where
  "small1 x = word_rotr 17 x XOR word_rotr 19 x XOR drop_bit 10 x"

definition choose_bits :: "32 word \<Rightarrow> 32 word \<Rightarrow> 32 word \<Rightarrow> 32 word" where
  "choose_bits x y z = (x AND y) XOR (NOT x AND z)"

definition majority :: "32 word \<Rightarrow> 32 word \<Rightarrow> 32 word \<Rightarrow> 32 word" where
  "majority x y z = (x AND y) XOR (x AND z) XOR (y AND z)"

text \<open>The message schedule, newest word first.\<close>

fun extend :: "nat \<Rightarrow> 32 word list \<Rightarrow> 32 word list" where
  "extend 0 ws = ws"
| "extend (Suc n) ws = extend n ((small1 (ws ! 1) + ws ! 6 + small0 (ws ! 14) + ws ! 15) # ws)"

fun sha_round :: "32 word \<times> 32 word \<Rightarrow> 32 word list \<Rightarrow> 32 word list" where
  "sha_round (k, w) [a, b, c, d, e, f, g, h] =
     (let t1 = h + big1 e + choose_bits e f g + k + w; t2 = big0 a + majority a b c
      in [t1 + t2, a, b, c, d + t1, e, f, g])"
| "sha_round kw hs = hs"

fun word_be :: "char list \<Rightarrow> 32 word" where
  "word_be cs = foldl (\<lambda>w c. 256 * w + of_char c) 0 cs"

definition groups4 :: "char list \<Rightarrow> char list list" where
  "groups4 cs = map (\<lambda>i. take 4 (drop (4 * i) cs)) [0..<16]"

definition compress :: "32 word list \<Rightarrow> char list \<Rightarrow> 32 word list" where
  "compress hs block =
     (let ws = rev (extend 48 (rev (map word_be (groups4 block))))
      in map2 (+) hs (fold sha_round (zip round_constants ws) hs))"

section \<open>Padding and digest\<close>

definition pad :: "go_string \<Rightarrow> go_string" where
  "pad m = m @ [char_of (0x80 :: nat)] @ replicate ((119 - length m mod 64) mod 64) (char_of (0 :: nat)) @
     map (\<lambda>i. char_of ((8 * length m) div 256 ^ (7 - i) mod 256)) [0..<8]"

function blocks :: "32 word list \<Rightarrow> go_string \<Rightarrow> 32 word list" where
  "blocks hs m = (if length m < 64 then hs else blocks (compress hs (take 64 m)) (drop 64 m))"
  by pat_completeness auto
termination by (relation "measure (\<lambda>(hs, m). length m)") auto

declare blocks.simps [simp del]

definition sha256 :: "go_string \<Rightarrow> 32 word list" where
  "sha256 m = blocks initial_hash (pad m)"

definition hex_digit :: "32 word \<Rightarrow> char" where
  "hex_digit w = ''0123456789abcdef'' ! unat (w AND 15)"

definition hex_word :: "32 word \<Rightarrow> go_string" where
  "hex_word w = map (\<lambda>i. hex_digit (drop_bit (28 - 4 * i) w)) [0..<8]"

text \<open>\<open>fmt.Sprintf("%x", sha256.Sum256([]byte(s)))\<close>.\<close>

definition sha256_hex :: "go_string \<Rightarrow> go_string" where
  "sha256_hex m = concat (map hex_word (sha256 m))"

section \<open>Shape of a digest\<close>

lemma length_sha_round [simp]: "length (sha_round kw hs) = length hs"
  by (induction kw hs rule: sha_round.induct) (simp_all add: Let_def)

lemma length_fold_rounds [simp]: "length (fold sha_round kws hs) = length hs"
  by (induction kws arbitrary: hs) simp_all

lemma length_compress [simp]: "length (compress hs block) = length hs"
  by (simp add: compress_def Let_def)

lemma length_blocks [simp]: "length (blocks hs m) = length hs"
  by (induction hs m rule: blocks.induct) (subst blocks.simps, simp)

lemma length_sha256 [simp]: "length (sha256 m) = 8"
  by (simp add: sha256_def initial_hash_def)

lemma length_extend [simp]: "length (extend n ws) = n + length ws"
  by (induction n ws rule: extend.induct) simp_all

text \<open>A padded message is a whole number of blocks, so no byte of it is left out.\<close>

lemma pad_blocks: "length (pad m) mod 64 = 0"
proof -
  have "length (pad m) = length m + 9 + (119 - length m mod 64) mod 64"
    by (simp add: pad_def)
  moreover have "(q + 9 + (119 - q mod 64) mod 64) mod 64 = 0" for q :: nat
  proof -
    have "q mod 64 < 64" by simp
    then have "(q mod 64 + 9 + (119 - q mod 64)) mod 64 = 0" by simp
    moreover have "(q + 9 + x) mod 64 = (q mod 64 + 9 + x) mod 64" for x
      by (metis add.assoc mod_add_left_eq)
    ultimately show ?thesis by (simp only: mod_add_right_eq)
  qed
  ultimately show ?thesis by simp
qed

lemma hex_digit_member: "hex_digit w \<in> set ''0123456789abcdef''"
proof -
  have "w AND 15 \<le> 15" by (rule word_and_le1)
  then have "unat (w AND 15) \<le> unat (15 :: 32 word)" by (simp add: word_le_nat_alt)
  then have "unat (w AND 15) < length ''0123456789abcdef''" by simp
  then show ?thesis unfolding hex_digit_def by (rule nth_mem)
qed

lemma length_concat_hex: "length (concat (map hex_word ws)) = 8 * length ws"
  by (induction ws) (simp_all add: hex_word_def)

lemma sha256_hex_shape:
  "length (sha256_hex m) = 64" "set (sha256_hex m) \<subseteq> set ''0123456789abcdef''"
  using hex_digit_member by (auto simp: sha256_hex_def length_concat_hex hex_word_def simp del: list.set)

end
