(* ===== verification/Setup.thy ===== *)
theory Setup
  imports Heartbeat Scheduler Sha256 GoStrings "HOL-Library.Sublist"
begin

text \<open>
  The start of a master, the first half of \<open>cmd/master/main.go\<close> and \<open>NewRaftNode\<close> of
  \<open>internal/cluster/raft.go\<close>: the peer lists of the command line, the configuration handed to the
  Raft library, and the users and pools every master is born with.

  Whether the directory, the stores, the transport and the Raft library can be opened is an argument
  (\<open>raft_opens\<close>): each call gives its error text or succeeds. The library itself is not modelled.
\<close>

section \<open>Peer lists\<close>

record raft_peer =
  rpID :: go_string
  rpAddress :: go_string

fun raft_peers_loop :: "go_string list \<Rightarrow> raft_peer list \<Rightarrow> raft_peer list" where
  "raft_peers_loop [] peers = peers"
| "raft_peers_loop (p # ps) peers =
     (let parts = strings_SplitN2 (CHR ''='') p in
      if length parts = 2
      then raft_peers_loop ps (peers @ [\<lparr>rpID = parts ! 0, rpAddress = parts ! 1\<rparr>])
      else raft_peers_loop ps peers)"

definition raft_peers_of_flag :: "go_string \<Rightarrow> raft_peer list" where
  "raft_peers_of_flag flag =
     (if flag \<noteq> '''' then raft_peers_loop (strings_Split (CHR '','') flag) [] else [])"

fun api_peers_loop :: "go_string list \<Rightarrow> (go_string \<rightharpoonup> go_string) \<Rightarrow> (go_string \<rightharpoonup> go_string)" where
  "api_peers_loop [] m = m"
| "api_peers_loop (p # ps) m =
     (let parts = strings_SplitN2 (CHR ''='') p in
      if length parts = 2 then api_peers_loop ps (m(parts ! 0 \<mapsto> parts ! 1))
      else api_peers_loop ps m)"

definition api_peers_of_flag :: "go_string \<Rightarrow> (go_string \<rightharpoonup> go_string)" where
  "api_peers_of_flag flag =
     (if flag \<noteq> '''' then api_peers_loop (strings_Split (CHR '','') flag) Map.empty else Map.empty)"

section \<open>Starting Raft\<close>

record raft_config =
  rcNodeID :: go_string
  rcBindAddr :: go_string
  rcDataDir :: go_string
  rcBootstrap :: bool
  rcPeers :: "raft_peer list"

record raft_lib_config =
  lcLocalID :: go_string
  lcSnapshotInterval :: duration
  lcSnapshotThreshold :: nat
  lcLogLevel :: go_string

record raft_opens =
  roMkdirAll :: "go_string option"
  roBoltStore :: "go_string option"
  roSnapshotStore :: "go_string option"
  roResolve :: "go_string option"
  roTransport :: "go_string option"
  roNewRaft :: "raft_lib_config \<Rightarrow> go_string option"
  roBootstrap :: "raft_peer list \<Rightarrow> go_string option"

text \<open>A started node: what the library was configured with and the servers it was bootstrapped with.\<close>

record raft_started =
  rsConfig :: raft_lib_config
  rsServers :: "raft_peer list option"

definition bootstrap_servers :: "raft_config \<Rightarrow> raft_peer list" where
  "bootstrap_servers cfg =
     foldl (\<lambda>servers peer. servers @ [\<lparr>rpID = rpID peer, rpAddress = rpAddress peer\<rparr>])
       [\<lparr>rpID = rcNodeID cfg, rpAddress = rcBindAddr cfg\<rparr>] (rcPeers cfg)"

definition NewRaftNode :: "raft_config \<Rightarrow> raft_opens \<Rightarrow> go_string + raft_started" where
  "NewRaftNode cfg opens =
     (let raftCfg = \<lparr>lcLocalID = rcNodeID cfg, lcSnapshotInterval = 30 * second,
            lcSnapshotThreshold = 100, lcLogLevel = ''INFO''\<rparr> in
      case roMkdirAll opens of Some err \<Rightarrow> Inl (''create data dir: '' @ err) | None \<Rightarrow>
      case roBoltStore opens of Some err \<Rightarrow> Inl (''bolt store: '' @ err) | None \<Rightarrow>
      case roSnapshotStore opens of Some err \<Rightarrow> Inl (''snapshot store: '' @ err) | None \<Rightarrow>
      case roResolve opens of Some err \<Rightarrow> Inl (''resolve addr: '' @ err) | None \<Rightarrow>
      case roTransport opens of Some err \<Rightarrow> Inl (''tcp transport: '' @ err) | None \<Rightarrow>
      case roNewRaft opens raftCfg of Some err \<Rightarrow> Inl (''new raft: '' @ err) | None \<Rightarrow>
        if rcBootstrap cfg then
          (case roBootstrap opens (bootstrap_servers cfg) of
             Some err \<Rightarrow> Inr \<lparr>rsConfig = raftCfg, rsServers = None\<rparr>
           | None \<Rightarrow> Inr \<lparr>rsConfig = raftCfg, rsServers = Some (bootstrap_servers cfg)\<rparr>)
        else Inr \<lparr>rsConfig = raftCfg, rsServers = None\<rparr>)"

text \<open>The configuration \<open>main\<close> builds from the flags.\<close>

definition raft_config_of_flags ::
  "go_string \<Rightarrow> go_string \<Rightarrow> go_string \<Rightarrow> bool \<Rightarrow> go_string \<Rightarrow> raft_config" where
  "raft_config_of_flags raftID raftAddr raftDir raftBootstrap raftPeers =
     \<lparr>rcNodeID = raftID, rcBindAddr = raftAddr, rcDataDir = raftDir @ ''/'' @ raftID,
      rcBootstrap = raftBootstrap, rcPeers = raft_peers_of_flag raftPeers\<rparr>"

section \<open>Default users and pools\<close>

definition admin_user :: user where
  "admin_user = \<lparr>uID = ''u1'', uUsername = ''admin'', uRole = RoleAdmin, uTokenHash = sha256_hex ''admin''\<rparr>"

definition writer_user :: user where
  "writer_user = \<lparr>uID = ''u2'', uUsername = ''writer'', uRole = RoleWriter, uTokenHash = sha256_hex ''writer''\<rparr>"

definition reader_user :: user where
  "reader_user = \<lparr>uID = ''u3'', uUsername = ''reader'', uRole = RoleReader, uTokenHash = sha256_hex ''reader''\<rparr>"

definition add_default_users :: "state \<Rightarrow> state" where
  "add_default_users s = AddUser reader_user (AddUser writer_user (AddUser admin_user s))"

definition general_pool :: resource_pool where
  "general_pool = zero_pool\<lparr>pID := ''general'', pName := ''general'', pMinCPU := Fin 0, pMaxCPU := Fin 3,
     pMinRAM := 0, pMaxRAM := 32768\<rparr>"

definition high_cpu_pool :: resource_pool where
  "high_cpu_pool = zero_pool\<lparr>pID := ''high-cpu'', pName := ''high-cpu'', pMinCPU := Fin 4,
     pMaxCPU := Fin 128, pMinRAM := 0, pMaxRAM := 32768\<rparr>"

definition high_ram_pool :: resource_pool where
  "high_ram_pool = zero_pool\<lparr>pID := ''high-ram'', pName := ''high-ram'', pMinCPU := Fin 0,
     pMaxCPU := Fin 128, pMinRAM := 32769, pMaxRAM := 1048576\<rparr>"

definition add_default_pools :: "state \<Rightarrow> state" where
  "add_default_pools s = AddPool high_ram_pool (AddPool high_cpu_pool (AddPool general_pool s))"

text \<open>
  What \<open>main\<close> does to the state after \<open>NewRaftNode\<close>, which has restored the last snapshot, if there is
  one, by then: \<open>s\<close> is \<open>NewState\<close> on the first start.
\<close>

definition master_start :: "state \<Rightarrow> state" where
  "master_start s = add_default_pools (add_default_users s)"

section \<open>Reading back a peer list\<close>

text \<open>The form the flags ask for: \<open>id=host:port,id=host:port\<close>.\<close>

fun join_comma :: "go_string list \<Rightarrow> go_string" where
  "join_comma [] = ''''"
| "join_comma [x] = x"
| "join_comma (x # y # ys) = x @ '','' @ join_comma (y # ys)"

definition peer_text :: "raft_peer \<Rightarrow> go_string" where
  "peer_text p = rpID p @ ''='' @ rpAddress p"

definition peers_flag :: "raft_peer list \<Rightarrow> go_string" where
  "peers_flag ps = join_comma (map peer_text ps)"

definition writable_peer :: "raft_peer \<Rightarrow> bool" where
  "writable_peer p \<longleftrightarrow> CHR '','' \<notin> set (rpID p) \<and> CHR ''='' \<notin> set (rpID p) \<and> CHR '','' \<notin> set (rpAddress p)"

lemma Split_join:
  "xs \<noteq> [] \<Longrightarrow> \<forall>x\<in>set xs. CHR '','' \<notin> set x \<Longrightarrow> strings_Split (CHR '','') (join_comma xs) = xs"
  by (induction xs rule: join_comma.induct) (simp_all add: Split_no_sep Split_append)

lemma SplitN2_peer:
  assumes "writable_peer p"
  shows "strings_SplitN2 (CHR ''='') (peer_text p) = [rpID p, rpAddress p]"
proof -
  have "CHR ''='' \<notin> set (rpID p)" using assms by (simp add: writable_peer_def)
  then have "takeWhile (\<lambda>c. c \<noteq> CHR ''='') (rpID p @ ''='' @ rpAddress p) = rpID p"
    "dropWhile (\<lambda>c. c \<noteq> CHR ''='') (rpID p @ ''='' @ rpAddress p) = ''='' @ rpAddress p"
    by (induction "rpID p" arbitrary: p) (auto simp: takeWhile_append dropWhile_append)
  then show ?thesis by (simp add: strings_SplitN2_def peer_text_def)
qed

lemma peers_of_join:
  assumes "\<forall>p\<in>set ps. writable_peer p" and "ps \<noteq> []"
  shows "strings_Split (CHR '','') (peers_flag ps) = map peer_text ps" and "peers_flag ps \<noteq> ''''"
proof -
  show "strings_Split (CHR '','') (peers_flag ps) = map peer_text ps"
    unfolding peers_flag_def using assms
    by (intro Split_join) (auto simp: writable_peer_def peer_text_def)
  have "join_comma (x # xs) \<noteq> ''''" if "x \<noteq> ''''" for x xs
    using that by (cases xs) auto
  then show "peers_flag ps \<noteq> ''''" using assms(2) by (cases ps) (auto simp: peers_flag_def peer_text_def)
qed

lemma raft_peers_loop_text:
  "\<forall>p\<in>set ps. writable_peer p \<Longrightarrow> raft_peers_loop (map peer_text ps) acc = acc @ ps"
  by (induction ps arbitrary: acc) (simp_all add: SplitN2_peer)

lemma api_peers_loop_text:
  "\<forall>p\<in>set ps. writable_peer p \<Longrightarrow>
     api_peers_loop (map peer_text ps) m = m ++ map_of (rev (map (\<lambda>p. (rpID p, rpAddress p)) ps))"
  by (induction ps arbitrary: m) (simp_all add: SplitN2_peer map_add_upd_left)

lemma bootstrap_servers_eq:
  "bootstrap_servers cfg = \<lparr>rpID = rcNodeID cfg, rpAddress = rcBindAddr cfg\<rparr> # rcPeers cfg"
proof -
  have "foldl (\<lambda>servers peer. servers @ [\<lparr>rpID = rpID peer, rpAddress = rpAddress peer\<rparr>]) acc ps = acc @ ps" for acc ps
    by (induction ps arbitrary: acc) simp_all
  then show ?thesis by (simp add: bootstrap_servers_def)
qed

section \<open>The default pools\<close>

lemma default_pools:
  "pools (add_default_pools s) = (pools s)(''general'' \<mapsto> general_pool, ''high-cpu'' \<mapsto> high_cpu_pool,
     ''high-ram'' \<mapsto> high_ram_pool)"
  by (simp add: add_default_pools_def pool_table.lookup_add general_pool_def high_cpu_pool_def high_ram_pool_def)

lemma master_start_frame [simp]:
  "nodes (master_start s) = nodes s" "services (master_start s) = services s"
  "containers (master_start s) = containers s" "audit (master_start s) = audit s"
  "pools (master_start s) = pools (add_default_pools s)"
  by (simp_all add: master_start_def add_default_pools_def add_default_users_def pool_table.lookup_add)

lemma wf_master_start [simp]: "wf_state s \<Longrightarrow> wf_state (master_start s)"
  by (simp add: master_start_def add_default_pools_def add_default_users_def wf_AddPool wf_AddUser
      general_pool_def high_cpu_pool_def high_ram_pool_def zero_pool_def)

lemma default_pool_fields:
  "pMinCPU general_pool = Fin 0" "pMaxCPU general_pool = Fin 3" "pMinRAM general_pool = 0" "pMaxRAM general_pool = 32768"
  "pMinCPU high_cpu_pool = Fin 4" "pMaxCPU high_cpu_pool = Fin 128" "pMinRAM high_cpu_pool = 0" "pMaxRAM high_cpu_pool = 32768"
  "pMinCPU high_ram_pool = Fin 0" "pMaxCPU high_ram_pool = Fin 128" "pMinRAM high_ram_pool = 32769" "pMaxRAM high_ram_pool = 1048576"
  "pNodeIDs general_pool = []" "pNodeIDs high_cpu_pool = []" "pNodeIDs high_ram_pool = []"
  "pID general_pool = ''general''" "pID high_cpu_pool = ''high-cpu''" "pID high_ram_pool = ''high-ram''"
  by (simp_all add: general_pool_def high_cpu_pool_def high_ram_pool_def zero_pool_def)

text \<open>Which pool a machine with a whole number of cores belongs to.\<close>

definition pool_for :: "nat \<Rightarrow> int \<Rightarrow> resource_pool option" where
  "pool_for cores ram =
     (if cores \<le> 128 \<and> 0 \<le> ram \<and> ram \<le> 1048576
      then Some (if 32768 < ram then high_ram_pool else if cores \<le> 3 then general_pool else high_cpu_pool)
      else None)"

lemma MatchesNode_default:
  assumes "nTotalCPU n = Fin (of_nat cores)"
  shows "MatchesNode general_pool n \<longleftrightarrow> cores \<le> 3 \<and> 0 \<le> sint (nTotalRAM n) \<and> sint (nTotalRAM n) \<le> 32768"
    and "MatchesNode high_cpu_pool n \<longleftrightarrow>
      4 \<le> cores \<and> cores \<le> 128 \<and> 0 \<le> sint (nTotalRAM n) \<and> sint (nTotalRAM n) \<le> 32768"
    and "MatchesNode high_ram_pool n \<longleftrightarrow> cores \<le> 128 \<and> 32768 < sint (nTotalRAM n) \<and> sint (nTotalRAM n) \<le> 1048576"
proof -
  have le: "Fin a \<le> Fin b \<longleftrightarrow> a \<le> b" for a b by (simp add: less_eq_f64_def)
  have nums: "(of_nat cores \<le> (3 :: rat)) = (cores \<le> 3)" "((4 :: rat) \<le> of_nat cores) = (4 \<le> cores)"
    "(of_nat cores \<le> (128 :: rat)) = (cores \<le> 128)"
    using of_nat_le_iff [of cores 3, where 'a = rat] of_nat_le_iff [of 4 cores, where 'a = rat]
      of_nat_le_iff [of cores 128, where 'a = rat] by simp_all
  note simps = MatchesNode_def default_pool_fields assms le nums word_sle_eq
  show "MatchesNode general_pool n \<longleftrightarrow> cores \<le> 3 \<and> 0 \<le> sint (nTotalRAM n) \<and> sint (nTotalRAM n) \<le> 32768"
    by (auto simp: simps)
  show "MatchesNode high_cpu_pool n \<longleftrightarrow>
      4 \<le> cores \<and> cores \<le> 128 \<and> 0 \<le> sint (nTotalRAM n) \<and> sint (nTotalRAM n) \<le> 32768"
    by (auto simp: simps)
  show "MatchesNode high_ram_pool n \<longleftrightarrow> cores \<le> 128 \<and> 32768 < sint (nTotalRAM n) \<and> sint (nTotalRAM n) \<le> 1048576"
    by (auto simp: simps)
qed

definition pools_with :: "(go_string \<Rightarrow> go_string list) \<Rightarrow> (go_string \<rightharpoonup> resource_pool)" where
  "pools_with ids = [''general'' \<mapsto> general_pool\<lparr>pNodeIDs := ids ''general''\<rparr>,
     ''high-cpu'' \<mapsto> high_cpu_pool\<lparr>pNodeIDs := ids ''high-cpu''\<rparr>,
     ''high-ram'' \<mapsto> high_ram_pool\<lparr>pNodeIDs := ids ''high-ram''\<rparr>]"

lemma MatchesNode_ids [simp]: "MatchesNode (p\<lparr>pNodeIDs := ids\<rparr>) n = MatchesNode p n"
  by (simp add: MatchesNode_def)

lemma default_match_pool_for:
  assumes "pools s = pools_with ids" and "iterates ord (pools s)" and "nTotalCPU n = Fin (of_nat cores)"
  shows "first_match ord n s = map_option pID (pool_for cores (sint (nTotalRAM n)))"
proof (cases "first_match ord n s")
  case None
  then have "\<forall>p\<in>ran (pools s). \<not> MatchesNode p n" by (simp only: first_match_None_iff [OF assms(2)])
  then have "\<not> MatchesNode general_pool n" "\<not> MatchesNode high_cpu_pool n" "\<not> MatchesNode high_ram_pool n"
    by (auto simp: assms(1) pools_with_def)
  then have "pool_for cores (sint (nTotalRAM n)) = None"
    by (auto simp: MatchesNode_default [OF assms(3)] pool_for_def)
  with None show ?thesis by simp
next
  case (Some k)
  then obtain p where "pools s k = Some p" "MatchesNode p n" using first_match_SomeD by blast
  then have "k = ''general'' \<and> MatchesNode general_pool n \<or> k = ''high-cpu'' \<and> MatchesNode high_cpu_pool n \<or>
      k = ''high-ram'' \<and> MatchesNode high_ram_pool n"
    by (auto simp: assms(1) pools_with_def split: if_splits)
  then have "map_option pID (pool_for cores (sint (nTotalRAM n))) = Some k"
    by (auto simp: MatchesNode_default [OF assms(3)] pool_for_def default_pool_fields)
  then show ?thesis by (simp only: Some)
qed

section \<open>What the master hears after a restart\<close>

fun receive_all ::
  "(go_string \<Rightarrow> world \<Rightarrow> world) option \<Rightarrow> (go_string \<Rightarrow> state \<Rightarrow> state) option \<Rightarrow>
   (go_time \<times> pool_order \<times> json option) list \<Rightarrow> world \<Rightarrow> world" where
  "receive_all late disc [] w = w"
| "receive_all late disc ((now, pord, d) # ds) w =
     receive_all late disc ds (handleHeartbeat now pord late disc d w)"

definition from_known :: "state \<Rightarrow> json option \<Rightarrow> bool" where
  "from_known s d \<longleftrightarrow> (\<forall>j hb. d = Some j \<longrightarrow> dec_heartbeat j zero_heartbeat = (hb, True) \<longrightarrow>
     nodes s (hbNodeID hb) \<noteq> None)"

lemma dom_UpdateNodeFromHeartbeat [simp]: "dom (nodes (snd (UpdateNodeFromHeartbeat now hb s))) = dom (nodes s)"
  by (auto simp: nodes_UpdateNodeFromHeartbeat)

lemma dom_HandleLateHeartbeat [simp]:
  "dom (nodes (cluster (HandleLateHeartbeat l i w))) = dom (nodes (cluster w))"
  by (auto simp: HandleLateHeartbeat_def nodes_SetNodeStatus split: option.split)

lemma known_heartbeat_keeps:
  assumes "from_known (cluster w) d"
  shows "pools (cluster (handleHeartbeat now pord (Some (HandleLateHeartbeat l)) disc d w)) = pools (cluster w) \<and>
    dom (nodes (cluster (handleHeartbeat now pord (Some (HandleLateHeartbeat l)) disc d w))) =
      dom (nodes (cluster w))"
proof (cases "\<exists>j hb. d = Some j \<and> dec_heartbeat j zero_heartbeat = (hb, True)")
  case True
  then obtain j hb n where "d = Some j" "dec_heartbeat j zero_heartbeat = (hb, True)"
      "nodes (cluster w) (hbNodeID hb) = Some n"
    using assms by (fastforce simp: from_known_def)
  then show ?thesis by (simp add: handleHeartbeat_def GetNode_def Let_def)
next
  case False
  then have "handleHeartbeat now pord (Some (HandleLateHeartbeat l)) disc d w = w"
    by (auto simp: handleHeartbeat_def case_prod_beta split: option.split) (metis prod.collapse)+
  then show ?thesis by simp
qed

lemma receive_all_known:
  assumes "\<forall>(now, pord, d)\<in>set ds. from_known (cluster w) d"
  shows "pools (cluster (receive_all (Some (HandleLateHeartbeat l)) disc ds w)) = pools (cluster w)"
  using assms
proof (induction ds arbitrary: w)
  case (Cons x ds)
  obtain now pord d where x: "x = (now, pord, d)" by (cases x)
  let ?w = "handleHeartbeat now pord (Some (HandleLateHeartbeat l)) disc d w"
  have known: "from_known (cluster w) d" using Cons.prems x by simp
  note keep = known_heartbeat_keeps [OF known, of now pord l disc]
  have "from_known (cluster ?w) e = from_known (cluster w) e" for e
    using conjunct2 [OF keep] unfolding from_known_def by (metis domIff)
  then have "\<forall>(now, pord, d)\<in>set ds. from_known (cluster ?w) d" using Cons.prems by auto
  from Cons.IH [OF this] conjunct1 [OF keep] x show ?case by simp
qed simp

section \<open>Properties\<close>

text \<open>
  The command line reaches the Raft library unchanged. When the peers are written in the form of
  the help text (IDs without \<open>,\<close> and \<open>=\<close>, addresses without \<open>,\<close>), reading the flag gives back exactly
  the peers in their order, the API address table maps each ID to the last address given for it, and
  a bootstrapping master that can open its stores bootstraps the cluster of itself followed by them.
\<close>

theorem peer_flags_roundtrip:
  assumes "\<forall>p\<in>set ps. writable_peer p" and "ps \<noteq> []"
    and "roMkdirAll opens = None" and "roBoltStore opens = None" and "roSnapshotStore opens = None"
    and "roResolve opens = None" and "roTransport opens = None" and "\<And>c. roNewRaft opens c = None"
    and "\<And>l. roBootstrap opens l = None"
  shows "raft_peers_of_flag (peers_flag ps) = ps \<and>
    api_peers_of_flag (peers_flag ps) = map_of (rev (map (\<lambda>p. (rpID p, rpAddress p)) ps)) \<and>
    (\<exists>c. NewRaftNode (raft_config_of_flags i a dir True (peers_flag ps)) opens =
      Inr \<lparr>rsConfig = c, rsServers = Some (\<lparr>rpID = i, rpAddress = a\<rparr> # ps)\<rparr>)"
proof -
  have peers: "raft_peers_of_flag (peers_flag ps) = ps"
    using peers_of_join [OF assms(1,2)] assms(1) by (simp add: raft_peers_of_flag_def raft_peers_loop_text)
  moreover have "api_peers_of_flag (peers_flag ps) = map_of (rev (map (\<lambda>p. (rpID p, rpAddress p)) ps))"
    using peers_of_join [OF assms(1,2)] assms(1) by (simp add: api_peers_of_flag_def api_peers_loop_text)
  ultimately show ?thesis
    using assms(3-9) by (simp add: NewRaftNode_def raft_config_of_flags_def bootstrap_servers_eq)
qed

theorem peer_flags_roundtrip_witness:
  "raft_peers_of_flag ''m2=h2:9000,m3=h3:9000'' =
     [\<lparr>rpID = ''m2'', rpAddress = ''h2:9000''\<rparr>, \<lparr>rpID = ''m3'', rpAddress = ''h3:9000''\<rparr>]"
proof -
  let ?ps = "[\<lparr>rpID = ''m2'', rpAddress = ''h2:9000''\<rparr>, \<lparr>rpID = ''m3'', rpAddress = ''h3:9000''\<rparr>]"
  let ?ok = "\<lparr>roMkdirAll = None, roBoltStore = None, roSnapshotStore = None, roResolve = None,
    roTransport = None, roNewRaft = (\<lambda>_. None), roBootstrap = (\<lambda>_. None)\<rparr> :: raft_opens"
  have "raft_peers_of_flag (peers_flag ?ps) = ?ps"
    using peer_flags_roundtrip [of ?ps ?ok] by (simp add: writable_peer_def)
  moreover have "peers_flag ?ps = ''m2=h2:9000,m3=h3:9000''"
    by (simp add: peers_flag_def peer_text_def)
  ultimately show ?thesis by (simp only:)
qed

text \<open>
  C35: where a worker lands. With the default pools in place, a worker with a whole number of cores
  joins one pool, the same for every map order: \<open>high-ram\<close> above 32768 MB, otherwise \<open>general\<close> up to 3
  cores and \<open>high-cpu\<close> above; a worker with more than 128 cores, more than 1048576 MB or a negative
  RAM value joins none. So the ranges are disjoint, but they do not cover every node.
\<close>

theorem node_joins_default_pool:
  assumes "pools s = pools_with ids" and "iterates ord (pools s)" and "nTotalCPU n = Fin (of_nat cores)"
  shows "AssignNodeToPool ord i n s =
      (case pool_for cores (sint (nTotalRAM n)) of
         None \<Rightarrow> (False, s)
       | Some p \<Rightarrow> (True, s\<lparr>pools := pools_with (ids(pID p :=
           ids (pID p) @ (if i \<in> set (ids (pID p)) then [] else [i])))\<rparr>)) \<and>
    pools (master_start NewState) = pools_with (\<lambda>_. [])"
proof -
  have start: "pools (master_start NewState) = pools_with (\<lambda>_. [])"
    by (simp add: default_pools pools_with_def NewState_def general_pool_def high_cpu_pool_def
        high_ram_pool_def zero_pool_def)
  have upd: "(pools_with ids)(pID p := map_option (join_pool i) (pools_with ids (pID p))) =
      pools_with (ids(pID p := ids (pID p) @ (if i \<in> set (ids (pID p)) then [] else [i])))"
    if "p \<in> {general_pool, high_cpu_pool, high_ram_pool}" for p
    using that by (auto simp: pools_with_def join_pool_def default_pool_fields fun_eq_iff)
  have "p \<in> {general_pool, high_cpu_pool, high_ram_pool}" if "pool_for cores (sint (nTotalRAM n)) = Some p" for p
    using that by (auto simp: pool_for_def split: if_splits)
  then show ?thesis
    using start by (auto simp: AssignNodeToPool_eq default_match_pool_for [OF assms] assms(1) upd
        split: option.split)
qed

theorem node_joins_default_pool_witness:
  "\<not> fst (AssignNodeToPool [''general'', ''high-cpu'', ''high-ram''] ''big''
     (zero_node\<lparr>nTotalCPU := Fin 256, nTotalRAM := 1024\<rparr>) (master_start NewState)) \<and>
   fst (AssignNodeToPool [''high-ram'', ''general'', ''high-cpu''] ''a''
     (zero_node\<lparr>nTotalCPU := Fin 2, nTotalRAM := 1024\<rparr>) (master_start NewState))"
proof -
  have start: "pools (master_start NewState) = pools_with (\<lambda>_. [])"
    by (simp add: default_pools pools_with_def NewState_def general_pool_def high_cpu_pool_def
        high_ram_pool_def zero_pool_def)
  have it: "iterates [''general'', ''high-cpu'', ''high-ram''] (pools (master_start NewState))"
    "iterates [''high-ram'', ''general'', ''high-cpu''] (pools (master_start NewState))"
    unfolding start by (auto simp: iterates_def pools_with_def)
  show ?thesis
    using node_joins_default_pool [OF start it(1), of "zero_node\<lparr>nTotalCPU := Fin 256, nTotalRAM := 1024\<rparr>" 256 "''big''"]
      node_joins_default_pool [OF start it(2), of "zero_node\<lparr>nTotalCPU := Fin 2, nTotalRAM := 1024\<rparr>" 2 "''a''"]
    by (simp add: pool_for_def del: AssignNodeToPool.simps)
qed

text \<open>
  C36: a master that starts from a restored snapshot strands the nodes it knows. Starting adds the
  default pools anew, with empty node lists, over the restored ones, and a heartbeat of a known node
  does not assign it again: whatever known nodes send from then on, nothing can be planned in a
  default pool.
\<close>

theorem restart_strands_known_nodes:
  assumes "\<forall>(now, pord, d)\<in>set ds. from_known s d"
    and "sPoolID svc \<in> {''general'', ''high-cpu'', ''high-ram''}"
  shows "Plan lb ord (cluster (receive_all (Some (HandleLateHeartbeat isLeader)) disc ds
      (NewTolerance (master_start s)))) svc n = Inl (NoNodesInPool (sPoolID svc))"
proof -
  let ?t = "cluster (receive_all (Some (HandleLateHeartbeat isLeader)) disc ds (NewTolerance (master_start s)))"
  have "\<forall>(now, pord, d)\<in>set ds. from_known (cluster (NewTolerance (master_start s))) d"
    using assms(1) by (simp add: NewTolerance_def from_known_def)
  from receive_all_known [OF this] have "pools ?t = pools (add_default_pools s)"
    by (simp add: NewTolerance_def)
  then have "GetPoolNodes (sPoolID svc) ?t = []"
    using assms(2) by (auto simp: GetPoolNodes_def default_pools default_pool_fields)
  then show ?thesis by (simp add: Plan_def)
qed

theorem restart_strands_known_nodes_witness:
  "let n = zero_node\<lparr>nID := ''a'', nStatus := NodeAlive, nTotalCPU := Fin 2, nTotalRAM := 1024\<rparr>;
       s = snd (AssignNodeToPool [''general''] ''a'' n (AddNode n (master_start NewState)))
   in map nID (GetPoolNodes ''general'' s) = [''a''] \<and>
      Plan (lb_of_flag ''leastconn'') (\<lambda>_. []) (cluster (receive_all (Some (HandleLateHeartbeat None)) None
        [(7, \<lambda>_. [], enc_heartbeat (zero_heartbeat\<lparr>hbNodeID := ''a''\<rparr>))] (NewTolerance (master_start s))))
        (zero_service\<lparr>sPoolID := ''general''\<rparr>) 1 = Inl (NoNodesInPool ''general'')"
proof -
  define n where "n = zero_node\<lparr>nID := ''a'', nStatus := NodeAlive, nTotalCPU := Fin 2, nTotalRAM := 1024\<rparr>"
  define s where "s = snd (AssignNodeToPool [''general''] ''a'' n (AddNode n (master_start NewState)))"
  define hb where "hb = zero_heartbeat\<lparr>hbNodeID := ''a''\<rparr>"
  have "nodes (master_start NewState) = Map.empty" by (simp, simp add: NewState_def)
  then have n: "nodes s = [''a'' \<mapsto> n]"
    by (simp add: s_def n_def node_table.lookup_add del: AssignNodeToPool.simps)
  have "MatchesNode general_pool n"
    by (simp add: MatchesNode_def default_pool_fields n_def word_sle_eq less_eq_f64_def)
  then have "pools s ''general'' = Some (general_pool\<lparr>pNodeIDs := [''a'']\<rparr>)"
    by (simp add: s_def default_pools default_pool_fields)
  then have pool: "map nID (GetPoolNodes ''general'' s) = [''a'']"
    by (simp add: GetPoolNodes_def n) (simp add: n_def)
  have "heartbeat_ok hb"
    by (simp add: hb_def heartbeat_ok_def zero_heartbeat_def finite_f64_def zero_f64_def byte_in_def)
  then obtain j where "enc_heartbeat hb = Some j" "dec_heartbeat j zero_heartbeat = (hb, True)"
    using handleHeartbeat_decoded by blast
  then have "from_known s (enc_heartbeat hb)" by (auto simp: from_known_def n hb_def)
  then have "Plan (lb_of_flag ''leastconn'') (\<lambda>_. []) (cluster (receive_all (Some (HandleLateHeartbeat None)) None
        [(7, \<lambda>_. [], enc_heartbeat hb)] (NewTolerance (master_start s))))
        (zero_service\<lparr>sPoolID := ''general''\<rparr>) 1 = Inl (NoNodesInPool ''general'')"
    by (subst restart_strands_known_nodes) simp_all
  with pool show ?thesis
    unfolding Let_def n_def [symmetric] s_def [symmetric] hb_def [symmetric] by (rule conjI)
qed

end
