(* ===== verification/Jwt.thy ===== *)
theory Jwt
  imports Command
begin

text \<open>
  The tokens of \<open>internal/security/jwt.go\<close>. The library \<open>golang-jwt\<close> is not part of the repository:
  it is an argument, a \<open>jwt_library\<close>, and \<open>jwt_laws\<close> states what its documentation promises and the code
  relies on. The claims structs embed the library's registered claims, so what is signed is the JSON
  object of the struct's own fields together with the two times that are set.
\<close>

section \<open>The library\<close>

datatype signing_method = HMAC go_string | OtherMethod go_string

type_synonym json_object = "(go_string \<times> json) list"

record claims_object =
  coFields :: json_object
  coExpiresAt :: "go_time option"
  coIssuedAt :: "go_time option"

text \<open>A key function gets the method a token claims to be signed with, and gives the key.\<close>

type_synonym key_function = "signing_method \<Rightarrow> go_string + go_string"

text \<open>
  \<open>jlSign\<close> is \<open>NewWithClaims(SigningMethodHS256, claims).SignedString(key)\<close>. \<open>jlParse now tok decodes kf\<close>
  is \<open>ParseWithClaims\<close>: \<open>decodes\<close> tells whether the fields fit the claims struct, and the result is an
  error text, or the payload and the flag \<open>Valid\<close>. \<open>jlMethod\<close> is the method named in a token's header,
  \<open>jlVerify\<close> whether its signature is right for a method and a key.
\<close>

record jwt_library =
  jlSign :: "claims_object \<Rightarrow> go_string \<Rightarrow> go_string + go_string"
  jlParse :: "go_time \<Rightarrow> go_string \<Rightarrow> (json_object \<Rightarrow> bool) \<Rightarrow> key_function \<Rightarrow>
    go_string + (claims_object \<times> bool)"
  jlMethod :: "go_string \<Rightarrow> signing_method"
  jlVerify :: "signing_method \<Rightarrow> go_string \<Rightarrow> go_string \<Rightarrow> bool"
  jlPayload :: "go_string \<Rightarrow> json_object"

text \<open>The times of a token have a precision of one second.\<close>

definition whole_seconds :: "go_time \<Rightarrow> go_time" where
  "whole_seconds t = t div second * second"

definition as_parsed :: "claims_object \<Rightarrow> claims_object" where
  "as_parsed obj = obj\<lparr>coExpiresAt := map_option whole_seconds (coExpiresAt obj),
     coIssuedAt := map_option whole_seconds (coIssuedAt obj)\<rparr>"

text \<open>
  A signed token parses to what was signed until it expires and not after; a token that parses has
  fields that decode, and a signature that is right for the key that the key function gives for its
  own method.
\<close>

definition jwt_laws :: "jwt_library \<Rightarrow> bool" where
  "jwt_laws lib \<longleftrightarrow>
     (\<forall>obj key tok e now dec kf. jlSign lib obj key = Inr tok \<longrightarrow> coExpiresAt obj = Some e \<longrightarrow>
        kf (HMAC ''HS256'') = Inr key \<longrightarrow> dec (coFields obj) \<longrightarrow>
        (if now < whole_seconds e then jlParse lib now tok dec kf = Inr (as_parsed obj, True)
         else \<exists>err. jlParse lib now tok dec kf = Inl err)) \<and>
     (\<forall>now tok dec kf obj. jlParse lib now tok dec kf = Inr (obj, True) \<longrightarrow>
        dec (coFields obj) \<and> coFields obj = jlPayload lib tok \<and>
        (\<exists>key. kf (jlMethod lib tok) = Inr key \<and> jlVerify lib (jlMethod lib tok) key tok))"

lemma jwt_laws_accept:
  assumes "jwt_laws lib" and "jlSign lib obj key = Inr tok" and "coExpiresAt obj = Some e"
    and "kf (HMAC ''HS256'') = Inr key" and "dec (coFields obj)" and "now < whole_seconds e"
  shows "jlParse lib now tok dec kf = Inr (as_parsed obj, True)"
  using assms unfolding jwt_laws_def by fastforce

lemma jwt_laws_expired:
  assumes "jwt_laws lib" and "jlSign lib obj key = Inr tok" and "coExpiresAt obj = Some e"
    and "kf (HMAC ''HS256'') = Inr key" and "dec (coFields obj)" and "whole_seconds e \<le> now"
  shows "\<exists>err. jlParse lib now tok dec kf = Inl err"
  using assms unfolding jwt_laws_def by (metis linorder_not_le)

lemma jwt_laws_sound:
  assumes "jwt_laws lib" and "jlParse lib now tok dec kf = Inr (obj, True)"
  shows "dec (coFields obj)" and "coFields obj = jlPayload lib tok"
    and "\<exists>key. kf (jlMethod lib tok) = Inr key \<and> jlVerify lib (jlMethod lib tok) key tok"
  using assms unfolding jwt_laws_def by blast+

section \<open>The structs\<close>

record token_pair =
  tpAccessToken :: go_string
  tpRefreshToken :: go_string
  tpExpiresIn :: int

record claims =
  clUserID :: go_string
  clRole :: go_string
  clTokenType :: go_string

record refresh_claims =
  rcUserID :: go_string
  rcTokenType :: go_string

definition zero_claims :: claims where
  "zero_claims = \<lparr>clUserID = '''', clRole = '''', clTokenType = ''''\<rparr>"

definition zero_refresh_claims :: refresh_claims where
  "zero_refresh_claims = \<lparr>rcUserID = '''', rcTokenType = ''''\<rparr>"

text \<open>A string field is written as a string, which cannot fail.\<close>

definition claims_json :: "claims \<Rightarrow> json_object" where
  "claims_json c = [(''userID'', JStr (to_valid_utf8 (clUserID c))), (''role'', JStr (to_valid_utf8 (clRole c))),
     (''type'', JStr (to_valid_utf8 (clTokenType c)))]"

definition refresh_claims_json :: "refresh_claims \<Rightarrow> json_object" where
  "refresh_claims_json c = [(''userID'', JStr (to_valid_utf8 (rcUserID c))),
     (''type'', JStr (to_valid_utf8 (rcTokenType c)))]"

definition claims_fields :: "(go_string \<times> claims decoder) list" where
  "claims_fields = [(''userID'', fld clUserID_update clUserID dec_string),
     (''role'', fld clRole_update clRole dec_string), (''type'', fld clTokenType_update clTokenType dec_string)]"

definition refresh_claims_fields :: "(go_string \<times> refresh_claims decoder) list" where
  "refresh_claims_fields = [(''userID'', fld rcUserID_update rcUserID dec_string),
     (''type'', fld rcTokenType_update rcTokenType dec_string)]"

record jwt_manager =
  jmSecret :: go_string
  jmAccessDuration :: duration
  jmRefreshDuration :: duration

definition NewJWTManager :: "go_string \<Rightarrow> duration \<Rightarrow> duration \<Rightarrow> jwt_manager" where
  "NewJWTManager secret access refresh =
     \<lparr>jmSecret = secret, jmAccessDuration = access, jmRefreshDuration = refresh\<rparr>"

text \<open>\<open>Duration.Seconds\<close>: whole seconds plus the rest as a fraction, in floating point.\<close>

definition duration_Seconds :: "duration \<Rightarrow> f64" where
  "duration_Seconds d =
     f64_of_int (sgn d * (\<bar>d\<bar> div second)) + f64_div (f64_of_int (sgn d * (\<bar>d\<bar> mod second))) (Fin 1000000000)"

section \<open>The operations\<close>

datatype jwt_error =
    SignAccessToken go_string
  | SignRefreshToken go_string
  | InvalidToken go_string
  | InvalidTokenClaims
  | InvalidRefreshToken go_string
  | InvalidRefreshTokenClaims

text \<open>A number of seconds outside of the range of \<open>int64\<close> is not reached: a duration has 64 bits.\<close>

definition GenerateTokenPair ::
  "jwt_library \<Rightarrow> jwt_manager \<Rightarrow> go_time \<Rightarrow> go_string \<Rightarrow> go_string \<Rightarrow> jwt_error + token_pair" where
  "GenerateTokenPair lib m now userID role =
     (case jlSign lib \<lparr>coFields = claims_json \<lparr>clUserID = userID, clRole = role, clTokenType = ''access''\<rparr>,
            coExpiresAt = Some (now + jmAccessDuration m), coIssuedAt = Some now\<rparr> (jmSecret m) of
        Inl err \<Rightarrow> Inl (SignAccessToken err)
      | Inr accessStr \<Rightarrow>
          (case jlSign lib \<lparr>coFields = refresh_claims_json \<lparr>rcUserID = userID, rcTokenType = ''refresh''\<rparr>,
                coExpiresAt = Some (now + jmRefreshDuration m), coIssuedAt = Some now\<rparr> (jmSecret m) of
             Inl err \<Rightarrow> Inl (SignRefreshToken err)
           | Inr refreshStr \<Rightarrow>
               Inr \<lparr>tpAccessToken = accessStr, tpRefreshToken = refreshStr,
                 tpExpiresIn = the (f64_to_int64 (duration_Seconds (jmAccessDuration m)))\<rparr>))"

text \<open>The key function of both validations: only HMAC methods get the secret.\<close>

definition secret_for :: "jwt_manager \<Rightarrow> key_function" where
  "secret_for m method' =
     (case method' of
        HMAC alg \<Rightarrow> Inr (jmSecret m)
      | OtherMethod alg \<Rightarrow> Inl (''unexpected signing method: '' @ alg))"

definition ValidateAccessToken ::
  "jwt_library \<Rightarrow> jwt_manager \<Rightarrow> go_time \<Rightarrow> go_string \<Rightarrow> jwt_error + claims" where
  "ValidateAccessToken lib m now tokenStr =
     (case jlParse lib now tokenStr (\<lambda>kvs. snd (dec_fields claims_fields kvs zero_claims)) (secret_for m) of
        Inl err \<Rightarrow> Inl (InvalidToken err)
      | Inr (token, valid) \<Rightarrow>
          (let claims = fst (dec_fields claims_fields (coFields token) zero_claims) in
           if \<not> valid \<or> clTokenType claims \<noteq> ''access'' then Inl InvalidTokenClaims
           else Inr claims))"

definition ValidateRefreshToken ::
  "jwt_library \<Rightarrow> jwt_manager \<Rightarrow> go_time \<Rightarrow> go_string \<Rightarrow> jwt_error + go_string" where
  "ValidateRefreshToken lib m now tokenStr =
     (case jlParse lib now tokenStr (\<lambda>kvs. snd (dec_fields refresh_claims_fields kvs zero_refresh_claims))
         (secret_for m) of
        Inl err \<Rightarrow> Inl (InvalidRefreshToken err)
      | Inr (token, valid) \<Rightarrow>
          (let claims = fst (dec_fields refresh_claims_fields (coFields token) zero_refresh_claims) in
           if \<not> valid \<or> rcTokenType claims \<noteq> ''refresh'' then Inl InvalidRefreshTokenClaims
           else Inr (rcUserID claims)))"

section \<open>What the fields decode to\<close>

lemma field_for_claims:
  "field_for claims_fields k =
     (if k = ''userID'' then Some (fld clUserID_update clUserID dec_string)
      else if k = ''role'' then Some (fld clRole_update clRole dec_string)
      else if k = ''type'' then Some (fld clTokenType_update clTokenType dec_string)
      else if fold_name k = ''USERID'' then Some (fld clUserID_update clUserID dec_string)
      else if fold_name k = ''ROLE'' then Some (fld clRole_update clRole dec_string)
      else if fold_name k = ''TYPE'' then Some (fld clTokenType_update clTokenType dec_string) else None)"
proof -
  have "fold_name ''userID'' = ''USERID''" "fold_name ''role'' = ''ROLE''" "fold_name ''type'' = ''TYPE''"
    by (simp_all add: byte_in_def char_of_def bit_Suc_0_iff)
  then show ?thesis by (simp add: field_for_def claims_fields_def)
qed

lemma field_for_refresh_claims:
  "field_for refresh_claims_fields k =
     (if k = ''userID'' then Some (fld rcUserID_update rcUserID dec_string)
      else if k = ''type'' then Some (fld rcTokenType_update rcTokenType dec_string)
      else if fold_name k = ''USERID'' then Some (fld rcUserID_update rcUserID dec_string)
      else if fold_name k = ''TYPE'' then Some (fld rcTokenType_update rcTokenType dec_string) else None)"
proof -
  have "fold_name ''userID'' = ''USERID''" "fold_name ''type'' = ''TYPE''"
    by (simp_all add: byte_in_def char_of_def bit_Suc_0_iff)
  then show ?thesis by (simp add: field_for_def refresh_claims_fields_def)
qed

text \<open>The two structs read the type of a token from the same key.\<close>

lemma same_token_type:
  "clTokenType a = rcTokenType b \<Longrightarrow>
     clTokenType (fst (dec_fields claims_fields kvs a)) = rcTokenType (fst (dec_fields refresh_claims_fields kvs b))"
proof (induction kvs arbitrary: a b)
  case (Cons kv kvs)
  obtain k j where kv: "kv = (k, j)" by (cases kv)
  have step: "fst (dec_fields fs ((k, j) # kvs) r) =
      fst (dec_fields fs kvs (case field_for fs k of None \<Rightarrow> r | Some d \<Rightarrow> fst (d j r)))"
    for fs :: "(go_string \<times> 'r decoder) list" and r
    by (simp add: case_prod_beta split: option.split)
  have "fold_name ''role'' \<noteq> ''TYPE''" "fold_name ''role'' \<noteq> ''USERID''"
    by (simp_all add: byte_in_def char_of_def bit_Suc_0_iff)
  then show ?case
    unfolding kv step using Cons.prems
    by (intro Cons.IH) (auto simp: field_for_claims field_for_refresh_claims fld_def case_prod_beta)
qed simp

lemma dec_claims_json:
  "valid_utf8 (clUserID c) \<Longrightarrow> valid_utf8 (clRole c) \<Longrightarrow> valid_utf8 (clTokenType c) \<Longrightarrow>
     dec_fields claims_fields (claims_json c) zero_claims = (c, True)"
  by (simp add: claims_json_def field_for_claims fld_def dec_string_def zero_claims_def)

lemma dec_refresh_claims_json:
  "valid_utf8 (rcUserID c) \<Longrightarrow> valid_utf8 (rcTokenType c) \<Longrightarrow>
     dec_fields refresh_claims_fields (refresh_claims_json c) zero_refresh_claims = (c, True)"
  by (simp add: refresh_claims_json_def field_for_refresh_claims fld_def dec_string_def zero_refresh_claims_def)

lemma valid_token_types [simp]: "valid_utf8 ''access''" "valid_utf8 ''refresh''"
  by (simp_all add: byte_in_def)

lemma secret_for_HMAC [simp]: "secret_for m (HMAC alg) = Inr (jmSecret m)"
  by (simp add: secret_for_def)

lemma secret_for_Inr: "secret_for m meth = Inr key \<Longrightarrow> (\<exists>alg. meth = HMAC alg) \<and> key = jmSecret m"
  by (cases meth) (simp_all add: secret_for_def)

lemma GenerateTokenPair_Inr:
  assumes "GenerateTokenPair lib m t u r = Inr p"
  shows "jlSign lib \<lparr>coFields = claims_json \<lparr>clUserID = u, clRole = r, clTokenType = ''access''\<rparr>,
            coExpiresAt = Some (t + jmAccessDuration m), coIssuedAt = Some t\<rparr> (jmSecret m) = Inr (tpAccessToken p)"
    and "jlSign lib \<lparr>coFields = refresh_claims_json \<lparr>rcUserID = u, rcTokenType = ''refresh''\<rparr>,
            coExpiresAt = Some (t + jmRefreshDuration m), coIssuedAt = Some t\<rparr> (jmSecret m) = Inr (tpRefreshToken p)"
  using assms by (auto simp: GenerateTokenPair_def split: sum.splits)

lemma access_token_valid:
  assumes "jwt_laws lib" and "GenerateTokenPair lib m t u r = Inr p" and "valid_utf8 u" and "valid_utf8 r"
    and "now < whole_seconds (t + jmAccessDuration m)"
  shows "ValidateAccessToken lib m now (tpAccessToken p) =
    Inr \<lparr>clUserID = u, clRole = r, clTokenType = ''access''\<rparr>"
proof -
  have "jlParse lib now (tpAccessToken p) (\<lambda>kvs. snd (dec_fields claims_fields kvs zero_claims)) (secret_for m) =
      Inr (as_parsed \<lparr>coFields = claims_json \<lparr>clUserID = u, clRole = r, clTokenType = ''access''\<rparr>,
        coExpiresAt = Some (t + jmAccessDuration m), coIssuedAt = Some t\<rparr>, True)"
    using assms(3-5) by (intro jwt_laws_accept [OF assms(1) GenerateTokenPair_Inr(1) [OF assms(2)]])
      (simp_all add: dec_claims_json)
  then show ?thesis
    using assms(3,4) by (simp add: ValidateAccessToken_def as_parsed_def dec_claims_json)
qed

lemma refresh_token_valid:
  assumes "jwt_laws lib" and "GenerateTokenPair lib m t u r = Inr p" and "valid_utf8 u"
    and "now < whole_seconds (t + jmRefreshDuration m)"
  shows "ValidateRefreshToken lib m now (tpRefreshToken p) = Inr u"
proof -
  have "jlParse lib now (tpRefreshToken p)
        (\<lambda>kvs. snd (dec_fields refresh_claims_fields kvs zero_refresh_claims)) (secret_for m) =
      Inr (as_parsed \<lparr>coFields = refresh_claims_json \<lparr>rcUserID = u, rcTokenType = ''refresh''\<rparr>,
        coExpiresAt = Some (t + jmRefreshDuration m), coIssuedAt = Some t\<rparr>, True)"
    using assms(3,4) by (intro jwt_laws_accept [OF assms(1) GenerateTokenPair_Inr(2) [OF assms(2)]])
      (simp_all add: dec_refresh_claims_json)
  then show ?thesis
    using assms(3) by (simp add: ValidateRefreshToken_def as_parsed_def dec_refresh_claims_json)
qed

lemma tokens_expire:
  assumes "jwt_laws lib" and "GenerateTokenPair lib m t u r = Inr p" and "valid_utf8 u" and "valid_utf8 r"
  shows "whole_seconds (t + jmAccessDuration m) \<le> now \<Longrightarrow>
      \<exists>err. ValidateAccessToken lib m now (tpAccessToken p) = Inl err"
    and "whole_seconds (t + jmRefreshDuration m) \<le> now \<Longrightarrow>
      \<exists>err. ValidateRefreshToken lib m now (tpRefreshToken p) = Inl err"
proof -
  show "\<exists>err. ValidateAccessToken lib m now (tpAccessToken p) = Inl err"
    if "whole_seconds (t + jmAccessDuration m) \<le> now"
    using jwt_laws_expired [OF assms(1) GenerateTokenPair_Inr(1) [OF assms(2)], of _ "secret_for m"
        "\<lambda>kvs. snd (dec_fields claims_fields kvs zero_claims)" now] that assms(3,4)
    by (auto simp: ValidateAccessToken_def dec_claims_json)
  show "\<exists>err. ValidateRefreshToken lib m now (tpRefreshToken p) = Inl err"
    if "whole_seconds (t + jmRefreshDuration m) \<le> now"
    using jwt_laws_expired [OF assms(1) GenerateTokenPair_Inr(2) [OF assms(2)], of _ "secret_for m"
        "\<lambda>kvs. snd (dec_fields refresh_claims_fields kvs zero_refresh_claims)" now] that assms(3)
    by (auto simp: ValidateRefreshToken_def dec_refresh_claims_json)
qed

lemma access_token_signed:
  assumes "jwt_laws lib" and "ValidateAccessToken lib m now tok = Inr c"
  shows "clTokenType c = ''access''" and "c = fst (dec_fields claims_fields (jlPayload lib tok) zero_claims)"
    and "\<exists>alg. jlMethod lib tok = HMAC alg \<and> jlVerify lib (HMAC alg) (jmSecret m) tok"
proof -
  obtain obj where obj: "jlParse lib now tok (\<lambda>kvs. snd (dec_fields claims_fields kvs zero_claims)) (secret_for m) =
      Inr (obj, True)" "c = fst (dec_fields claims_fields (coFields obj) zero_claims)" "clTokenType c = ''access''"
    using assms(2) by (auto simp: ValidateAccessToken_def Let_def split: sum.splits if_splits)
  note sound = jwt_laws_sound [OF assms(1) obj(1)]
  show "clTokenType c = ''access''" by (rule obj(3))
  show "c = fst (dec_fields claims_fields (jlPayload lib tok) zero_claims)" using obj(2) sound(2) by simp
  show "\<exists>alg. jlMethod lib tok = HMAC alg \<and> jlVerify lib (HMAC alg) (jmSecret m) tok"
    using sound(3) secret_for_Inr by metis
qed

lemma refresh_token_signed:
  assumes "jwt_laws lib" and "ValidateRefreshToken lib m now tok = Inr u"
  shows "rcTokenType (fst (dec_fields refresh_claims_fields (jlPayload lib tok) zero_refresh_claims)) = ''refresh''"
    and "\<exists>alg. jlMethod lib tok = HMAC alg \<and> jlVerify lib (HMAC alg) (jmSecret m) tok"
proof -
  obtain obj where obj: "jlParse lib now tok
      (\<lambda>kvs. snd (dec_fields refresh_claims_fields kvs zero_refresh_claims)) (secret_for m) = Inr (obj, True)"
      "rcTokenType (fst (dec_fields refresh_claims_fields (coFields obj) zero_refresh_claims)) = ''refresh''"
    using assms(2) by (auto simp: ValidateRefreshToken_def Let_def split: sum.splits if_splits)
  note sound = jwt_laws_sound [OF assms(1) obj(1)]
  show "rcTokenType (fst (dec_fields refresh_claims_fields (jlPayload lib tok) zero_refresh_claims)) = ''refresh''"
    using obj(2) sound(2) by simp
  show "\<exists>alg. jlMethod lib tok = HMAC alg \<and> jlVerify lib (HMAC alg) (jmSecret m) tok"
    using sound(3) secret_for_Inr by metis
qed

section \<open>A library for concrete runs\<close>

text \<open>A library that knows the finitely many tokens of a table, all signed with one key.\<close>

definition table_library :: "go_string \<Rightarrow> (go_string \<times> claims_object) list \<Rightarrow> jwt_library" where
  "table_library key table =
     \<lparr>jlSign = (\<lambda>obj k. if k \<noteq> key then Inl ''unknown key''
        else case List.find (\<lambda>(tok, o'). o' = obj) table of None \<Rightarrow> Inl ''unknown claims'' | Some (tok, _) \<Rightarrow> Inr tok),
      jlParse = (\<lambda>now tok dec kf. case map_of table tok of None \<Rightarrow> Inl ''token is malformed''
        | Some obj \<Rightarrow> (case kf (HMAC ''HS256'') of Inl err \<Rightarrow> Inl err | Inr k \<Rightarrow>
            if k \<noteq> key then Inl ''signature is invalid'' else if \<not> dec (coFields obj) then Inl ''bad claims''
            else (case coExpiresAt obj of
                Some e \<Rightarrow> if now < whole_seconds e then Inr (as_parsed obj, True) else Inl ''token is expired''
              | None \<Rightarrow> Inr (as_parsed obj, True)))),
      jlMethod = (\<lambda>_. HMAC ''HS256''), jlVerify = (\<lambda>_ k _. k = key),
      jlPayload = (\<lambda>tok. case map_of table tok of None \<Rightarrow> [] | Some obj \<Rightarrow> coFields obj)\<rparr>"

lemma table_library_laws:
  assumes "distinct (map fst table)"
  shows "jwt_laws (table_library key table)"
proof -
  have known: "map_of table tok = Some obj" if "jlSign (table_library key table) obj k = Inr tok" for obj k tok
  proof -
    have "List.find (\<lambda>(tok, o'). o' = obj) table = Some (tok, obj)"
      using that by (auto simp: table_library_def find_Some_iff split: if_splits option.splits)
    then have "(tok, obj) \<in> set table" by (metis find_Some_iff nth_mem)
    then show ?thesis using assms by simp
  qed
  have signkey: "k = key" if "jlSign (table_library key table) obj k = Inr tok" for obj k tok
    using that by (auto simp: table_library_def split: if_splits)
  show ?thesis
    unfolding jwt_laws_def
  proof (intro conjI allI impI)
    fix obj k tok e now dec and kf :: key_function
    assume a: "jlSign (table_library key table) obj k = Inr tok" "coExpiresAt obj = Some e"
      "kf (HMAC ''HS256'') = Inr k" "dec (coFields obj)"
    from known [OF a(1)] signkey [OF a(1)] a(2-4) show "if now < whole_seconds e
        then jlParse (table_library key table) now tok dec kf = Inr (as_parsed obj, True)
        else \<exists>err. jlParse (table_library key table) now tok dec kf = Inl err"
      by (simp add: table_library_def)
  next
    fix now tok dec and kf :: key_function and obj
    assume parse: "jlParse (table_library key table) now tok dec kf = Inr (obj, True)"
    obtain o' k where "map_of table tok = Some o'" "kf (HMAC ''HS256'') = Inr k"
      using parse by (cases "map_of table tok"; cases "kf (HMAC ''HS256'')") (simp_all add: table_library_def)
    moreover from this have "k = key" "dec (coFields o')" "obj = as_parsed o'"
      using parse by (auto simp: table_library_def split: if_splits option.splits)
    ultimately show "dec (coFields obj)" "coFields obj = jlPayload (table_library key table) tok"
      "\<exists>key'. kf (jlMethod (table_library key table) tok) = Inr key' \<and>
        jlVerify (table_library key table) (jlMethod (table_library key table) tok) key' tok"
      by (simp_all add: table_library_def as_parsed_def)
  qed
qed

definition fixture_manager :: jwt_manager where
  "fixture_manager = NewJWTManager ''k'' (900 * second) (86400 * second)"

definition fixture_jwt :: jwt_library where
  "fixture_jwt = table_library ''k''
     [(''acc'', \<lparr>coFields = claims_json \<lparr>clUserID = ''u3'', clRole = RoleReader, clTokenType = ''access''\<rparr>,
        coExpiresAt = Some (900 * second), coIssuedAt = Some 0\<rparr>),
      (''ref'', \<lparr>coFields = refresh_claims_json \<lparr>rcUserID = ''u3'', rcTokenType = ''refresh''\<rparr>,
        coExpiresAt = Some (86400 * second), coIssuedAt = Some 0\<rparr>)]"

lemma fixture_jwt_laws [simp]: "jwt_laws fixture_jwt"
  unfolding fixture_jwt_def by (rule table_library_laws) simp

lemma seconds_900: "f64_to_int64 (duration_Seconds (900 * second)) = Some 900"
proof -
  have "rnd 900 = 900" by simp
  then show ?thesis
    by (simp add: duration_Seconds_def second_def f64_of_int_def f64_of_rat_def f64_plus_Fin f64_to_int64_def)
qed

lemma fixture_tokens:
  "GenerateTokenPair fixture_jwt fixture_manager 0 ''u3'' RoleReader =
     Inr \<lparr>tpAccessToken = ''acc'', tpRefreshToken = ''ref'', tpExpiresIn = 900\<rparr>"
  using seconds_900
  by (simp add: GenerateTokenPair_def fixture_jwt_def table_library_def fixture_manager_def NewJWTManager_def
      claims_json_def refresh_claims_json_def)

section \<open>Properties\<close>

text \<open>
  A token pair is good for what it was made for and for no longer. Of the pair generated for a
  user, the access token validates with the user's ID and role until its time is over (rounded down
  to whole seconds) and the refresh token with the user's ID; from then on each is refused.
\<close>

theorem token_pair_lifetime:
  assumes "jwt_laws lib" and "GenerateTokenPair lib m t userID role = Inr p"
    and "valid_utf8 userID" and "valid_utf8 role"
  shows "(if now < whole_seconds (t + jmAccessDuration m)
      then ValidateAccessToken lib m now (tpAccessToken p) =
        Inr \<lparr>clUserID = userID, clRole = role, clTokenType = ''access''\<rparr>
      else \<exists>err. ValidateAccessToken lib m now (tpAccessToken p) = Inl err) \<and>
    (if now < whole_seconds (t + jmRefreshDuration m)
      then ValidateRefreshToken lib m now (tpRefreshToken p) = Inr userID
      else \<exists>err. ValidateRefreshToken lib m now (tpRefreshToken p) = Inl err)"
  using access_token_valid [OF assms] refresh_token_valid [OF assms(1-3)] tokens_expire [OF assms] by auto

theorem token_pair_lifetime_witness:
  "ValidateAccessToken fixture_jwt fixture_manager (899 * second) ''acc'' =
     Inr \<lparr>clUserID = ''u3'', clRole = RoleReader, clTokenType = ''access''\<rparr> \<and>
   (\<exists>err. ValidateAccessToken fixture_jwt fixture_manager (900 * second) ''acc'' = Inl err)"
  using token_pair_lifetime [OF fixture_jwt_laws fixture_tokens, of "899 * second"]
    token_pair_lifetime [OF fixture_jwt_laws fixture_tokens, of "900 * second"]
  by (simp add: fixture_manager_def NewJWTManager_def whole_seconds_def second_def RoleReader_def byte_in_def)

text \<open>
  C37: what is accepted is signed, and for one purpose. A token accepted as an access token or as a
  refresh token names an HMAC method and carries a signature made with the manager's secret (a token
  that names another method, or none, is refused), and no token is ever accepted as both.
\<close>

theorem accepted_tokens_signed_and_separate:
  assumes "jwt_laws lib"
  shows "(ValidateAccessToken lib m now tok = Inr c \<longrightarrow> clTokenType c = ''access'' \<and>
      (\<exists>alg. jlMethod lib tok = HMAC alg \<and> jlVerify lib (HMAC alg) (jmSecret m) tok)) \<and>
    (ValidateRefreshToken lib m now' tok = Inr u \<longrightarrow>
      (\<exists>alg. jlMethod lib tok = HMAC alg \<and> jlVerify lib (HMAC alg) (jmSecret m) tok) \<and>
      (\<nexists>c. ValidateAccessToken lib m now tok = Inr c))"
proof -
  have "False" if "ValidateAccessToken lib m now tok = Inr c" "ValidateRefreshToken lib m now' tok = Inr u" for c
    using access_token_signed(1,2) [OF assms that(1)] refresh_token_signed(1) [OF assms that(2)]
      same_token_type [of zero_claims zero_refresh_claims "jlPayload lib tok"]
    by (simp add: zero_claims_def zero_refresh_claims_def)
  then show ?thesis
    using access_token_signed(1,3) [OF assms] refresh_token_signed(2) [OF assms] by blast
qed

theorem accepted_tokens_signed_and_separate_witness:
  "\<nexists>c. ValidateAccessToken fixture_jwt fixture_manager 0 ''ref'' = Inr c"
proof -
  have "0 < whole_seconds (0 + jmRefreshDuration fixture_manager)"
    by (simp add: fixture_manager_def NewJWTManager_def whole_seconds_def second_def)
  from refresh_token_valid [OF fixture_jwt_laws fixture_tokens _ this]
  have "ValidateRefreshToken fixture_jwt fixture_manager 0 ''ref'' = Inr ''u3''" by (simp add: byte_in_def)
  then show ?thesis
    using accepted_tokens_signed_and_separate [OF fixture_jwt_laws, of fixture_manager 0 "''ref''"] by blast
qed

end
