(* ===== verification/Api.thy ===== *)
theory Api
  imports Master Setup Jwt AccessControl
begin

text \<open>
  The REST API of a master, \<open>internal/api/server.go\<close>: authentication and access control, forwarding to
  the leader, and the handlers. A request is what the handlers read of it; a body is a parsed
  document, \<open>None\<close> when it does not start with one. A handler takes the state to its outcome, the
  commands it sent to workers (an address and a command each), and the new state.

  The clock, the orders of the map loops, the outcomes of the Raft submissions, the answers of the
  workers, the random letters and the texts of errors made by libraries are an \<open>api_env\<close>, one per request.
\<close>

section \<open>HTTP\<close>

record http_request =
  rqMethod :: go_string
  rqPath :: go_string
  rqAuthorization :: go_string
  rqForwarded :: go_string
  rqBody :: "json option"
  rqAction :: go_string
  rqUser :: go_string
  rqUserID :: "go_string option"

text \<open>\<open>hrBody\<close> is \<open>None\<close> when the value could not be encoded, and for the plain texts of the multiplexer.\<close>

record http_response =
  hrStatus :: int
  hrBody :: "json option"

text \<open>\<open>Aborted\<close>: the handler panicked, and the server drops the connection.\<close>

datatype outcome =
    Respond http_response
  | Proxied go_string http_request
  | Aborted

type_synonym sent = "(go_string \<times> command) list"
type_synonym api_result = "outcome \<times> sent \<times> state"
type_synonym handler = "http_request \<Rightarrow> state \<Rightarrow> api_result"

definition writeJSON :: "int \<Rightarrow> json option \<Rightarrow> outcome" where
  "writeJSON status data = Respond \<lparr>hrStatus = status, hrBody = data\<rparr>"

definition error_body :: "go_string \<Rightarrow> json option" where
  "error_body msg = enc_strmap [(''error'', msg)]"

text \<open>A slice that is empty but not nil is written as an empty array.\<close>

definition enc_made_slice :: "('a \<Rightarrow> json option) \<Rightarrow> 'a list \<Rightarrow> json option" where
  "enc_made_slice enc xs = map_option JArr (enc_all enc xs)"

section \<open>The server\<close>

text \<open>\<open>svRaft\<close>: whether the server has a Raft node; without one the state is changed directly.\<close>

record server =
  svJwtLibrary :: jwt_library
  svJwt :: jwt_manager
  svBalancer :: balancer
  svRaft :: bool
  svPeersAPI :: "go_string \<rightharpoonup> go_string"

record api_env =
  aeNow :: go_time
  aeIsLeader :: bool
  aeLeader :: "go_string \<times> go_string"
  aeUserOrder :: "go_string list"
  aeNodeOrder :: "go_string list"
  aePoolOrder :: "go_string list"
  aeServiceOrder :: "go_string list"
  aeOrders :: "nat \<Rightarrow> container_order"
  aeServiceRaft :: raft_result
  aeRaft :: "nat \<Rightarrow> nat \<Rightarrow> raft_result"
  aeNet :: "nat \<Rightarrow> network"
  aeServiceLetters :: "nat \<Rightarrow> nat"
  aeLetters :: "nat \<Rightarrow> nat \<Rightarrow> nat"
  aeDecodeText :: go_string
  aeApplyText :: "apply_error \<Rightarrow> go_string"
  aeTokenText :: "jwt_error \<Rightarrow> go_string"

section \<open>Identifiers\<close>

definition letters :: go_string where
  "letters = ''abcdefghijklmnopqrstuvwxyz0123456789''"

text \<open>\<open>draws i\<close> is the result of the \<open>i\<close>-th \<open>rand.Intn\<close>, below the number of letters.\<close>

definition randomString :: "(nat \<Rightarrow> nat) \<Rightarrow> nat \<Rightarrow> go_string" where
  "randomString draws n = map (\<lambda>i. letters ! (draws i mod length letters)) [0..<n]"

definition generateID :: "go_string \<Rightarrow> (nat \<Rightarrow> nat) \<Rightarrow> go_string" where
  "generateID pre draws = pre @ ''-'' @ randomString draws 8"

section \<open>Authentication and authorisation\<close>

definition cannot_text :: "go_string \<Rightarrow> go_string \<Rightarrow> go_string \<Rightarrow> go_string" where
  "cannot_text role action resource = ''role '' @ role @ '' cannot '' @ action @ '' '' @ resource"

definition auth :: "server \<Rightarrow> api_env \<Rightarrow> go_string \<Rightarrow> go_string \<Rightarrow> handler \<Rightarrow> handler" where
  "auth sv env resource action next' r s =
     (let authHeader = rqAuthorization r in
      if authHeader = '''' \<or> \<not> HasPrefix authHeader ''Bearer '' then
        (writeJSON 401 (error_body ''missing or invalid Authorization header''), [], s)
      else
        (case ValidateAccessToken (svJwtLibrary sv) (svJwt sv) (aeNow env) (TrimPrefix authHeader ''Bearer '') of
           Inl err \<Rightarrow> (writeJSON 401 (error_body (''invalid token: '' @ aeTokenText env err)), [], s)
         | Inr claims \<Rightarrow>
             if \<not> CheckPermission (clRole claims) resource action then
               (writeJSON 403 (error_body (cannot_text (clRole claims) action resource)), [],
                Log (aeNow env) (clUserID claims) EventAuthDenied resource
                  (cannot_text (clRole claims) action resource) s)
             else next' (r\<lparr>rqUserID := Some (clUserID claims)\<rparr>) s))"

definition requestUserID :: "http_request \<Rightarrow> go_string" where
  "requestUserID r = (case rqUserID r of Some i \<Rightarrow> i | None \<Rightarrow> '''')"

definition leaderForward :: "server \<Rightarrow> api_env \<Rightarrow> handler \<Rightarrow> handler" where
  "leaderForward sv env next' r s =
     (if \<not> svRaft sv \<or> aeIsLeader env then next' r s
      else
        let (leaderRaft, leaderID) = aeLeader env in
        if leaderID = '''' then
          (writeJSON 503 (error_body ''no leader elected yet; retry''), [], s)
        else if rqForwarded r \<noteq> '''' then
          (writeJSON 503 (error_body ''leadership changed while forwarding; retry''), [], s)
        else
          (case svPeersAPI sv leaderID of
             None \<Rightarrow>
               (writeJSON 503 (enc_strmap
                 [(''error'', ''not the leader and no API address known for it; start masters with -peers-api''),
                  (''leaderID'', leaderID), (''leaderRaft'', leaderRaft)]), [], s)
           | Some apiAddr \<Rightarrow> (Proxied apiAddr (r\<lparr>rqForwarded := ''1''\<rparr>), [], s)))"

section \<open>Login and refresh\<close>

record login_request =
  lrUsername :: go_string
  lrPassword :: go_string

definition zero_login_request :: login_request where
  "zero_login_request = \<lparr>lrUsername = '''', lrPassword = ''''\<rparr>"

definition login_request_fields :: "(go_string \<times> login_request decoder) list" where
  "login_request_fields = [(''username'', fld lrUsername_update lrUsername dec_string),
     (''password'', fld lrPassword_update lrPassword dec_string)]"

record refresh_request =
  rrRefreshToken :: go_string

definition zero_refresh_request :: refresh_request where
  "zero_refresh_request = \<lparr>rrRefreshToken = ''''\<rparr>"

definition refresh_request_fields :: "(go_string \<times> refresh_request decoder) list" where
  "refresh_request_fields = [(''refreshToken'', fld rrRefreshToken_update rrRefreshToken dec_string)]"

definition enc_token_pair :: "token_pair \<Rightarrow> json option" where
  "enc_token_pair p = enc_struct [(''accessToken'', enc_string (tpAccessToken p)),
     (''refreshToken'', enc_string (tpRefreshToken p)), (''expiresIn'', enc_int (tpExpiresIn p))]"

text \<open>The body of a request read into a struct: \<open>None\<close> when decoding reports an error.\<close>

definition read_body :: "(go_string \<times> 'r decoder) list \<Rightarrow> 'r \<Rightarrow> http_request \<Rightarrow> 'r option" where
  "read_body fs z r =
     (case rqBody r of
        None \<Rightarrow> None
      | Some j \<Rightarrow> (let (x, ok) = dec_struct fs j z in if ok then Some x else None))"

definition login :: "server \<Rightarrow> api_env \<Rightarrow> handler" where
  "login sv env r s =
     (case read_body login_request_fields zero_login_request r of
        None \<Rightarrow> (writeJSON 400 (error_body ''invalid JSON''), [], s)
      | Some req \<Rightarrow>
          (case GetUserByUsername (aeUserOrder env) (lrUsername req) s of
             None \<Rightarrow> (writeJSON 401 (error_body ''invalid credentials''), [], s)
           | Some user \<Rightarrow>
               if sha256_hex (lrPassword req) \<noteq> uTokenHash user then
                 (writeJSON 401 (error_body ''invalid credentials''), [], s)
               else
                 (case GenerateTokenPair (svJwtLibrary sv) (svJwt sv) (aeNow env) (uID user) (uRole user) of
                    Inl err \<Rightarrow> (writeJSON 500 (error_body ''failed to generate token''), [], s)
                  | Inr tokens \<Rightarrow>
                      (writeJSON 200 (enc_token_pair tokens), [],
                       Log (aeNow env) (uID user) EventLogin ''auth''
                         (''user '' @ uUsername user @ '' logged in'') s))))"

definition refresh :: "server \<Rightarrow> api_env \<Rightarrow> handler" where
  "refresh sv env r s =
     (case read_body refresh_request_fields zero_refresh_request r of
        None \<Rightarrow> (writeJSON 400 (error_body ''invalid JSON''), [], s)
      | Some req \<Rightarrow>
          (case ValidateRefreshToken (svJwtLibrary sv) (svJwt sv) (aeNow env) (rrRefreshToken req) of
             Inl err \<Rightarrow> (writeJSON 401 (error_body ''invalid refresh token''), [], s)
           | Inr userID \<Rightarrow>
               (case List.find (\<lambda>u. uID u = userID) (GetAllUsers (aeUserOrder env) s) of
                  None \<Rightarrow> (writeJSON 401 (error_body ''user not found''), [], s)
                | Some user \<Rightarrow>
                    (case GenerateTokenPair (svJwtLibrary sv) (svJwt sv) (aeNow env) (uID user) (uRole user) of
                       Inl err \<Rightarrow> (writeJSON 500 (error_body ''failed to generate token''), [], s)
                     | Inr tokens \<Rightarrow> (writeJSON 200 (enc_token_pair tokens), [], s)))))"

section \<open>Views\<close>

definition node_view :: "api_env \<Rightarrow> state \<Rightarrow> nat \<Rightarrow> node \<Rightarrow> node" where
  "node_view env s i n =
     n\<lparr>nContainers := GetActiveContainersByNode (aeOrders env i (containers s)) (nID n) s\<rparr>"

definition getNodes :: "api_env \<Rightarrow> handler" where
  "getNodes env r s =
     (let nodes = GetAllNodes (aeNodeOrder env) s;
          out = map (\<lambda>(i, n). node_view env s i n) (zip [0..<length nodes] nodes)
      in (writeJSON 200 (enc_made_slice enc_node out), [], s))"

definition getPools :: "api_env \<Rightarrow> handler" where
  "getPools env r s =
     (writeJSON 200 (enc_made_slice enc_pool (GetAllPools (aePoolOrder env) s)), [], s)"

definition service_view :: "api_env \<Rightarrow> state \<Rightarrow> nat \<Rightarrow> service \<Rightarrow> service" where
  "service_view env s i svc =
     svc\<lparr>sReplicas := foldl (\<lambda>n c. if cStatus c = ContainerRunning then n + 1 else n) 0
       (GetContainersByService (aeOrders env i (containers s)) (sID svc) s)\<rparr>"

definition getServices :: "api_env \<Rightarrow> handler" where
  "getServices env r s =
     (let services = GetAllServices (aeServiceOrder env) s;
          out = map (\<lambda>(i, svc). service_view env s i svc) (zip [0..<length services] services)
      in (writeJSON 200 (enc_made_slice enc_service out), [], s))"

definition getAudit :: "handler" where
  "getAudit r s =
     (let actionFilter = rqAction r; userFilter = rqUser r;
          entries = GetAuditLog (Some (\<lambda>e.
            if actionFilter \<noteq> '''' \<and> aAction e \<noteq> actionFilter then False
            else if userFilter \<noteq> '''' \<and> aUserID e \<noteq> userFilter then False
            else True)) s
      in (writeJSON 200 (enc_slice enc_audit_entry entries), [], s))"

section \<open>Changing the replicated state\<close>

definition applyAddContainer :: "server \<Rightarrow> raft_result \<Rightarrow> container \<Rightarrow> state \<Rightarrow> state" where
  "applyAddContainer sv rf c s =
     (if svRaft sv then snd (RaftNode_Apply (fst rf) (snd rf) LogAddContainer (enc_container c) s)
      else AddContainer c s)"

definition applySetContainerStatus :: "server \<Rightarrow> raft_result \<Rightarrow> go_string \<Rightarrow> go_string \<Rightarrow> state \<Rightarrow> state" where
  "applySetContainerStatus sv rf i status s =
     (if svRaft sv then snd (RaftNode_Apply (fst rf) (snd rf) LogSetContainerStatus (enc_status_args i status) s)
      else snd (SetContainerStatus i status s))"

definition applyRemoveService :: "server \<Rightarrow> raft_result \<Rightarrow> go_string \<Rightarrow> state \<Rightarrow> state" where
  "applyRemoveService sv rf i s =
     (if svRaft sv then snd (RaftNode_Apply (fst rf) (snd rf) LogRemoveService (enc_id_args i) s)
      else RemoveService i s)"

section \<open>Creating a service\<close>

record create_request =
  crName :: go_string
  crImage :: go_string
  crRequiredCPU :: f64
  crRequiredRAM :: i64
  crReplicas :: int
  crPoolID :: go_string
  crEnvVars :: "(go_string \<times> go_string) list"
  crPorts :: "int list"
  crCmd :: "go_string list"

definition zero_create_request :: create_request where
  "zero_create_request = \<lparr>crName = '''', crImage = '''', crRequiredCPU = 0, crRequiredRAM = 0,
     crReplicas = 0, crPoolID = '''', crEnvVars = [], crPorts = [], crCmd = []\<rparr>"

definition create_request_fields :: "(go_string \<times> create_request decoder) list" where
  "create_request_fields =
     [(''name'', fld crName_update crName dec_string), (''image'', fld crImage_update crImage dec_string),
      (''cpu'', fld crRequiredCPU_update crRequiredCPU dec_f64),
      (''ram'', fld crRequiredRAM_update crRequiredRAM dec_i64),
      (''replicas'', fld crReplicas_update crReplicas dec_int),
      (''pool'', fld crPoolID_update crPoolID dec_string),
      (''envVars'', fld crEnvVars_update crEnvVars dec_strmap),
      (''ports'', fld crPorts_update crPorts (dec_slice dec_int 0)),
      (''cmd'', fld crCmd_update crCmd (dec_slice dec_string ''''))]"

definition requested_service :: "api_env \<Rightarrow> create_request \<Rightarrow> service" where
  "requested_service env req = zero_service\<lparr>sID := generateID ''svc'' (aeServiceLetters env),
     sName := crName req, sImage := crImage req, sRequiredCPU := crRequiredCPU req,
     sRequiredRAM := crRequiredRAM req, sDesiredReplicas := crReplicas req, sPoolID := crPoolID req,
     sEnvVars := crEnvVars req, sPorts := crPorts req, sCmd := crCmd req\<rparr>"

text \<open>What the response tells of one container: a map of strings.\<close>

type_synonym container_info = "(go_string \<times> go_string) list"

fun create_pending ::
  "server \<Rightarrow> api_env \<Rightarrow> service \<Rightarrow> nat \<Rightarrow> nat \<Rightarrow> container_info list \<Rightarrow> state \<Rightarrow> container_info list \<times> state" where
  "create_pending sv env svc i 0 infos s = (infos, s)"
| "create_pending sv env svc i (Suc m) infos s =
     (let c = zero_container\<lparr>cID := generateID ''ctr'' (aeLetters env i), cServiceID := sID svc,
            cStatus := ContainerPending\<rparr>
      in create_pending sv env svc (Suc i) m
           (infos @ [[(''id'', cID c), (''status'', ContainerPending)]])
           (applyAddContainer sv (aeRaft env i 0) c s))"

definition create_replica ::
  "server \<Rightarrow> api_env \<Rightarrow> service \<Rightarrow> nat \<Rightarrow> node \<Rightarrow> state \<Rightarrow> container_info \<times> (go_string \<times> command) \<times> state" where
  "create_replica sv env svc i node s =
     (let c = zero_container\<lparr>cID := generateID ''ctr'' (aeLetters env i), cServiceID := sID svc,
            cNodeID := nID node, cStatus := ContainerScheduled\<rparr>;
          s1 = applyAddContainer sv (aeRaft env i 0) c s;
          msg = (nAddress node, start_command svc)
      in case aeNet env i (nAddress node) (start_command svc) of
           Inl err \<Rightarrow>
             ([(''id'', cID c), (''status'', ContainerPending)], msg,
              applySetContainerStatus sv (aeRaft env i 1) (cID c) ContainerPending s1)
         | Inr resp \<Rightarrow>
             if \<not> rsSuccess resp then
               ([(''id'', cID c), (''status'', ContainerFailed), (''error'', rsError resp)], msg,
                applySetContainerStatus sv (aeRaft env i 1) (cID c) ContainerFailed s1)
             else
               ([(''id'', cID c), (''nodeID'', nID node), (''status'', ContainerRunning)], msg,
                applyAddContainer sv (aeRaft env i 1)
                  (c\<lparr>cDockerID := rsContainerID resp, cStatus := ContainerRunning\<rparr>) s1))"

fun create_replicas ::
  "server \<Rightarrow> api_env \<Rightarrow> service \<Rightarrow> nat \<Rightarrow> node list \<Rightarrow> container_info list \<times> sent \<Rightarrow> state \<Rightarrow>
   (container_info list \<times> sent) \<times> state" where
  "create_replicas sv env svc i [] acc s = (acc, s)"
| "create_replicas sv env svc i (node # plan) (infos, msgs) s =
     (let (info, msg, s') = create_replica sv env svc i node s
      in create_replicas sv env svc (Suc i) plan (infos @ [info], msgs @ [msg]) s')"

text \<open>The verb \<open>%.1f\<close>, and the texts of the scheduler's errors; its panics have none.\<close>

definition format_fixed1 :: "f64 \<Rightarrow> go_string" where
  "format_fixed1 x =
     (case x of
        NaN \<Rightarrow> ''NaN'' | PosInf \<Rightarrow> ''+Inf'' | NegInf \<Rightarrow> ''-Inf''
      | Fin r \<Rightarrow>
          (let t = nat (round_half_even (\<bar>r\<bar> * 10))
           in (if r < 0 then ''-'' else '''') @ digits (t div 10) @ ''.'' @ digits (t mod 10)))"

fun plan_error_text :: "plan_error \<Rightarrow> go_string option" where
  "plan_error_text (NoNodesInPool p) = Some (''no nodes in pool '' @ p)"
| "plan_error_text (CanPlaceOnly i n cpu ram) =
     Some (''can place only '' @ format_int i @ '' of '' @ format_int n @ '' replicas (need '' @
       format_fixed1 cpu @ '' CPU, '' @ format_int (sint ram) @ '' MB RAM each)'')"
| "plan_error_text BalancerReturnedNoNode = Some ''load balancer returned no node''"
| "plan_error_text PanicMakeslice = None"
| "plan_error_text PanicNilMap = None"

definition enc_infos :: "container_info list \<Rightarrow> json option" where
  "enc_infos infos = enc_slice enc_strmap infos"

definition create_audit :: "api_env \<Rightarrow> http_request \<Rightarrow> service \<Rightarrow> int \<Rightarrow> go_string \<Rightarrow> state \<Rightarrow> state" where
  "create_audit env r svc n suffix' s = Log (aeNow env) (requestUserID r) EventServiceCreate (sID svc)
     (''service '' @ sName svc @ '' created with '' @ format_int n @ '' replicas'' @ suffix') s"

text \<open>After the service is in the state: the plan, and the containers.\<close>

definition create_containers ::
  "server \<Rightarrow> api_env \<Rightarrow> http_request \<Rightarrow> service \<Rightarrow> int \<Rightarrow> state \<Rightarrow> api_result" where
  "create_containers sv env r svc n s =
     (case Plan (svBalancer sv) (\<lambda>i. aeOrders env i (containers s)) s svc n of
        Inl err \<Rightarrow>
          (case plan_error_text err of
             None \<Rightarrow> (Aborted, [], s)
           | Some txt \<Rightarrow>
               (let (infos, s') = create_pending sv env svc 0 (nat n) [] s
                in (writeJSON 201 (enc_struct
                      [(''containers'', enc_infos infos),
                       (''message'', enc_string (''not enough capacity for all replicas, nothing was started; '' @ txt)),
                       (''name'', enc_string (sName svc)), (''serviceID'', enc_string (sID svc))]), [],
                    create_audit env r svc n '' (pending)'' s')))
      | Inr plan \<Rightarrow>
          (let ((infos, msgs), s') = create_replicas sv env svc 0 plan ([], []) s
           in (writeJSON 201 (enc_struct
                 [(''containers'', enc_infos infos), (''name'', enc_string (sName svc)),
                  (''serviceID'', enc_string (sID svc))]), msgs,
               create_audit env r svc n '''' s')))"

definition createService :: "server \<Rightarrow> api_env \<Rightarrow> handler" where
  "createService sv env r s =
     (case read_body create_request_fields zero_create_request r of
        None \<Rightarrow> (writeJSON 400 (error_body (''invalid JSON: '' @ aeDecodeText env)), [], s)
      | Some req \<Rightarrow>
          if crImage req = '''' \<or> crReplicas req \<le> 0 \<or> crPoolID req = '''' then
            (writeJSON 400 (error_body ''image, replicas, and pool are required''), [], s)
          else
            let svc = requested_service env req in
            if svRaft sv then
              (let (err, s1) = RaftNode_Apply (fst (aeServiceRaft env)) (snd (aeServiceRaft env)) LogAddService
                     (enc_service svc) s
               in case err of
                    Some e \<Rightarrow> (writeJSON 503 (error_body (''failed to replicate service: '' @ aeApplyText env e)), [], s1)
                  | None \<Rightarrow> create_containers sv env r svc (crReplicas req) s1)
            else create_containers sv env r svc (crReplicas req) (AddService svc s))"

section \<open>Deleting a service\<close>

text \<open>The answers to the kill commands are not looked at.\<close>

fun delete_containers :: "server \<Rightarrow> api_env \<Rightarrow> go_string \<Rightarrow> nat \<Rightarrow> container list \<Rightarrow> sent \<Rightarrow> state \<Rightarrow> sent \<times> state" where
  "delete_containers sv env serviceID i [] msgs s = (msgs, s)"
| "delete_containers sv env serviceID i (c # cs) msgs s =
     (let msgs' =
        (if cNodeID c \<noteq> '''' then
           (case GetNode (cNodeID c) s of
              Some node \<Rightarrow> msgs @ [(nAddress node, zero_command\<lparr>cmType := CmdKillContainers, cmServiceID := serviceID\<rparr>)]
            | None \<Rightarrow> msgs)
         else msgs)
      in delete_containers sv env serviceID (Suc i) cs msgs'
           (applySetContainerStatus sv (aeRaft env i 0) (cID c) ContainerStopped s))"

definition deleteService :: "server \<Rightarrow> api_env \<Rightarrow> go_string \<Rightarrow> handler" where
  "deleteService sv env serviceID r s =
     (case GetService serviceID s of
        None \<Rightarrow> (writeJSON 404 (error_body ''service not found''), [], s)
      | Some svc \<Rightarrow>
          (let cs = GetContainersByService (aeOrders env 0 (containers s)) serviceID s;
               (msgs, s1) = delete_containers sv env serviceID 0 cs [] s;
               s2 = applyRemoveService sv (aeServiceRaft env) serviceID s1;
               s3 = Log (aeNow env) (requestUserID r) EventServiceDelete serviceID
                 (''service '' @ sName svc @ '' deleted'') s2
           in (writeJSON 200 (enc_strmap [(''status'', ''deleted'')]), msgs, s3)))"

section \<open>The routes\<close>

text \<open>
  The multiplexer of \<open>net/http\<close> on the patterns of \<open>Start\<close>, for clean paths: a pattern for GET also
  takes HEAD, \<open>{id}\<close> matches one segment that is not empty, an unknown path is 404 and a known one
  with another method 405.
\<close>

definition service_path :: "go_string \<Rightarrow> go_string option" where
  "service_path path =
     (let rest = TrimPrefix path ''/services/''
      in if HasPrefix path ''/services/'' \<and> rest \<noteq> '''' \<and> CHR ''/'' \<notin> set rest then Some rest else None)"

definition plain :: "int \<Rightarrow> state \<Rightarrow> api_result" where
  "plain status s = (Respond \<lparr>hrStatus = status, hrBody = None\<rparr>, [], s)"

definition get_route :: "handler \<Rightarrow> handler" where
  "get_route h r s = (if rqMethod r \<in> {''GET'', ''HEAD''} then h r s else plain 405 s)"

definition post_route :: "handler \<Rightarrow> handler" where
  "post_route h r s = (if rqMethod r = ''POST'' then h r s else plain 405 s)"

definition serve :: "server \<Rightarrow> api_env \<Rightarrow> handler" where
  "serve sv env r s =
     (if rqPath r = ''/login'' then post_route (login sv env) r s
      else if rqPath r = ''/refresh'' then post_route (refresh sv env) r s
      else if rqPath r = ''/nodes'' then get_route (auth sv env ''nodes'' ''read'' (getNodes env)) r s
      else if rqPath r = ''/pools'' then get_route (auth sv env ''pools'' ''read'' (getPools env)) r s
      else if rqPath r = ''/services'' then
        (if rqMethod r = ''POST''
         then auth sv env ''services'' ''create'' (leaderForward sv env (createService sv env)) r s
         else get_route (auth sv env ''services'' ''read'' (getServices env)) r s)
      else if rqPath r = ''/audit'' then get_route (auth sv env ''audit'' ''read'' getAudit) r s
      else case service_path (rqPath r) of
        Some i \<Rightarrow>
          (if rqMethod r = ''DELETE''
           then auth sv env ''services'' ''delete'' (leaderForward sv env (deleteService sv env i)) r s
           else plain 405 s)
      | None \<Rightarrow> plain 404 s)"

end
