(* ===== verification/ApiProofs.thy ===== *)
theory ApiProofs
  imports Api
begin

text \<open>
  What the REST API promises: who may change the cluster, what creating and deleting a service leaves
  behind, what a login is good for, and how a request reaches the leader.
\<close>

section \<open>What the handlers leave alone\<close>

definition same_base :: "state \<Rightarrow> state \<Rightarrow> bool" where
  "same_base s t \<longleftrightarrow> nodes t = nodes s \<and> pools t = pools s \<and> users t = users s"

lemma same_base_refl [simp]: "same_base s s"
  by (simp add: same_base_def)

lemma same_base_trans: "same_base s t \<Longrightarrow> same_base t u \<Longrightarrow> same_base s u"
  by (simp add: same_base_def)

lemma same_base_Log [simp]: "same_base s (Log n u a r d t) = same_base s t"
  by (simp add: same_base_def)

lemma same_base_apply [simp]:
  "same_base s (applyAddContainer sv rf c t) = same_base s t"
  "same_base s (applySetContainerStatus sv rf i st t) = same_base s t"
  "same_base s (applyRemoveService sv rf i t) = same_base s t"
  by (simp_all add: same_base_def applyAddContainer_def applySetContainerStatus_def applyRemoveService_def)

lemma same_base_create_pending [simp]:
  "same_base s (snd (create_pending sv env svc i m infos t)) = same_base s t"
  by (induction m arbitrary: i infos t) (simp_all add: Let_def)

lemma same_base_create_replica [simp]:
  "same_base s (snd (snd (create_replica sv env svc i nd t))) = same_base s t"
  by (simp add: create_replica_def Let_def split: sum.split)

lemma same_base_create_replicas [simp]:
  "same_base s (snd (create_replicas sv env svc i plan acc t)) = same_base s t"
  by (induction plan arbitrary: i acc t) (auto simp: case_prod_beta Let_def)

lemma same_base_delete_containers [simp]:
  "same_base s (snd (delete_containers sv env v i cs msgs t)) = same_base s t"
  by (induction cs arbitrary: i msgs t) (simp_all add: Let_def)

lemma same_base_create_containers [simp]:
  "same_base s (snd (snd (create_containers sv env r svc n t))) = same_base s t"
  by (simp add: create_containers_def create_audit_def case_prod_beta Let_def split: sum.split option.split)

lemma same_base_RaftNode_Apply [simp]: "same_base s (snd (RaftNode_Apply l f ty d t)) = same_base s t"
  by (simp add: same_base_def)

lemma same_base_AddService [simp]: "same_base s (AddService svc t) = same_base s t"
  by (simp add: same_base_def)

lemma same_base_createService [simp]: "same_base s (snd (snd (createService sv env r s)))"
  by (simp add: createService_def case_prod_beta Let_def split: option.split)

lemma same_base_deleteService [simp]: "same_base s (snd (snd (deleteService sv env i r s)))"
  by (simp add: deleteService_def case_prod_beta Let_def split: option.split)

text \<open>The handlers that only read: tables, containers and the workers are left alone.\<close>

definition harmless :: "state \<Rightarrow> api_result \<Rightarrow> bool" where
  "harmless s res \<longleftrightarrow> same_base s (snd (snd res)) \<and> services (snd (snd res)) = services s \<and>
     containers (snd (snd res)) = containers s \<and> fst (snd res) = []"

lemma harmless_simps [simp]:
  "harmless s (out, [], s)" "harmless s (out, [], Log n u a r d s)"
  "harmless s (plain st s)"
  by (simp_all add: harmless_def plain_def)

lemma harmless_readers [simp]:
  "harmless s (login sv env r s)" "harmless s (refresh sv env r s)"
  "harmless s (getNodes env r s)" "harmless s (getPools env r s)" "harmless s (getServices env r s)"
  "harmless s (getAudit r s)"
  by (simp_all add: login_def refresh_def getNodes_def getPools_def getServices_def getAudit_def Let_def
      split: option.split sum.split)

lemma auth_cases:
  obtains (denied) "harmless s (auth sv env res act h r s)"
      "\<exists>resp. fst (auth sv env res act h r s) = Respond resp \<and> hrStatus resp \<in> {401, 403}"
  | (passed) c where
      "ValidateAccessToken (svJwtLibrary sv) (svJwt sv) (aeNow env) (TrimPrefix (rqAuthorization r) ''Bearer '') = Inr c"
      and "CheckPermission (clRole c) res act"
      and "auth sv env res act h r s = h (r\<lparr>rqUserID := Some (clUserID c)\<rparr>) s"
proof (cases "rqAuthorization r = '''' \<or> \<not> HasPrefix (rqAuthorization r) ''Bearer ''")
  case True
  then show ?thesis by (intro denied) (simp_all add: auth_def writeJSON_def)
next
  case False
  show ?thesis
  proof (cases "ValidateAccessToken (svJwtLibrary sv) (svJwt sv) (aeNow env)
      (TrimPrefix (rqAuthorization r) ''Bearer '')")
    case (Inl err)
    then show ?thesis using False by (intro denied) (simp_all add: auth_def writeJSON_def)
  next
    case (Inr c)
    show ?thesis
    proof (cases "CheckPermission (clRole c) res act")
      case True
      then show ?thesis using False Inr by (intro passed [OF Inr]) (simp_all add: auth_def)
    next
      case no: False
      then show ?thesis using False Inr by (intro denied) (simp_all add: auth_def writeJSON_def)
    qed
  qed
qed

lemma auth_harmless: "(\<And>r. harmless s (h r s)) \<Longrightarrow> harmless s (auth sv env res act h r s)"
  by (rule auth_cases [of s sv env res act h r]) auto

lemma leaderForward_cases:
  obtains (here) "\<not> svRaft sv \<or> aeIsLeader env" "leaderForward sv env h r s = h r s"
  | (away) "svRaft sv" "\<not> aeIsLeader env" "harmless s (leaderForward sv env h r s)"
      "\<And>a r'. fst (leaderForward sv env h r s) = Proxied a r' \<Longrightarrow>
        rqForwarded r = '''' \<and> r' = r\<lparr>rqForwarded := ''1''\<rparr>"
proof (cases "\<not> svRaft sv \<or> aeIsLeader env")
  case True
  then show ?thesis by (intro here) (simp_all add: leaderForward_def)
next
  case False
  then show ?thesis
    by (intro away) (auto simp: leaderForward_def case_prod_beta writeJSON_def split: option.splits if_splits)
qed

text \<open>A write route: token, permission and leadership, or nothing happens.\<close>

definition authorised :: "server \<Rightarrow> api_env \<Rightarrow> http_request \<Rightarrow> go_string \<Rightarrow> go_string \<Rightarrow> bool" where
  "authorised sv env r res act \<longleftrightarrow> (\<exists>c.
     ValidateAccessToken (svJwtLibrary sv) (svJwt sv) (aeNow env) (TrimPrefix (rqAuthorization r) ''Bearer '') = Inr c \<and>
     CheckPermission (clRole c) res act)"

lemma write_route:
  assumes "\<And>r. same_base s (snd (snd (h r s)))"
  shows "same_base s (snd (snd (auth sv env res act (leaderForward sv env h) r s)))"
    and "\<not> harmless s (auth sv env res act (leaderForward sv env h) r s) \<Longrightarrow>
      authorised sv env r res act \<and> (\<not> svRaft sv \<or> aeIsLeader env)"
proof -
  have 1: "same_base s (snd (snd (auth sv env res act (leaderForward sv env h) r s))) \<and>
    (\<not> harmless s (auth sv env res act (leaderForward sv env h) r s) \<longrightarrow>
      authorised sv env r res act \<and> (\<not> svRaft sv \<or> aeIsLeader env))"
  proof (cases rule: auth_cases [of s sv env res act "leaderForward sv env h" r])
    case denied
    then show ?thesis by (simp add: harmless_def)
  next
    case (passed c)
    show ?thesis
    proof (cases rule: leaderForward_cases [of sv env h "r\<lparr>rqUserID := Some (clUserID c)\<rparr>" s])
      case here
      then show ?thesis using passed assms by (auto simp: authorised_def)
    next
      case away
      then show ?thesis using passed by (simp add: harmless_def)
    qed
  qed
  then show "same_base s (snd (snd (auth sv env res act (leaderForward sv env h) r s)))" by blast
  show "\<not> harmless s (auth sv env res act (leaderForward sv env h) r s) \<Longrightarrow>
      authorised sv env r res act \<and> (\<not> svRaft sv \<or> aeIsLeader env)" using 1 by blast
qed

section \<open>Creating containers\<close>

text \<open>Every submission of the request is committed.\<close>

definition all_committed :: "api_env \<Rightarrow> bool" where
  "all_committed env \<longleftrightarrow> aeServiceRaft env = (True, Committed) \<and> (\<forall>i k. aeRaft env i k = (True, Committed))"

definition new_ctr_id :: "api_env \<Rightarrow> nat \<Rightarrow> go_string" where
  "new_ctr_id env i = generateID ''ctr'' (aeLetters env i)"

lemma letters_ascii: "list_all (byte_in 0 0x7F) letters"
  by (simp add: letters_def byte_in_def)

lemma randomString_ascii: "list_all (byte_in 0 0x7F) (randomString draws n)"
proof -
  have "letters ! (k mod length letters) \<in> set letters" for k
    by (intro nth_mem mod_less_divisor) (simp add: letters_def)
  then show ?thesis using letters_ascii unfolding randomString_def list_all_iff by auto
qed

lemma valid_generateID [simp]: "ascii pre \<Longrightarrow> valid_utf8 (generateID pre draws)"
  using randomString_ascii by (intro valid_utf8_ascii) (simp add: ascii_def generateID_def byte_in_def)

lemma valid_new_ctr_id [simp]: "valid_utf8 (new_ctr_id env i)"
  by (simp add: new_ctr_id_def ascii_def byte_in_def)

lemma apply_committed:
  "all_committed env \<Longrightarrow> container_ok c \<Longrightarrow> applyAddContainer sv (aeRaft env i k) c s = AddContainer c s"
  "all_committed env \<Longrightarrow> valid_utf8 j \<Longrightarrow> valid_utf8 st \<Longrightarrow>
     applySetContainerStatus sv (aeRaft env i k) j st s = snd (SetContainerStatus j st s)"
  "all_committed env \<Longrightarrow> valid_utf8 j \<Longrightarrow> applyRemoveService sv (aeServiceRaft env) j s = RemoveService j s"
  by (simp_all add: all_committed_def applyAddContainer_def applySetContainerStatus_def applyRemoveService_def
      commit_AddContainer commit_SetContainerStatus commit_RemoveService)

definition pending_container :: "api_env \<Rightarrow> service \<Rightarrow> nat \<Rightarrow> container" where
  "pending_container env svc i = zero_container\<lparr>cID := new_ctr_id env i, cServiceID := sID svc,
     cStatus := ContainerPending\<rparr>"

lemma create_pending_step:
  assumes "all_committed env" and "valid_utf8 (sID svc)"
  shows "create_pending sv env svc i (Suc m) infos s =
    create_pending sv env svc (Suc i) m (infos @ [[(''id'', new_ctr_id env i), (''status'', ContainerPending)]])
      (AddContainer (pending_container env svc i) s)"
proof -
  have "container_ok (pending_container env svc i)"
    using assms(2) by (simp add: container_ok_def pending_container_def zero_container_def)
  from apply_committed(1) [OF assms(1) this, of sv i 0 s] show ?thesis
    by (simp add: Let_def pending_container_def new_ctr_id_def)
qed

lemma create_pending_services [simp]:
  "all_committed env \<Longrightarrow> valid_utf8 (sID svc) \<Longrightarrow>
     services (snd (create_pending sv env svc i m infos s)) = services s"
  by (induction m arbitrary: i infos s) (simp_all add: create_pending_step del: create_pending.simps(2))

lemma create_pending_containers:
  assumes "all_committed env" and "valid_utf8 (sID svc)"
  shows "containers (snd (create_pending sv env svc i m infos s)) k =
    (if \<exists>j. i \<le> j \<and> j < i + m \<and> k = new_ctr_id env j
     then Some (zero_container\<lparr>cID := k, cServiceID := sID svc, cStatus := ContainerPending\<rparr>)
     else containers s k)"
proof (induction m arbitrary: i infos s)
  case (Suc m)
  have range: "(\<exists>j. i \<le> j \<and> j < i + Suc m \<and> k = new_ctr_id env j) \<longleftrightarrow>
      k = new_ctr_id env i \<or> (\<exists>j. Suc i \<le> j \<and> j < Suc i + m \<and> k = new_ctr_id env j)"
    by (metis Suc_leD Suc_leI add_Suc add_Suc_right le_neq_implies_less less_add_Suc1 order_refl)
  show ?case
    unfolding range create_pending_step [OF assms] Suc.IH
    by (auto simp: pending_container_def container_table.lookup_add)
qed auto

lemma create_pending_infos:
  "fst (create_pending sv env svc i m infos s) =
     infos @ map (\<lambda>j. [(''id'', new_ctr_id env j), (''status'', ContainerPending)]) [i..<i + m]"
proof (induction m arbitrary: i infos s)
  case (Suc m)
  have "[i..<i + Suc m] = i # [Suc i..<Suc i + m]" by (simp add: upt_conv_Cons)
  with Suc show ?case by (simp add: Let_def new_ctr_id_def)
qed simp

text \<open>What becomes of one planned replica, by the answer of the worker.\<close>

definition replica_container :: "api_env \<Rightarrow> service \<Rightarrow> nat \<Rightarrow> node \<Rightarrow> container" where
  "replica_container env svc i nd =
     (let c = zero_container\<lparr>cID := new_ctr_id env i, cServiceID := sID svc, cNodeID := nID nd\<rparr>
      in case aeNet env i (nAddress nd) (start_command svc) of
           Inl err \<Rightarrow> c\<lparr>cStatus := ContainerPending\<rparr>
         | Inr resp \<Rightarrow> if rsSuccess resp then c\<lparr>cDockerID := rsContainerID resp, cStatus := ContainerRunning\<rparr>
             else c\<lparr>cStatus := ContainerFailed\<rparr>)"

definition valid_answers :: "api_env \<Rightarrow> bool" where
  "valid_answers env \<longleftrightarrow> (\<forall>i a c resp. aeNet env i a c = Inr resp \<longrightarrow> valid_utf8 (rsContainerID resp))"

lemma create_replica_committed:
  assumes "all_committed env" and "valid_answers env" and "valid_utf8 (sID svc)" and "valid_utf8 (nID nd)"
  shows "snd (snd (create_replica sv env svc i nd s)) = s\<lparr>containers := (containers s)(new_ctr_id env i \<mapsto>
      replica_container env svc i nd)\<rparr>"
    and "fst (snd (create_replica sv env svc i nd s)) = (nAddress nd, start_command svc)"
proof -
  let ?c = "zero_container\<lparr>cID := new_ctr_id env i, cServiceID := sID svc, cNodeID := nID nd,
    cStatus := ContainerScheduled\<rparr>"
  have ok: "container_ok ?c" using assms(3,4) by (simp add: container_ok_def zero_container_def)
  note add = apply_committed(1) [OF assms(1) ok, of sv i 0 s]
  show "snd (snd (create_replica sv env svc i nd s)) = s\<lparr>containers := (containers s)(new_ctr_id env i \<mapsto>
      replica_container env svc i nd)\<rparr>"
  proof (cases "aeNet env i (nAddress nd) (start_command svc)")
    case (Inl err)
    then show ?thesis
      using add assms(1)
      by (simp add: create_replica_def new_ctr_id_def [symmetric] Let_def apply_committed(2)
          replica_container_def SetContainerStatus_def AddContainer_def)
  next
    case (Inr resp)
    then have "valid_utf8 (rsContainerID resp)" using assms(2) by (simp add: valid_answers_def)
    then have "container_ok (?c\<lparr>cDockerID := rsContainerID resp, cStatus := ContainerRunning\<rparr>)"
      using ok by (simp add: container_ok_def)
    from apply_committed(1) [OF assms(1) this, of sv i 1] Inr add show ?thesis
      using assms(1)
      by (simp add: create_replica_def new_ctr_id_def [symmetric] Let_def apply_committed(2)
          replica_container_def SetContainerStatus_def AddContainer_def)
  qed
  show "fst (snd (create_replica sv env svc i nd s)) = (nAddress nd, start_command svc)"
    by (simp add: create_replica_def Let_def split: sum.split)
qed

text \<open>The containers of a whole plan, keyed, from the \<open>i\<close>-th on.\<close>

definition planned :: "api_env \<Rightarrow> service \<Rightarrow> nat \<Rightarrow> node list \<Rightarrow> (go_string \<times> container) list" where
  "planned env svc i plan = map (\<lambda>(j, nd). (new_ctr_id env j, replica_container env svc j nd))
     (zip [i..<i + length plan] plan)"

lemma planned_simps [simp]:
  "planned env svc i [] = []"
  "planned env svc i (nd # plan) =
     (new_ctr_id env i, replica_container env svc i nd) # planned env svc (Suc i) plan"
  by (simp_all add: planned_def upt_conv_Cons del: upt_Suc)

lemma create_replicas_committed:
  assumes "all_committed env" and "valid_answers env" and "valid_utf8 (sID svc)"
    and "\<forall>nd\<in>set plan. valid_utf8 (nID nd)"
  shows "snd (create_replicas sv env svc i plan (infos, msgs) s) =
      s\<lparr>containers := containers s ++ map_of (rev (planned env svc i plan))\<rparr> \<and>
    snd (fst (create_replicas sv env svc i plan (infos, msgs) s)) =
      msgs @ map (\<lambda>nd. (nAddress nd, start_command svc)) plan"
  using assms(4)
proof (induction plan arbitrary: i infos msgs s)
  case (Cons nd plan)
  then have nd: "valid_utf8 (nID nd)" by simp
  note one = create_replica_committed [OF assms(1-3) nd, of sv i s]
  obtain info msg s' where step: "create_replica sv env svc i nd s = (info, msg, s')"
    by (cases "create_replica sv env svc i nd s")
  have "create_replicas sv env svc i (nd # plan) (infos, msgs) s =
      create_replicas sv env svc (Suc i) plan (infos @ [info], msgs @ [msg]) s'"
    by (simp add: step)
  moreover have "s' = s\<lparr>containers := (containers s)(new_ctr_id env i \<mapsto> replica_container env svc i nd)\<rparr>"
      "msg = (nAddress nd, start_command svc)"
    using one step by simp_all
  ultimately show ?case using Cons.IH Cons.prems by (simp add: map_add_upd_left)
qed simp

lemma planned_lookup:
  assumes "inj_on (new_ctr_id env) {..<length plan}" and "j < length plan"
  shows "map_of (rev (planned env svc 0 plan)) (new_ctr_id env j) = Some (replica_container env svc j (plan ! j))"
proof -
  have keys: "map fst (planned env svc 0 plan) = map (new_ctr_id env) [0..<length plan]"
    by (intro nth_equalityI) (simp_all add: planned_def)
  have "distinct (map fst (rev (planned env svc 0 plan)))"
    using assms(1) by (simp add: rev_map [symmetric] keys distinct_map atLeast0LessThan)
  moreover have "(new_ctr_id env j, replica_container env svc j (plan ! j)) \<in> set (rev (planned env svc 0 plan))"
    using assms(2) by (force simp: planned_def set_zip)
  ultimately show ?thesis by simp
qed

lemma planned_keys: "dom (map_of (rev (planned env svc 0 plan))) = new_ctr_id env ` {..<length plan}"
  by (force simp: dom_map_of_conv_image_fst planned_def set_zip)

section \<open>Deleting containers\<close>

definition kills_for :: "state \<Rightarrow> go_string \<Rightarrow> container \<Rightarrow> sent" where
  "kills_for s serviceID c =
     (case if cNodeID c = '''' then None else nodes s (cNodeID c) of
        Some node \<Rightarrow> [(nAddress node, zero_command\<lparr>cmType := CmdKillContainers, cmServiceID := serviceID\<rparr>)]
      | None \<Rightarrow> [])"

lemma delete_containers_committed:
  assumes "all_committed env" and "\<forall>c\<in>set cs. valid_utf8 (cID c)"
  shows "delete_containers sv env v i cs msgs s = (msgs @ concat (map (kills_for s v) cs),
     s\<lparr>containers := (\<lambda>k. if k \<in> cID ` set cs then map_option (\<lambda>c. c\<lparr>cStatus := ContainerStopped\<rparr>) (containers s k)
       else containers s k)\<rparr>)"
  using assms(2)
proof (induction cs arbitrary: i msgs s)
  case (Cons c cs)
  let ?s = "snd (SetContainerStatus (cID c) ContainerStopped s)"
  have set': "applySetContainerStatus sv (aeRaft env i 0) (cID c) ContainerStopped s = ?s"
    using Cons.prems by (intro apply_committed(2) [OF assms(1)]) simp_all
  have kills: "kills_for ?s v = kills_for s v" by (simp add: kills_for_def fun_eq_iff)
  have state: "?s\<lparr>containers := X\<rparr> = s\<lparr>containers := X\<rparr>" for X
    by (simp add: SetContainerStatus_def split: option.split)
  have ctrs: "containers ?s k = (if k = cID c then map_option (\<lambda>c. c\<lparr>cStatus := ContainerStopped\<rparr>) (containers s k)
      else containers s k)" for k
    by (simp add: containers_SetContainerStatus)
  have "delete_containers sv env v i (c # cs) msgs s =
      delete_containers sv env v (Suc i) cs (msgs @ kills_for s v c) ?s"
    using set' by (simp add: kills_for_def GetNode_def Let_def split: option.split)
  also have "\<dots> = (msgs @ concat (map (kills_for s v) (c # cs)),
     ?s\<lparr>containers := (\<lambda>k. if k \<in> cID ` set cs then map_option (\<lambda>c. c\<lparr>cStatus := ContainerStopped\<rparr>) (containers ?s k)
       else containers ?s k)\<rparr>)"
    using Cons.prems by (subst Cons.IH) (simp_all add: kills)
  also have "?s\<lparr>containers := (\<lambda>k. if k \<in> cID ` set cs then map_option (\<lambda>c. c\<lparr>cStatus := ContainerStopped\<rparr>) (containers ?s k)
       else containers ?s k)\<rparr> =
     s\<lparr>containers := (\<lambda>k. if k \<in> cID ` set (c # cs) then map_option (\<lambda>c. c\<lparr>cStatus := ContainerStopped\<rparr>) (containers s k)
       else containers s k)\<rparr>"
  proof -
    have "(\<lambda>k. if k \<in> cID ` set cs then map_option (\<lambda>c. c\<lparr>cStatus := ContainerStopped\<rparr>) (containers ?s k)
        else containers ?s k) =
      (\<lambda>k. if k \<in> cID ` set (c # cs) then map_option (\<lambda>c. c\<lparr>cStatus := ContainerStopped\<rparr>) (containers s k)
        else containers s k)"
      by (rule ext) (auto simp: ctrs option.map_comp comp_def)
    then show ?thesis by (simp only: state)
  qed
  finally show ?case .
qed simp

section \<open>Forwarding\<close>

text \<open>
  A proxied request arrives at the other master without the context the first one gave it. \<open>net\<close> gives
  the server, the environment and the state behind each API address; a request is followed through at
  most \<open>fuel\<close> masters.
\<close>

definition delivered :: "http_request \<Rightarrow> http_request" where
  "delivered r = r\<lparr>rqUserID := None\<rparr>"

fun deliver ::
  "nat \<Rightarrow> (go_string \<Rightarrow> server \<times> api_env \<times> state) \<Rightarrow> go_string \<Rightarrow> http_request \<Rightarrow>
   (go_string \<times> api_result) option" where
  "deliver 0 net a r = None"
| "deliver (Suc fuel) net a r =
     (case net a of (sv, env, s) \<Rightarrow>
        (case fst (serve sv env r s) of
           Proxied b r' \<Rightarrow> deliver fuel net b (delivered r')
         | _ \<Rightarrow> Some (a, serve sv env r s)))"

text \<open>The handlers do not read the header of a forwarded request.\<close>

lemma read_body_forwarded [simp]: "read_body fs z (r\<lparr>rqForwarded := x\<rparr>) = read_body fs z r"
  by (simp add: read_body_def)

lemma requestUserID_forwarded [simp]: "requestUserID (r\<lparr>rqForwarded := x\<rparr>) = requestUserID r"
  by (simp add: requestUserID_def)

lemma create_containers_forwarded [simp]:
  "create_containers sv env (r\<lparr>rqForwarded := x\<rparr>) svc n s = create_containers sv env r svc n s"
  by (simp add: create_containers_def create_audit_def case_prod_beta Let_def split: option.split sum.split)

lemma handlers_forwarded [simp]:
  "login sv env (r\<lparr>rqForwarded := x\<rparr>) s = login sv env r s"
  "refresh sv env (r\<lparr>rqForwarded := x\<rparr>) s = refresh sv env r s"
  "getNodes env (r\<lparr>rqForwarded := x\<rparr>) s = getNodes env r s"
  "getPools env (r\<lparr>rqForwarded := x\<rparr>) s = getPools env r s"
  "getServices env (r\<lparr>rqForwarded := x\<rparr>) s = getServices env r s"
  "getAudit (r\<lparr>rqForwarded := x\<rparr>) s = getAudit r s"
  "createService sv env (r\<lparr>rqForwarded := x\<rparr>) s = createService sv env r s"
  "deleteService sv env i (r\<lparr>rqForwarded := x\<rparr>) s = deleteService sv env i r s"
  by (simp_all add: login_def refresh_def getNodes_def getPools_def getServices_def getAudit_def
      createService_def deleteService_def case_prod_beta Let_def split: option.split)

lemma auth_forwarded:
  assumes "\<And>r. h (r\<lparr>rqForwarded := x\<rparr>) s = h r s"
  shows "auth sv env res act h (r\<lparr>rqForwarded := x\<rparr>) s = auth sv env res act h r s"
proof -
  have swap: "r\<lparr>rqForwarded := x, rqUserID := u\<rparr> = r\<lparr>rqUserID := u, rqForwarded := x\<rparr>" for u by simp
  show ?thesis by (simp add: auth_def swap assms Let_def split: sum.split)
qed

lemma leaderForward_leader:
  "\<not> svRaft sv \<or> aeIsLeader env \<Longrightarrow> leaderForward sv env h = h"
  by (rule ext)+ (simp add: leaderForward_def)

lemma serve_forwarded:
  assumes "\<not> svRaft sv \<or> aeIsLeader env"
  shows "serve sv env (r\<lparr>rqForwarded := x\<rparr>) s = serve sv env r s"
  by (simp add: serve_def post_route_def get_route_def auth_forwarded leaderForward_leader [OF assms]
      split: option.split)

definition not_proxied :: "api_result \<Rightarrow> bool" where
  "not_proxied res \<longleftrightarrow> (\<forall>a r. fst res \<noteq> Proxied a r)"

lemma handlers_not_proxied [simp]:
  "not_proxied (login sv env r s)" "not_proxied (refresh sv env r s)" "not_proxied (getNodes env r s)"
  "not_proxied (getPools env r s)" "not_proxied (getServices env r s)" "not_proxied (getAudit r s)"
  "not_proxied (createService sv env r s)" "not_proxied (deleteService sv env i r s)"
  "not_proxied (plain st s)"
  by (simp_all add: not_proxied_def login_def refresh_def getNodes_def getPools_def getServices_def getAudit_def
      createService_def create_containers_def deleteService_def plain_def writeJSON_def Let_def case_prod_beta
      split: option.split sum.split)

lemma auth_proxied:
  assumes "fst (auth sv env res act h r s) = Proxied a r'"
  shows "\<exists>u. fst (h (r\<lparr>rqUserID := u\<rparr>) s) = Proxied a r'"
  using assms by (cases rule: auth_cases [of s sv env res act h r]) auto

text \<open>Only an unmarked request at a follower is proxied, and the copy is marked.\<close>

lemma write_proxied:
  assumes "fst (auth sv env res act (leaderForward sv env h) r s) = Proxied a r'"
    and "\<And>r. not_proxied (h r s)"
  shows "rqForwarded r = '''' \<and> delivered r' = delivered (r\<lparr>rqForwarded := ''1''\<rparr>)"
proof -
  obtain u where "fst (leaderForward sv env h (r\<lparr>rqUserID := u\<rparr>) s) = Proxied a r'"
    using auth_proxied [OF assms(1)] by blast
  with assms(2) show ?thesis
    by (cases rule: leaderForward_cases [of sv env h "r\<lparr>rqUserID := u\<rparr>" s])
      (auto simp: not_proxied_def delivered_def)
qed

lemma serve_proxied:
  assumes "fst (serve sv env r s) = Proxied a r'"
  shows "rqForwarded r = '''' \<and> delivered r' = delivered (r\<lparr>rqForwarded := ''1''\<rparr>)"
proof -
  have auth': "not_proxied (auth sv env res act h r s)" if "\<And>r. not_proxied (h r s)" for res act h
    using auth_proxied that unfolding not_proxied_def by metis
  have "not_proxied (serve sv env r s) \<or>
      serve sv env r s = auth sv env ''services'' ''create'' (leaderForward sv env (createService sv env)) r s \<or>
      (\<exists>i. serve sv env r s = auth sv env ''services'' ''delete'' (leaderForward sv env (deleteService sv env i)) r s)"
    by (auto simp: serve_def post_route_def get_route_def auth' split: option.split)
  moreover have "\<not> not_proxied (serve sv env r s)" using assms unfolding not_proxied_def by metis
  ultimately show ?thesis
    using assms write_proxied [of sv env _ _ _ r s a r'] handlers_not_proxied(7,8) by metis
qed

text \<open>A server with the tokens of the fixture library, and a request for one replica by a reader.\<close>

definition fixture_server :: server where
  "fixture_server = \<lparr>svJwtLibrary = fixture_jwt, svJwt = fixture_manager, svBalancer = lb_of_flag ''weighted'',
     svRaft = True, svPeersAPI = Map.empty\<rparr>"

definition fixture_api_env :: "go_time \<Rightarrow> bool \<Rightarrow> api_env" where
  "fixture_api_env now isLeader = \<lparr>aeNow = now, aeIsLeader = isLeader, aeLeader = ('''', ''''),
     aeUserOrder = [''u1'', ''u2'', ''u3''], aeNodeOrder = [], aePoolOrder = [], aeServiceOrder = [],
     aeOrders = (\<lambda>_ m. sorted_list_of_set (dom m)), aeServiceRaft = (isLeader, Committed),
     aeRaft = (\<lambda>_ _. (isLeader, Committed)),
     aeNet = (\<lambda>_ _ _. Inr \<lparr>rsSuccess = True, rsContainerID = ''d'', rsError = ''''\<rparr>),
     aeServiceLetters = (\<lambda>_. 0), aeLetters = (\<lambda>_ _. 1), aeDecodeText = '''', aeApplyText = (\<lambda>_. ''''),
     aeTokenText = (\<lambda>_. '''')\<rparr>"

definition fixture_request :: "json \<Rightarrow> http_request" where
  "fixture_request body = \<lparr>rqMethod = ''POST'', rqPath = ''/services'', rqAuthorization = ''Bearer acc'',
     rqForwarded = '''', rqBody = Some body, rqAction = '''', rqUser = '''', rqUserID = None\<rparr>"

definition fixture_create :: json where
  "fixture_create = JObj [(''image'', JStr ''i''), (''replicas'', JInt 1), (''pool'', JStr ''pool-1'')]"

definition fixture_created :: create_request where
  "fixture_created = zero_create_request\<lparr>crImage := ''i'', crReplicas := 1, crPoolID := ''pool-1''\<rparr>"

lemma read_fixture_create:
  "read_body create_request_fields zero_create_request (fixture_request fixture_create) = Some fixture_created"
  by (simp add: read_body_def fixture_request_def fixture_create_def dec_struct_def create_request_fields_def
      field_for_def fld_def dec_string_def dec_int_def int64_range_def zero_create_request_def fixture_created_def)

lemma fixture_env_ok:
  "all_committed (fixture_api_env now True)" "valid_answers (fixture_api_env now b)"
  "chooser (aeOrders (fixture_api_env now b) i)"
  by (simp_all add: all_committed_def valid_answers_def fixture_api_env_def chooser_sorted byte_in_def)

text \<open>A request leaves everything alone, except that write routes may change services and containers.\<close>

lemma serve_effect:
  "same_base s (snd (snd (serve sv env r s))) \<and> (\<not> harmless s (serve sv env r s) \<longrightarrow>
    (authorised sv env r ''services'' ''create'' \<or> authorised sv env r ''services'' ''delete'') \<and>
    (\<not> svRaft sv \<or> aeIsLeader env))"
proof -
  let ?res = "serve sv env r s"
  let ?create = "auth sv env ''services'' ''create'' (leaderForward sv env (createService sv env)) r s"
  let ?delete = "\<lambda>i. auth sv env ''services'' ''delete'' (leaderForward sv env (deleteService sv env i)) r s"
  have "harmless s ?res \<or> ?res = ?create \<or> (\<exists>i. ?res = ?delete i)"
    by (auto simp: serve_def post_route_def get_route_def auth_harmless split: option.split)
  moreover have "same_base s (snd (snd ?create)) \<and> (\<not> harmless s ?create \<longrightarrow>
      authorised sv env r ''services'' ''create'' \<and> (\<not> svRaft sv \<or> aeIsLeader env))"
    using write_route [of s "createService sv env" sv env "''services''" "''create''" r] by simp
  moreover have "same_base s (snd (snd (?delete i))) \<and> (\<not> harmless s (?delete i) \<longrightarrow>
      authorised sv env r ''services'' ''delete'' \<and> (\<not> svRaft sv \<or> aeIsLeader env))" for i
    using write_route [of s "deleteService sv env i" sv env "''services''" "''delete''" r] by simp
  moreover have "harmless s ?res \<longrightarrow> same_base s (snd (snd ?res))" by (simp add: harmless_def)
  ultimately show "same_base s (snd (snd ?res)) \<and> (\<not> harmless s ?res \<longrightarrow>
      (authorised sv env r ''services'' ''create'' \<or> authorised sv env r ''services'' ''delete'') \<and>
      (\<not> svRaft sv \<or> aeIsLeader env))"
    by metis
qed

section \<open>Properties\<close>



lemma names_ok_AddService: "names_ok s \<Longrightarrow> valid_utf8 (sID svc) \<Longrightarrow> names_ok (AddService svc s)"
  by (auto simp: names_ok_def AddService_def ran_def split: if_splits)

text \<open>For a positive number of replicas the scheduler never panics.\<close>

lemma Plan_error_has_text:
  assumes "Plan (lb_of_flag f) ord s svc n = Inl err" and "orders ord (containers s)" and "wf_state s" and "0 \<le> n"
  shows "\<exists>txt. plan_error_text err = Some txt"
proof (cases "GetPoolNodes (sPoolID svc) s = []")
  case True
  then show ?thesis using assms(1) by (auto simp: Plan_def)
next
  case False
  from flag.Plan_outcome [OF assms(2-4) False, of f] assms(1) show ?thesis
    by (auto split: if_splits)
qed

lemma create_containers_outcome:
  assumes "all_committed env" and "valid_answers env" and "valid_utf8 (sID svc)" and "svBalancer sv = lb_of_flag f"
    and "\<forall>i. chooser (aeOrders env i)" and "wf_state s" and "names_ok s" and "0 < n"
    and "inj_on (new_ctr_id env) {..<nat n}" and "create_containers sv env r svc n s = (out, msgs, t)"
  shows "services t = services s \<and>
    (case Plan (svBalancer sv) (\<lambda>i. aeOrders env i (containers s)) s svc n of
       Inl err \<Rightarrow> msgs = [] \<and> (\<forall>k. containers t k =
         (if k \<in> new_ctr_id env ` {..<nat n}
          then Some (zero_container\<lparr>cID := k, cServiceID := sID svc, cStatus := ContainerPending\<rparr>)
          else containers s k))
     | Inr plan \<Rightarrow> int (length plan) = n \<and> msgs = map (\<lambda>nd. (nAddress nd, start_command svc)) plan \<and>
         (\<forall>j<nat n. containers t (new_ctr_id env j) = Some (replica_container env svc j (plan ! j))) \<and>
         (\<forall>k. k \<notin> new_ctr_id env ` {..<nat n} \<longrightarrow> containers t k = containers s k))"
proof -
  have orders: "orders (\<lambda>i. aeOrders env i (containers s)) (containers s)"
    by (rule chooser_orders [OF assms(5,6)])
  show ?thesis
  proof (cases "Plan (svBalancer sv) (\<lambda>i. aeOrders env i (containers s)) s svc n")
    case (Inl err)
    then obtain m where m: "plan_error_text err = Some m"
      using Plan_error_has_text [OF _ orders assms(6)] assms(4,8) by fastforce
    have t: "t = create_audit env r svc n '' (pending)'' (snd (create_pending sv env svc 0 (nat n) [] s))" "msgs = []"
      using assms(10) Inl m by (simp_all add: create_containers_def case_prod_beta Let_def)
    have "(\<exists>j. 0 \<le> j \<and> j < 0 + nat n \<and> k = new_ctr_id env j) \<longleftrightarrow> k \<in> new_ctr_id env ` {..<nat n}" for k
      by auto
    then show ?thesis
      using create_pending_containers [OF assms(1,3), of sv 0 "nat n" "[]" s] assms(1,3)
      by (simp add: Inl t create_audit_def)
  next
    case (Inr plan)
    then have plan: "Plan (lb_of_flag f) (\<lambda>i. aeOrders env i (containers s)) s svc n = Inr plan"
      using assms(4) by simp
    have len: "length plan = nat n" using flag.Plan_length [OF plan orders] assms(8) by simp
    have "\<forall>nd\<in>set plan. valid_utf8 (nID nd)" using Plan_valid_ids [OF plan orders assms(6,7)] by blast
    note made = create_replicas_committed [OF assms(1-3) this, of sv 0 "[]" "[]" s]
    have t: "t = create_audit env r svc n '''' (s\<lparr>containers := containers s ++ map_of (rev (planned env svc 0 plan))\<rparr>)"
      "msgs = map (\<lambda>nd. (nAddress nd, start_command svc)) plan"
      using assms(10) Inr made by (simp_all add: create_containers_def case_prod_beta Let_def)
    have inj: "inj_on (new_ctr_id env) {..<length plan}" using assms(9) len by simp
    have "map_of (rev (planned env svc 0 plan)) k = None" if "k \<notin> new_ctr_id env ` {..<nat n}" for k
      using planned_keys [of env svc plan] that len by (metis domIff)
    then show ?thesis
      using planned_lookup [OF inj] len assms(8)
      by (simp add: Inr t create_audit_def map_add_def)
  qed
qed

text \<open>The fixture's request: the scheduler puts its one replica on the one node.\<close>

lemma fixture_creation:
  assumes "svc = requested_service (fixture_api_env 0 True) fixture_created"
  shows "service_ok svc" and "names_ok setupState"
    and "Plan (lb_of_flag ''weighted'') (\<lambda>i. []) (AddService svc setupState) svc 1 = Inr [place_on svc fixture_node]"
proof -
  have svc: "sPoolID svc = ''pool-1''" "sRequiredCPU svc = Fin 0" "sRequiredRAM svc = 0" "sPorts svc = []"
    by (simp_all add: assms requested_service_def fixture_created_def zero_create_request_def zero_f64_def)
  show "names_ok setupState" by (simp add: names_ok_def byte_in_def)
  show "service_ok svc"
    by (simp add: assms service_ok_def requested_service_def fixture_created_def zero_create_request_def zero_service_def
        int64_range_def strmap_ok_def finite_f64_def zero_f64_def byte_in_def ascii_def)
  have "fits svc {} fixture_node" by (simp add: fits_def svc fixture_available word_sle_eq)
  then have cs: "candidates svc [fixture_node] [''n1'' \<mapsto> {}] = [(0, fixture_node)]"
    by (simp add: candidates_def ports_at_def)
  have "GetPoolNodes ''pool-1'' (AddService svc setupState) = [fixture_node]"
    by (simp add: GetPoolNodes_def)
  then show "Plan (lb_of_flag ''weighted'') (\<lambda>i. []) (AddService svc setupState) svc 1 = Inr [place_on svc fixture_node]"
    using cs svc by (simp add: Plan_def GetActiveContainersByNode_def flag.select_singleton bind_ports_def)
qed

lemma createService_outcome:
  assumes "read_body create_request_fields zero_create_request r = Some req"
    and "crImage req \<noteq> ''''" and "0 < crReplicas req" and "crPoolID req \<noteq> ''''"
    and "all_committed env" and "valid_answers env" and "svc = requested_service env req" and "service_ok svc"
    and "svBalancer sv = lb_of_flag f" and "\<forall>i. chooser (aeOrders env i)" and "wf_state s" and "names_ok s"
    and "inj_on (new_ctr_id env) {..<nat (crReplicas req)}" and "createService sv env r s = (out, msgs, t)"
  shows "services t = (services s)(sID svc \<mapsto> svc) \<and>
    (case Plan (svBalancer sv) (\<lambda>i. aeOrders env i (containers s)) (AddService svc s) svc (crReplicas req) of
       Inl err \<Rightarrow> msgs = [] \<and> (\<forall>k. containers t k =
         (if k \<in> new_ctr_id env ` {..<nat (crReplicas req)}
          then Some (zero_container\<lparr>cID := k, cServiceID := sID svc, cStatus := ContainerPending\<rparr>)
          else containers s k))
     | Inr plan \<Rightarrow> int (length plan) = crReplicas req \<and>
         msgs = map (\<lambda>nd. (nAddress nd, start_command svc)) plan \<and>
         (\<forall>j<nat (crReplicas req). containers t (new_ctr_id env j) = Some (replica_container env svc j (plan ! j))) \<and>
         (\<forall>k. k \<notin> new_ctr_id env ` {..<nat (crReplicas req)} \<longrightarrow> containers t k = containers s k))"
proof -
  have valid: "valid_utf8 (sID svc)" using assms(8) by (simp add: service_ok_def)
  have "createService sv env r s = create_containers sv env r svc (crReplicas req) (AddService svc s)"
    using assms(1-5,7) commit_AddService [OF assms(8), of s]
    by (simp add: createService_def all_committed_def Let_def)
  with assms(14) have "create_containers sv env r svc (crReplicas req) (AddService svc s) = (out, msgs, t)" by simp
  from create_containers_outcome [OF assms(5,6) valid assms(9,10) wf_AddService [OF assms(11)]
      names_ok_AddService [OF assms(12) valid] assms(3,13) this]
  show ?thesis by (simp only: service_table.lookup_add state_frame)
qed

text \<open>
  C14: a service is created all or nothing. A well-formed request on a leader whose submissions are
  committed records the service, and then: if the scheduler cannot place all replicas, exactly the
  requested number of PENDING containers is recorded and no worker is sent anything; if it can, every
  planned node is sent one start command, and the replica of that place is recorded as RUNNING under
  the worker's container ID, as FAILED when the worker refuses, or as PENDING when it does not answer.
  Nothing else changes in the containers.
\<close>

theorem createService_all_or_nothing:
  assumes "read_body create_request_fields zero_create_request r = Some req"
    and "crImage req \<noteq> ''''" and "0 < crReplicas req" and "crPoolID req \<noteq> ''''"
    and "all_committed env" and "valid_answers env" and "svc = requested_service env req" and "service_ok svc"
    and "svBalancer sv = lb_of_flag f" and "\<forall>i. chooser (aeOrders env i)" and "wf_state s" and "names_ok s"
    and "inj_on (new_ctr_id env) {..<nat (crReplicas req)}" and "createService sv env r s = (out, msgs, t)"
  shows "services t = (services s)(sID svc \<mapsto> svc) \<and>
    (case Plan (svBalancer sv) (\<lambda>i. aeOrders env i (containers s)) (AddService svc s) svc (crReplicas req) of
       Inl err \<Rightarrow> msgs = [] \<and> (\<forall>k. containers t k =
         (if k \<in> new_ctr_id env ` {..<nat (crReplicas req)}
          then Some (zero_container\<lparr>cID := k, cServiceID := sID svc, cStatus := ContainerPending\<rparr>)
          else containers s k))
     | Inr plan \<Rightarrow> int (length plan) = crReplicas req \<and>
         msgs = map (\<lambda>nd. (nAddress nd, start_command svc)) plan \<and>
         (\<forall>j<nat (crReplicas req). containers t (new_ctr_id env j) = Some (replica_container env svc j (plan ! j))) \<and>
         (\<forall>k. k \<notin> new_ctr_id env ` {..<nat (crReplicas req)} \<longrightarrow> containers t k = containers s k))"
  by (rule createService_outcome [OF assms])

theorem createService_all_or_nothing_witness:
  "\<exists>c. containers (snd (snd (createService fixture_server (fixture_api_env 0 True) (fixture_request fixture_create)
       setupState))) (new_ctr_id (fixture_api_env 0 True) 0) = Some c \<and>
     cStatus c = ContainerRunning \<and> cNodeID c = ''n1''"
proof -
  let ?env = "fixture_api_env 0 True"
  let ?svc = "requested_service ?env fixture_created"
  let ?res = "createService fixture_server ?env (fixture_request fixture_create) setupState"
  have "containers (snd (snd ?res)) (new_ctr_id ?env 0) = Some (replica_container ?env ?svc 0 (place_on ?svc fixture_node))"
    using createService_all_or_nothing [OF read_fixture_create _ _ _ fixture_env_ok(1,2) refl fixture_creation(1) [OF refl]
        _ _ wf_setupState fixture_creation(2) [OF refl],
        of fixture_server "''weighted''" "fst ?res" "fst (snd ?res)" "snd (snd ?res)"]
      fixture_creation(3) [OF refl] fixture_env_ok(3)
    by (simp add: fixture_created_def fixture_server_def fixture_api_env_def inj_on_def)
  then show ?thesis
    by (simp add: replica_container_def fixture_api_env_def place_on_def Let_def)
qed

lemma deleteService_effect:
  assumes "all_committed env" and "valid_utf8 serviceID" and "chooser (aeOrders env 0)" and "wf_state s"
    and "\<forall>c\<in>ran (containers s). valid_utf8 (cID c)" and "deleteService sv env serviceID r s = (out, msgs, t)"
  shows "if services s serviceID = None then t = s \<and> msgs = []
    else services t = (services s)(serviceID := None) \<and> nodes t = nodes s \<and>
      (\<forall>k. containers t k = map_option (\<lambda>c. if cServiceID c = serviceID then c\<lparr>cStatus := ContainerStopped\<rparr> else c)
        (containers s k)) \<and>
      msgs = concat (map (kills_for s serviceID)
        (GetContainersByService (aeOrders env 0 (containers s)) serviceID s))"
proof (cases "services s serviceID")
  case None
  then show ?thesis using assms(6) by (simp add: deleteService_def GetService_def)
next
  case (Some svc)
  let ?cs = "GetContainersByService (aeOrders env 0 (containers s)) serviceID s"
  have it: "iterates (aeOrders env 0 (containers s)) (containers s)"
    using assms(3,4) by (simp add: chooserD wf_state_def)
  have cs: "set ?cs = {c \<in> ran (containers s). cServiceID c = serviceID}"
    using it by (auto simp: GetContainersByService_def)
  have keyed: "keyed cID (containers s)" by (rule wf_state_keyed(3) [OF assms(4)])
  have ids: "k \<in> cID ` set ?cs \<longleftrightarrow> (\<exists>c. containers s k = Some c \<and> cServiceID c = serviceID)" for k
    using keyedD [OF keyed] by (force simp: cs ran_def)
  have "\<forall>c\<in>set ?cs. valid_utf8 (cID c)" using cs assms(5) by blast
  note del = delete_containers_committed [OF assms(1) this, of sv serviceID 0 "[]" s]
  have "(if k \<in> cID ` set ?cs then map_option (\<lambda>c. c\<lparr>cStatus := ContainerStopped\<rparr>) (containers s k)
      else containers s k) =
    map_option (\<lambda>c. if cServiceID c = serviceID then c\<lparr>cStatus := ContainerStopped\<rparr> else c) (containers s k)" for k
    by (cases "containers s k") (auto simp: ids)
  then show ?thesis
    using assms(6) Some del apply_committed(3) [OF assms(1,2)]
    by (auto simp: deleteService_def GetService_def Let_def service_table.lookup_del)
qed

text \<open>
  C29: deleting a service removes it and stops what is left of it. When the submissions are committed
  the service is gone, every container of it is STOPPED and the others are as they were, and the
  workers that are sent a kill command are those whose nodes the containers name, one command per
  container and in the order of the loop. Of an unknown service nothing is touched.
\<close>

theorem deleteService_outcome:
  assumes "all_committed env" and "valid_utf8 serviceID" and "chooser (aeOrders env 0)" and "wf_state s"
    and "\<forall>c\<in>ran (containers s). valid_utf8 (cID c)" and "deleteService sv env serviceID r s = (out, msgs, t)"
  shows "if services s serviceID = None then t = s \<and> msgs = []
    else services t = (services s)(serviceID := None) \<and> nodes t = nodes s \<and>
      (\<forall>k. containers t k = map_option (\<lambda>c. if cServiceID c = serviceID then c\<lparr>cStatus := ContainerStopped\<rparr> else c)
        (containers s k)) \<and>
      msgs = concat (map (kills_for s serviceID)
        (GetContainersByService (aeOrders env 0 (containers s)) serviceID s))"
  by (rule deleteService_effect [OF assms])

theorem deleteService_outcome_witness:
  "let s = AddContainer fixture_replica (AddService (zero_service\<lparr>sID := ''v''\<rparr>) (AddNode fixture_dead NewState));
       t = snd (snd (deleteService fixture_server (fixture_api_env 0 True) ''v'' (fixture_request JNull) s))
   in services t = Map.empty \<and> containers t ''c'' = Some (fixture_replica\<lparr>cStatus := ContainerStopped\<rparr>)"
proof -
  define s where "s = AddContainer fixture_replica
    (AddService (zero_service\<lparr>sID := ''v''\<rparr>) (AddNode fixture_dead NewState))"
  let ?res = "deleteService fixture_server (fixture_api_env 0 True) ''v'' (fixture_request JNull) s"
  have c: "containers s = [''c'' \<mapsto> fixture_replica]" and v: "services s = [''v'' \<mapsto> zero_service\<lparr>sID := ''v''\<rparr>]"
    by (simp_all add: s_def AddContainer_def AddService_def AddNode_def NewState_def fixture_replica_def)
  have wf: "wf_state s" by (simp add: s_def wf_AddContainer wf_AddService wf_AddNode)
  have valid: "\<forall>c\<in>ran (containers s). valid_utf8 (cID c)" by (simp add: c fixture_replica_def byte_in_def)
  have "valid_utf8 ''v''" by (simp add: byte_in_def)
  from deleteService_outcome [OF fixture_env_ok(1) [of 0] this fixture_env_ok(3) wf valid, of fixture_server
      "fixture_request JNull" "fst ?res" "fst (snd ?res)" "snd (snd ?res)"]
  have "services (snd (snd ?res)) = Map.empty \<and>
      containers (snd (snd ?res)) ''c'' = Some (fixture_replica\<lparr>cStatus := ContainerStopped\<rparr>)"
    by (simp add: c v) (simp add: fixture_replica_def)
  then show ?thesis unfolding Let_def s_def [symmetric] .
qed

text \<open>
  C34: a request reaches the leader in at most one hop. Whatever the masters believe about the leader
  and whatever their address tables say, following a request needs at most two masters; if the second
  one leads (or has no Raft), the answer and the effect are those of the same request sent to it
  directly.
\<close>

theorem forwarding_terminates_transparently:
  "\<exists>b res. deliver 2 net a (delivered r) = Some (b, res) \<and> deliver (fuel + 2) net a (delivered r) = Some (b, res) \<and>
     (case net b of (sv, env, s) \<Rightarrow>
        b \<noteq> a \<longrightarrow> \<not> svRaft sv \<or> aeIsLeader env \<longrightarrow> res = serve sv env (delivered r) s)"
proof -
  obtain sv env s where a: "net a = (sv, env, s)" by (cases "net a")
  show ?thesis
  proof (cases "\<exists>b r'. fst (serve sv env (delivered r) s) = Proxied b r'")
    case False
    then have "deliver (Suc n) net a (delivered r) = Some (a, serve sv env (delivered r) s)" for n
      using a by (auto split: outcome.split)
    then show ?thesis using a by (simp add: numeral_2_eq_2)
  next
    case True
    then obtain b r' where proxied: "fst (serve sv env (delivered r) s) = Proxied b r'" by blast
    from serve_proxied [OF this]
    have r': "delivered r' = (delivered r)\<lparr>rqForwarded := ''1''\<rparr>" by (simp add: delivered_def)
    obtain sv' env' s' where b: "net b = (sv', env', s')" by (cases "net b")
    have stop: "fst (serve sv' env' (delivered r') s') \<noteq> Proxied c r''" for c r''
      using serve_proxied [of sv' env' "delivered r'" s' c r''] r' by auto
    have "deliver (Suc (Suc n)) net a (delivered r) = Some (b, serve sv' env' (delivered r') s')" for n
      using a b proxied stop by (auto split: outcome.split)
    then have two: "deliver 2 net a (delivered r) = Some (b, serve sv' env' (delivered r') s')"
      "deliver (fuel + 2) net a (delivered r) = Some (b, serve sv' env' (delivered r') s')"
      by (simp_all only: numeral_2_eq_2 add_Suc_right add_0_right)
    have "serve sv' env' (delivered r') s' = serve sv' env' (delivered r) s'"
      if "\<not> svRaft sv' \<or> aeIsLeader env'"
      unfolding r' by (rule serve_forwarded [OF that])
    then show ?thesis using two b by auto
  qed
qed

theorem forwarding_terminates_transparently_witness:
  "deliver 2 (\<lambda>a. (fixture_server\<lparr>svPeersAPI := [''m'' \<mapsto> ''l:8090'']\<rparr>,
       (fixture_api_env 0 (a = ''l:8090''))\<lparr>aeLeader := ('''', ''m'')\<rparr>, setupState)) ''f:8090''
     (delivered (fixture_request fixture_create)) \<noteq> None"
  using forwarding_terminates_transparently [of "\<lambda>a. (fixture_server\<lparr>svPeersAPI := [''m'' \<mapsto> ''l:8090'']\<rparr>,
       (fixture_api_env 0 (a = ''l:8090''))\<lparr>aeLeader := ('''', ''m'')\<rparr>, setupState)" "''f:8090''"
     "fixture_request fixture_create"] by blast

text \<open>
  C28: what a login is good for. Tokens are given exactly to who names a user and sends the password
  whose SHA-256 hash is stored for that user; and with the access token of that login, until it
  expires, every route lets the user do what the user's role allows and answers 403 to the rest.
\<close>

theorem login_grants_the_role:
  assumes "read_body login_request_fields zero_login_request r = Some req"
    and "jwt_laws (svJwtLibrary sv)"
    and "\<And>u. GetUserByUsername (aeUserOrder env) (lrUsername req) s = Some u \<Longrightarrow>
      valid_utf8 (uID u) \<and> valid_utf8 (uRole u) \<and>
      (\<exists>p. GenerateTokenPair (svJwtLibrary sv) (svJwt sv) (aeNow env) (uID u) (uRole u) = Inr p)"
  shows "case GetUserByUsername (aeUserOrder env) (lrUsername req) s of
      None \<Rightarrow> login sv env r s = (writeJSON 401 (error_body ''invalid credentials''), [], s)
    | Some u \<Rightarrow>
        if sha256_hex (lrPassword req) = uTokenHash u then
          \<exists>p. fst (login sv env r s) = writeJSON 200 (enc_token_pair p) \<and>
            (\<forall>env' h s' r' res act. rqAuthorization r' = ''Bearer '' @ tpAccessToken p \<longrightarrow>
               aeNow env' < whole_seconds (aeNow env + jmAccessDuration (svJwt sv)) \<longrightarrow>
               (if CheckPermission (uRole u) res act
                then auth sv env' res act h r' s' = h (r'\<lparr>rqUserID := Some (uID u)\<rparr>) s'
                else fst (auth sv env' res act h r' s') =
                  writeJSON 403 (error_body (cannot_text (uRole u) act res))))
        else login sv env r s = (writeJSON 401 (error_body ''invalid credentials''), [], s)"
proof (cases "GetUserByUsername (aeUserOrder env) (lrUsername req) s")
  case None
  then show ?thesis using assms(1) by (simp add: login_def)
next
  case (Some u)
  obtain p where p: "GenerateTokenPair (svJwtLibrary sv) (svJwt sv) (aeNow env) (uID u) (uRole u) = Inr p"
    using assms(3) [OF Some] by blast
  have valid: "ValidateAccessToken (svJwtLibrary sv) (svJwt sv) now (tpAccessToken p) =
      Inr \<lparr>clUserID = uID u, clRole = uRole u, clTokenType = ''access''\<rparr>"
    if "now < whole_seconds (aeNow env + jmAccessDuration (svJwt sv))" for now
    using access_token_valid [OF assms(2) p _ _ that] assms(3) [OF Some] by blast
  have "if CheckPermission (uRole u) res act
      then auth sv env' res act h r' s' = h (r'\<lparr>rqUserID := Some (uID u)\<rparr>) s'
      else fst (auth sv env' res act h r' s') = writeJSON 403 (error_body (cannot_text (uRole u) act res))"
    if "rqAuthorization r' = ''Bearer '' @ tpAccessToken p"
      "aeNow env' < whole_seconds (aeNow env + jmAccessDuration (svJwt sv))" for env' h s' r' res act
    using valid [OF that(2)] that(1) by (simp add: auth_def HasPrefix_def TrimPrefix_def)
  then show ?thesis using Some assms(1) p by (auto simp: login_def intro!: exI [of _ p])
qed

theorem login_grants_the_role_witness:
  "\<exists>p. fst (login fixture_server (fixture_api_env 0 True)
       (fixture_request (JObj [(''username'', JStr ''reader''), (''password'', JStr ''reader'')]))
       (master_start NewState)) = writeJSON 200 (enc_token_pair p) \<and>
     fst (auth fixture_server (fixture_api_env second True) ''services'' ''create'' (\<lambda>r s. (Aborted, [], s))
       ((fixture_request JNull)\<lparr>rqAuthorization := ''Bearer '' @ tpAccessToken p\<rparr>) NewState) =
     writeJSON 403 (error_body ''role READER cannot create services'')"
proof -
  let ?r = "fixture_request (JObj [(''username'', JStr ''reader''), (''password'', JStr ''reader'')])"
  have read: "read_body login_request_fields zero_login_request ?r = Some \<lparr>lrUsername = ''reader'', lrPassword = ''reader''\<rparr>"
    by (simp add: read_body_def fixture_request_def dec_struct_def login_request_fields_def field_for_def fld_def
        dec_string_def zero_login_request_def)
  have "users (master_start NewState) = [''u1'' \<mapsto> admin_user, ''u2'' \<mapsto> writer_user, ''u3'' \<mapsto> reader_user]"
    by (simp add: master_start_def add_default_pools_def add_default_users_def user_table.lookup_add)
      (simp add: NewState_def admin_user_def writer_user_def reader_user_def)
  then have user: "GetUserByUsername [''u1'', ''u2'', ''u3''] ''reader'' (master_start NewState) = Some reader_user"
    by (simp add: GetUserByUsername_def admin_user_def writer_user_def reader_user_def)
  have laws: "jwt_laws (svJwtLibrary fixture_server)" by (simp add: fixture_server_def)
  have fx: "aeUserOrder (fixture_api_env now b) = [''u1'', ''u2'', ''u3'']" "aeNow (fixture_api_env now b) = now"
      "svJwtLibrary fixture_server = fixture_jwt" "svJwt fixture_server = fixture_manager"
      "jmAccessDuration fixture_manager = 900 * second" for now b
    by (simp_all add: fixture_api_env_def fixture_server_def fixture_manager_def NewJWTManager_def)
  have reader: "uID reader_user = ''u3''" "uRole reader_user = RoleReader"
      "uTokenHash reader_user = sha256_hex ''reader''" by (simp_all add: reader_user_def)
  have tokens: "\<exists>p. GenerateTokenPair fixture_jwt fixture_manager 0 ''u3'' RoleReader = Inr p"
    using fixture_tokens by blast
  have "\<exists>p. fst (login fixture_server (fixture_api_env 0 True) ?r (master_start NewState)) =
        writeJSON 200 (enc_token_pair p) \<and>
      (\<forall>env' h s' r' res act. rqAuthorization r' = ''Bearer '' @ tpAccessToken p \<longrightarrow>
         aeNow env' < whole_seconds (900 * second) \<longrightarrow>
         (if CheckPermission RoleReader res act
          then auth fixture_server env' res act h r' s' = h (r'\<lparr>rqUserID := Some ''u3''\<rparr>) s'
          else fst (auth fixture_server env' res act h r' s') =
            writeJSON 403 (error_body (cannot_text RoleReader act res))))"
    using login_grants_the_role [OF read laws, of "fixture_api_env 0 True" "master_start NewState"] tokens
    by (simp add: fx user reader byte_in_def RoleReader_def cong: if_cong)
  then obtain p where p: "fst (login fixture_server (fixture_api_env 0 True) ?r (master_start NewState)) =
        writeJSON 200 (enc_token_pair p)"
    and later: "\<And>env' h s' r' res act. rqAuthorization r' = ''Bearer '' @ tpAccessToken p \<Longrightarrow>
         aeNow env' < whole_seconds (900 * second) \<Longrightarrow> \<not> CheckPermission RoleReader res act \<Longrightarrow>
         fst (auth fixture_server env' res act h r' s') = writeJSON 403 (error_body (cannot_text RoleReader act res))"
    by meson
  have denied: "\<not> CheckPermission RoleReader ''services'' ''create''" by code_simp
  have "fst (auth fixture_server (fixture_api_env second True) ''services'' ''create'' (\<lambda>r s. (Aborted, [], s))
       ((fixture_request JNull)\<lparr>rqAuthorization := ''Bearer '' @ tpAccessToken p\<rparr>) NewState) =
     writeJSON 403 (error_body (cannot_text RoleReader ''create'' ''services''))"
    by (rule later [OF _ _ denied]) (simp_all add: fx whole_seconds_def second_def)
  then show ?thesis using p by (auto simp: cannot_text_def RoleReader_def)
qed

end
