(* ===== verification/Worker.thy ===== *)
theory Worker
  imports Docker Monitor ApiProofs
begin

text \<open>
  The worker process, \<open>cmd/worker/main.go\<close>: the handler of its command server on top of the container
  manager, the heartbeat it sends and what it does when it is told to stop. The second part joins the
  worker to the master: what a master's command makes the daemon do, and what the names and labels
  of the containers are good for when workers share a daemon or restart.
\<close>

section \<open>The process\<close>

text \<open>A panic has no text: it ends the process.\<close>

fun docker_error_text :: "docker_error \<Rightarrow> go_string option" where
  "docker_error_text (PullImage img err) = Some (''pull image '' @ img @ '': '' @ err)"
| "docker_error_text (CreateContainer err) = Some (''create container: '' @ err)"
| "docker_error_text (StartFailed err) = Some (''start container: '' @ err)"
| "docker_error_text (ListContainers err) = Some (''list containers: '' @ err)"
| "docker_error_text PanicSlice = None"

definition failure :: "go_string \<Rightarrow> command_response" where
  "failure err = zero_response\<lparr>rsSuccess := False, rsError := err\<rparr>"

definition worker_handler ::
  "'d docker_sdk \<Rightarrow> go_string list \<Rightarrow> command \<Rightarrow> docker_manager \<Rightarrow> 'd \<Rightarrow>
   command_response option \<times> docker_manager \<times> 'd" where
  "worker_handler sdk ks cmd dm d =
     (if cmType cmd = CmdStartContainer then
        (case StartContainer sdk ks cmd dm d of
           (Inl err, dm', d') \<Rightarrow> (map_option failure (docker_error_text err), dm', d')
         | (Inr containerID, dm', d') \<Rightarrow>
             (Some (zero_response\<lparr>rsSuccess := True, rsContainerID := containerID\<rparr>), dm', d'))
      else if cmType cmd = CmdKillContainers then
        (case KillContainersByService sdk dm (cmServiceID cmd) d of
           (Some err, d') \<Rightarrow> (map_option failure (docker_error_text err), dm, d')
         | (None, d') \<Rightarrow> (Some (zero_response\<lparr>rsSuccess := True\<rparr>), dm, d'))
      else (Some (failure (''unknown command: '' @ cmType cmd)), dm, d))"

text \<open>\<open>handleConn\<close> with this handler, and its effect on the worker.\<close>

definition worker_conn ::
  "'d docker_sdk \<Rightarrow> go_string list \<Rightarrow> json option \<Rightarrow> docker_manager \<Rightarrow> 'd \<Rightarrow>
   json option \<times> docker_manager \<times> 'd" where
  "worker_conn sdk ks data dm d =
     (case data of
        None \<Rightarrow> (None, dm, d)
      | Some j \<Rightarrow>
          (let (cmd, ok) = dec_command j zero_command in
           if \<not> ok then (None, dm, d)
           else case worker_handler sdk ks cmd dm d of
             (resp, dm', d') \<Rightarrow> (Option.bind resp enc_response, dm', d')))"

text \<open>What the process is started with: the flags, of which the node is required, and the Docker client.\<close>

datatype worker_exit = Usage | NoDocker go_string

definition worker_start :: "go_string + unit \<Rightarrow> go_string \<Rightarrow> worker_exit + docker_manager" where
  "worker_start client nodeID =
     (if nodeID = '''' then Inl Usage
      else case NewDockerManager client nodeID of Inl err \<Rightarrow> Inl (NoDocker err) | Inr dm \<Rightarrow> Inr dm)"

definition worker_heartbeat ::
  "'d docker_sdk \<Rightarrow> go_string \<Rightarrow> os_reports \<Rightarrow> docker_manager \<Rightarrow> 'd \<Rightarrow> json option \<times> 'd" where
  "worker_heartbeat sdk addr os dm d =
     (let (cs, d') = RunningContainerIDs sdk dm d in (send (dmNodeID dm) addr (GetMetrics os) cs, d'))"

definition worker_shutdown :: "'d docker_sdk \<Rightarrow> docker_manager \<Rightarrow> 'd \<Rightarrow> 'd" where
  "worker_shutdown sdk dm d = snd (KillAllContainers sdk dm d)"

text \<open>A master's \<open>SendCommand\<close> over a working connection to this worker.\<close>

definition call_worker ::
  "'d docker_sdk \<Rightarrow> go_string list \<Rightarrow> command \<Rightarrow> docker_manager \<Rightarrow> 'd \<Rightarrow>
   (send_error + command_response) \<times> docker_manager \<times> 'd" where
  "call_worker sdk ks cmd dm d =
     (SendCommand True True (\<lambda>data. fst (worker_conn sdk ks data dm d)) cmd,
      case enc_command cmd of None \<Rightarrow> (dm, d) | Some j \<Rightarrow> snd (worker_conn sdk ks (Some j) dm d))"

section \<open>Over the wire\<close>

lemma failure_travels:
  "\<exists>j text'. enc_response (failure t) = Some j \<and> dec_response j zero_response = (failure text', True)"
  by (cases "t = ''''")
    (auto simp: failure_def zero_response_def enc_response_def dec_response_def response_fields_def omitempty_def
      struct_simps leaf_simps)

lemma call_worker_effect:
  assumes "command_ok cmd"
  shows "snd (call_worker sdk ks cmd dm d) = snd (worker_handler sdk ks cmd dm d)"
proof -
  obtain j where "enc_command cmd = Some j" "dec_command j zero_command = (cmd, True)"
    using command_codec.roundtrip [OF assms] by blast
  then show ?thesis
    by (cases "worker_handler sdk ks cmd dm d") (simp add: call_worker_def worker_conn_def)
qed

lemma call_worker_answer:
  assumes "command_ok cmd"
  shows "fst (worker_handler sdk ks cmd dm d) = None \<Longrightarrow> fst (call_worker sdk ks cmd dm d) = Inl ReadError"
    and "fst (worker_handler sdk ks cmd dm d) = Some (failure t) \<Longrightarrow>
      \<exists>text'. fst (call_worker sdk ks cmd dm d) = Inr (failure text')"
    and "fst (worker_handler sdk ks cmd dm d) = Some r \<Longrightarrow> response_ok r \<Longrightarrow>
      fst (call_worker sdk ks cmd dm d) = Inr r"
proof -
  obtain j where j: "enc_command cmd = Some j" "dec_command j zero_command = (cmd, True)"
    using command_codec.roundtrip [OF assms] by blast
  have call: "fst (call_worker sdk ks cmd dm d) =
      (case Option.bind (fst (worker_handler sdk ks cmd dm d)) enc_response of
         None \<Rightarrow> Inl ReadError
       | Some r \<Rightarrow> (let (resp, ok) = dec_response r zero_response in if ok then Inr resp else Inl ReadError))"
    by (cases "worker_handler sdk ks cmd dm d") (simp add: call_worker_def worker_conn_def SendCommand_def j)
  then show "fst (worker_handler sdk ks cmd dm d) = None \<Longrightarrow> fst (call_worker sdk ks cmd dm d) = Inl ReadError"
    by simp
  show "fst (worker_handler sdk ks cmd dm d) = Some (failure t) \<Longrightarrow>
      \<exists>text'. fst (call_worker sdk ks cmd dm d) = Inr (failure text')"
    using call failure_travels [of t] by auto
  show "fst (worker_handler sdk ks cmd dm d) = Some r \<Longrightarrow> response_ok r \<Longrightarrow>
      fst (call_worker sdk ks cmd dm d) = Inr r"
    using call response_codec.roundtrip [of r] by auto
qed

lemma start_command_ok: "service_ok svc \<Longrightarrow> command_ok (start_command svc)"
  by (simp add: command_ok_def start_command_def service_ok_def zero_command_def CmdStartContainer_def byte_in_def)

section \<open>Names\<close>

lemma digit_not_dash: "CHR ''-'' \<notin> digit_chars"
  by (simp add: digit_chars_def)

lemma dash_digits_eq:
  assumes "a @ ''-'' @ digits m = b @ ''-'' @ digits n"
  shows "a = b" and "m = n"
proof -
  have last: "takeWhile (\<lambda>c. c \<noteq> CHR ''-'') (rev (x @ ''-'' @ digits k)) = rev (digits k)" for x k
    using digits_subset [of k] digit_not_dash by (subst rev_append) (auto simp: takeWhile_append)
  have "rev (digits m) = rev (digits n)"
    by (subst last [of a m, symmetric], subst assms, rule last)
  then show "m = n" by simp
  then show "a = b" using assms by simp
qed

lemma length_generateID [simp]: "length (generateID p draws) = length p + 9"
  by (simp add: generateID_def randomString_def)

lemma container_name_inj:
  assumes "container_name n (generateID p r) k = container_name n' (generateID p r') k'"
    and "0 \<le> k" and "0 \<le> k'"
  shows "n = n' \<and> generateID p r = generateID p r' \<and> k = k'"
proof -
  have "(n @ ''-'' @ generateID p r) @ ''-'' @ digits (nat k) = (n' @ ''-'' @ generateID p r') @ ''-'' @ digits (nat k')"
    using assms by (simp add: container_name_def format_int_def)
  from dash_digits_eq [OF this]
  have "n @ ''-'' @ generateID p r = n' @ ''-'' @ generateID p r'" "nat k = nat k'" by simp_all
  then show ?thesis using assms(2,3) by (simp add: append_eq_append_conv)
qed

section \<open>From a master to the daemon\<close>

definition kill_command :: "go_string \<Rightarrow> command" where
  "kill_command serviceID = zero_command\<lparr>cmType := CmdKillContainers, cmServiceID := serviceID\<rparr>"

lemma kill_command_ok: "valid_utf8 serviceID \<Longrightarrow> command_ok (kill_command serviceID)"
  by (simp add: command_ok_def kill_command_def zero_command_def CmdKillContainers_def finite_f64_def zero_f64_def
      strmap_ok_def byte_in_def)

lemma call_worker_kill:
  assumes "docker_laws sdk" and "valid_utf8 serviceID"
    and "call_worker sdk ks (kill_command serviceID) dm d = (Inr resp, dm', d')"
  shows "\<exists>err. KillContainersByService sdk dm serviceID d = (err, d') \<and> (rsSuccess resp \<longleftrightarrow> err = None)"
proof -
  obtain err d2 where k: "KillContainersByService sdk dm serviceID d = (err, d2)" by fastforce
  note ok = kill_command_ok [OF assms(2)]
  have h: "worker_handler sdk ks (kill_command serviceID) dm d =
      (case err of None \<Rightarrow> Some (zero_response\<lparr>rsSuccess := True\<rparr>)
       | Some e \<Rightarrow> map_option failure (docker_error_text e), dm, d2)"
    using k by (simp add: worker_handler_def kill_command_def split: option.split)
  have "d' = d2" using call_worker_effect [OF ok, of sdk ks dm d] h assms(3) by simp
  moreover have "rsSuccess resp \<longleftrightarrow> err = None"
  proof (cases err)
    case None
    have "response_ok (zero_response\<lparr>rsSuccess := True\<rparr>)" by (simp add: response_ok_def zero_response_def)
    from call_worker_answer(3) [OF ok _ this, of sdk ks dm d] show ?thesis using h None assms(3) by simp
  next
    case (Some e)
    show ?thesis
    proof (cases "docker_error_text e")
      case None
      then show ?thesis using call_worker_answer(1) [OF ok, of sdk ks dm d] h Some assms(3) by simp
    next
      case told: (Some t)
      then show ?thesis using call_worker_answer(2) [OF ok, of sdk ks dm d t] h Some assms(3)
        by (auto simp: failure_def)
    qed
  qed
  ultimately show ?thesis using k by blast
qed

lemma call_worker_start:
  assumes "docker_laws sdk" and "service_ok svc"
    and "call_worker sdk ks (start_command svc) dm d = (ans, dm', d')"
  shows "\<exists>res resp. ans = Inr resp \<and> StartContainer sdk ks (start_command svc) dm d = (res, dm', d') \<and>
    (case res of Inl e \<Rightarrow> \<not> rsSuccess resp | Inr i \<Rightarrow> rsSuccess resp \<and> rsContainerID resp = i)"
proof -
  obtain res dm2 d2 where s: "StartContainer sdk ks (start_command svc) dm d = (res, dm2, d2)"
    by (metis prod.exhaust)
  note ok = start_command_ok [OF assms(2)]
  have type: "cmType (start_command svc) = CmdStartContainer" by (simp add: start_command_def)
  have same: "(dm', d') = (dm2, d2)"
    using call_worker_effect [OF ok, of sdk ks dm d] assms(3) s
    by (simp add: worker_handler_def type split: sum.splits)
  show ?thesis
  proof (cases res)
    case (Inl e)
    from assms(1) s have "e \<noteq> PanicSlice" unfolding Inl by (cases rule: StartContainer_cases) auto
    then obtain t where "docker_error_text e = Some t" by (cases e) auto
    then have "fst (worker_handler sdk ks (start_command svc) dm d) = Some (failure t)"
      using s Inl by (simp add: worker_handler_def type)
    from call_worker_answer(2) [OF ok this] show ?thesis
      using assms(3) s Inl same by (auto simp: failure_def)
  next
    case (Inr i)
    from assms(1) s have "dsContainers sdk d2 i \<noteq> None" unfolding Inr by (cases rule: StartContainer_cases) auto
    then have "response_ok (zero_response\<lparr>rsSuccess := True, rsContainerID := i\<rparr>)"
      using docker_laws_ids_valid [OF assms(1)] by (auto simp: response_ok_def zero_response_def)
    moreover have "fst (worker_handler sdk ks (start_command svc) dm d) =
        Some (zero_response\<lparr>rsSuccess := True, rsContainerID := i\<rparr>)"
      using s Inr by (simp add: worker_handler_def type)
    ultimately show ?thesis using call_worker_answer(3) [OF ok] assms(3) s Inr same by fastforce
  qed
qed

lemma port_bindings_binds:
  "port_bindings ps m (tcp_port p) =
     (if p \<in> set ps then Some [\<lparr>pbHostIP = ''0.0.0.0'', pbHostPort = format_int p\<rparr>]
      else port_bindings ps m (tcp_port p))"
proof -
  have "p \<in> set ps \<or> m (tcp_port p) = Some [\<lparr>pbHostIP = ''0.0.0.0'', pbHostPort = format_int p\<rparr>] \<Longrightarrow>
      port_bindings ps m (tcp_port p) = Some [\<lparr>pbHostIP = ''0.0.0.0'', pbHostPort = format_int p\<rparr>]"
  proof (induction ps arbitrary: m)
    case (Cons q ps)
    have "tcp_port p = tcp_port q \<Longrightarrow> format_int q = format_int p" by (simp add: tcp_port_def)
    then show ?case using Cons by (cases "tcp_port q = tcp_port p") auto
  qed simp
  then show ?thesis by simp
qed

lemma set_env_list:
  assumes "iterates ks (map_of vars)"
  shows "set (env_list ks vars) = {k @ ''='' @ v | k v. map_of vars k = Some v}"
proof -
  have "set (env_list ks vars) = (\<Union>k\<in>dom (map_of vars). {k @ ''='' @ v | v. map_of vars k = Some v})"
    using iterates_set [OF assms] by (force simp: env_list_def split: option.splits)
  then show ?thesis by blast
qed

section \<open>Properties\<close>

text \<open>
  No two containers get the same name, as the comment in \<open>StartContainer\<close> promises, as long as no
  worker restarts: names from the node, the service and the running number differ as soon as one of
  the three does, whatever dashes the node identifier has, for services that a master has named.
\<close>

theorem container_names_unique:
  assumes "0 \<le> k" and "0 \<le> k'"
  shows "container_name n (generateID ''svc'' r) k = container_name n' (generateID ''svc'' r') k' \<longleftrightarrow>
    n = n' \<and> generateID ''svc'' r = generateID ''svc'' r' \<and> k = k'"
proof
  assume "container_name n (generateID ''svc'' r) k = container_name n' (generateID ''svc'' r') k'"
  from container_name_inj [OF this assms]
  show "n = n' \<and> generateID ''svc'' r = generateID ''svc'' r' \<and> k = k'" .
qed simp

theorem container_names_unique_witness:
  "container_name ''n-1'' (generateID ''svc'' (\<lambda>_. 0)) 1 \<noteq> container_name ''n'' (generateID ''svc'' (\<lambda>_. 0)) 1"
  using container_names_unique [of 1 1 "''n-1''" "\<lambda>_. 0" "''n''" "\<lambda>_. 0"] by simp

text \<open>
  C40: after a restart of the worker process the names start over. When the containers of the previous
  run are still there, as they are after a crash, the first start of the new run fails if it is for
  the service that the first start of the previous run was for: the name is taken, and the daemon
  keeps the containers it had.
\<close>

theorem restarted_worker_reuses_names:
  assumes "docker_laws sdk" and "forced_removal_works sdk" and "NewDockerManager (Inr ()) nodeID = Inr dm"
    and "StartContainer sdk ks cmd dm d = (Inr i, dm1, d1)" and "cmServiceID cmd' = cmServiceID cmd"
  shows "\<exists>e dm2 d2. StartContainer sdk ks' cmd' dm d1 = (Inl e, dm2, d2) \<and>
    dsContainers sdk d2 = dsContainers sdk d1 \<and> (\<forall>err. e \<noteq> StartFailed err)"
proof -
  have taken: "dcName (started_container ks' cmd' dm) \<in> dcName ` ran (dsContainers sdk d1)"
    using assms(1,4)
  proof (cases rule: StartContainer_cases)
    case (started j)
    then have "started_container ks cmd dm \<in> ran (dsContainers sdk d1)" by (auto simp: ran_def)
    moreover have "dcName (started_container ks' cmd' dm) = dcName (started_container ks cmd dm)"
      using assms(5) by (simp add: started_container_def)
    ultimately show ?thesis by (metis imageI)
  qed simp_all
  obtain res dm2 d2 where r: "StartContainer sdk ks' cmd' dm d1 = (res, dm2, d2)"
    by (metis prod.exhaust)
  from assms(1) r show ?thesis
    using r taken by (cases rule: StartContainer_cases) auto
qed

theorem restarted_worker_reuses_names_witness:
  "\<exists>e. fst (StartContainer small_docker [] (zero_command\<lparr>cmServiceID := ''v'', cmImage := ''b''\<rparr>) \<lparr>dmNodeID = ''n'', dmSeq = 0\<rparr>
     (snd (snd (StartContainer small_docker [] (zero_command\<lparr>cmServiceID := ''v''\<rparr>) \<lparr>dmNodeID = ''n'', dmSeq = 0\<rparr> [])))) = Inl e"
proof -
  let ?dm = "\<lparr>dmNodeID = ''n'', dmSeq = 0\<rparr>"
  have "fst (StartContainer small_docker [] (zero_command\<lparr>cmServiceID := ''v''\<rparr>) ?dm []) = Inr (small_id 0)"
    by (simp add: StartContainer_def ensure_image_def small_docker_def Let_def)
  then obtain dm1 d1 where r: "StartContainer small_docker [] (zero_command\<lparr>cmServiceID := ''v''\<rparr>) ?dm [] =
      (Inr (small_id 0), dm1, d1)"
    by (metis prod.exhaust_sel)
  have "NewDockerManager (Inr ()) ''n'' = Inr ?dm" by (simp add: NewDockerManager_def)
  from restarted_worker_reuses_names [OF small_docker_laws small_docker_removal(2) this r,
      of "zero_command\<lparr>cmServiceID := ''v'', cmImage := ''b''\<rparr>" "[]"]
  show ?thesis using r by auto
qed





end
