(* ===== verification/Processes.thy ===== *)
theory Processes
  imports Worker Lifecycle Master
begin

text \<open>
  The loops that run until they are stopped: the failure detector, the sender and the receiver of
  heartbeats and the command server. A loop is a function of what it meets, in the order it meets it:
  a ticker loop of the choices of its \<open>select\<close>, a reading loop of what the reads return. The loops
  end by the stop channel only, and where the input ends they wait for more.
\<close>

section \<open>Ticker loops\<close>

text \<open>\<open>Ticked now\<close>: the tick was received, at that time; \<open>StopClosed\<close>: the stop channel was.\<close>

datatype loop_event = Ticked go_time | StopClosed

text \<open>The flag: whether the loop has returned.\<close>

fun ticker_loop :: "(go_time \<Rightarrow> 's \<Rightarrow> 's) \<Rightarrow> loop_event list \<Rightarrow> 's \<Rightarrow> bool \<times> 's" where
  "ticker_loop body [] s = (False, s)"
| "ticker_loop body (Ticked now # es) s = ticker_loop body es (body now s)"
| "ticker_loop body (StopClosed # es) s = (True, s)"

text \<open>What a body keeps, its loop keeps.\<close>

locale ticker_body =
  fixes body :: "go_time \<Rightarrow> 's \<Rightarrow> 's" and inv :: "'s \<Rightarrow> bool"
  assumes body_keeps: "inv s \<Longrightarrow> inv (body now s)"
begin

lemma loop_keeps: "inv s \<Longrightarrow> inv (snd (ticker_loop body es s))"
proof (induction es arbitrary: s)
  case (Cons e es)
  then show ?case by (cases e) (simp_all add: body_keeps)
qed simp

end

lemma ticker_loop_append:
  "ticker_loop body (es @ fs) s =
     (if fst (ticker_loop body es s) then ticker_loop body es s
      else ticker_loop body fs (snd (ticker_loop body es s)))"
  by (induction body es s rule: ticker_loop.induct) simp_all

lemma ticker_loop_returns: "fst (ticker_loop body es s) \<longleftrightarrow> StopClosed \<in> set es"
  by (induction body es s rule: ticker_loop.induct) simp_all

text \<open>Two ways in which a loop fails to start, each of which ends the process.\<close>

datatype crash = Fatal go_string | Panicked go_string

text \<open>\<open>time.NewTicker\<close> panics when the interval is not positive.\<close>

definition NewTicker :: "duration \<Rightarrow> crash option" where
  "NewTicker d = (if d \<le> 0 then Some (Panicked ''non-positive interval for NewTicker'') else None)"

text \<open>\<open>close(stop)\<close>: closing a closed channel panics.\<close>

definition close_stop :: "bool \<Rightarrow> bool option" where
  "close_stop shut = (if shut then None else Some True)"

subsection \<open>The failure detector\<close>

text \<open>Orders and callback may differ from pass to pass. The interval of the ticker is positive (5 seconds in \<open>main\<close>).\<close>

definition Tolerance_Start ::
  "tolerance \<Rightarrow> (go_time \<Rightarrow> (go_string \<rightharpoonup> node) \<Rightarrow> go_string list) \<Rightarrow> (go_time \<Rightarrow> go_string \<Rightarrow> container_order) \<Rightarrow>
   (go_time \<Rightarrow> dead_callback option) \<Rightarrow> loop_event list \<Rightarrow> state \<Rightarrow> bool \<times> state" where
  "Tolerance_Start t nord ord onNodeDead es s =
     ticker_loop (\<lambda>now. check t now (nord now) (ord now) (onNodeDead now)) es s"

text \<open>The module of the master: a check every 5 seconds, SUSPECT after 15, DEAD after 30.\<close>

definition master_tolerance :: tolerance where
  "master_tolerance = \<lparr>checkInterval = 5 * second, suspectAfter = 15 * second, deadAfter = 30 * second\<rparr>"

subsection \<open>The sender\<close>

text \<open>
  \<open>getMetrics\<close> and \<open>getContainers\<close> work on a state of their own; the stop channel is the flag of
  \<open>close_stop\<close>.
\<close>

record 'd sender =
  seMulticastAddr :: go_string
  seInterval :: duration
  seNodeID :: go_string
  seAddress :: go_string
  seGetMetrics :: "'d \<Rightarrow> (f64 \<times> f64 \<times> i64 \<times> i64) \<times> 'd"
  seGetContainers :: "'d \<Rightarrow> go_string list \<times> 'd"

definition NewSender ::
  "go_string \<Rightarrow> go_string \<Rightarrow> go_string \<Rightarrow> duration \<Rightarrow> ('d \<Rightarrow> (f64 \<times> f64 \<times> i64 \<times> i64) \<times> 'd) \<Rightarrow>
   ('d \<Rightarrow> go_string list \<times> 'd) \<Rightarrow> 'd sender" where
  "NewSender multicastAddr nodeID address interval getMetrics getContainers =
     \<lparr>seMulticastAddr = multicastAddr, seInterval = interval, seNodeID = nodeID, seAddress = address,
      seGetMetrics = getMetrics, seGetContainers = getContainers\<rparr>"

text \<open>\<open>written\<close> tells whether the write of a time succeeds. What has been sent is kept in a list.\<close>

definition Sender_tick ::
  "'d sender \<Rightarrow> (go_time \<Rightarrow> bool) \<Rightarrow> go_time \<Rightarrow> json list \<times> 'd \<Rightarrow> json list \<times> 'd" where
  "Sender_tick s written now p =
     (let (out, d) = p;
          (metrics, d1) = seGetMetrics s d;
          (cs, d2) = seGetContainers s d1
      in case send (seNodeID s) (seAddress s) metrics cs of
           None \<Rightarrow> (out, d2)
         | Some j \<Rightarrow> (if written now then out @ [j] else out, d2))"

text \<open>\<open>resolve\<close> and \<open>dial\<close>: what the two calls of the network return for an address.\<close>

definition Sender_Start ::
  "(go_string \<Rightarrow> go_string + unit) \<Rightarrow> (go_string \<Rightarrow> go_string + unit) \<Rightarrow> 'd sender \<Rightarrow> (go_time \<Rightarrow> bool) \<Rightarrow>
   loop_event list \<Rightarrow> 'd \<Rightarrow> crash + (bool \<times> json list \<times> 'd)" where
  "Sender_Start resolve dial s written es d =
     (case resolve (seMulticastAddr s) of
        Inl err \<Rightarrow> Inl (Fatal (''heartbeat sender: resolve addr: '' @ err))
      | Inr _ \<Rightarrow>
          (case dial (seMulticastAddr s) of
             Inl err \<Rightarrow> Inl (Fatal (''heartbeat sender: dial: '' @ err))
           | Inr _ \<Rightarrow>
               (case NewTicker (seInterval s) of
                  Some crash \<Rightarrow> Inl crash
                | None \<Rightarrow> Inr (ticker_loop (Sender_tick s written) es ([], d)))))"

definition Sender_Stop :: "bool \<Rightarrow> bool option" where
  "Sender_Stop = close_stop"

text \<open>Whatever is sent is a heartbeat of this worker.\<close>

interpretation sender_loop: ticker_body "Sender_tick s written"
    "\<lambda>p. \<forall>j\<in>set (fst p). \<exists>metrics cs. send (seNodeID s) (seAddress s) metrics cs = Some j"
  for s :: "'d sender" and written
  by unfold_locales (auto simp: Sender_tick_def split: prod.splits option.splits; blast)

lemma Sender_Start_sends:
  assumes "Sender_Start resolve dial s written es d = Inr (b, out, d')" and "j \<in> set out"
  shows "\<exists>metrics cs. send (seNodeID s) (seAddress s) metrics cs = Some j"
  using assms sender_loop.loop_keeps [of "([], d)" s written es]
  by (auto simp: Sender_Start_def split: sum.splits option.splits)

lemma Sender_Start_crashes: "seInterval s \<le> 0 \<Longrightarrow> \<exists>c. Sender_Start resolve dial s written es d = Inl c"
  by (simp add: Sender_Start_def NewTicker_def split: sum.split)

section \<open>Reading loops\<close>

text \<open>A read gives something, or fails; the flag: whether the stop channel is closed at that moment.\<close>

datatype 'e read_event = Got 'e | Failed bool

fun reading_loop :: "('e \<Rightarrow> 's \<Rightarrow> 's) \<Rightarrow> 'e read_event list \<Rightarrow> 's \<Rightarrow> bool \<times> 's" where
  "reading_loop body [] s = (False, s)"
| "reading_loop body (Got e # es) s = reading_loop body es (body e s)"
| "reading_loop body (Failed stopped # es) s = (if stopped then (True, s) else reading_loop body es s)"

subsection \<open>The receiver\<close>

text \<open>
  A datagram: its length, the document it is the text of (if it is one), and the time at which it is
  handled. The buffer of the receiver has 4096 bytes and a longer datagram is cut off. What is left of
  an object then is no document any more, because the bracket that closes it is missing.
\<close>

record datagram =
  dgSize :: nat
  dgDoc :: "json option"
  dgTime :: go_time

definition read_datagram :: "datagram \<Rightarrow> json option" where
  "read_datagram dg = (if dgSize dg \<le> 4096 then dgDoc dg else None)"

text \<open>The struct without its state, which is the world the loop runs on, and its stop channel.\<close>

record receiver =
  reMulticastAddr :: go_string
  reOnLateHeartbeat :: "(go_string \<Rightarrow> world \<Rightarrow> world) option"
  reOnNodeDiscovered :: "(go_string \<Rightarrow> state \<Rightarrow> state) option"

definition NewReceiver ::
  "go_string \<Rightarrow> (go_string \<Rightarrow> world \<Rightarrow> world) option \<Rightarrow> (go_string \<Rightarrow> state \<Rightarrow> state) option \<Rightarrow> receiver" where
  "NewReceiver multicastAddr onLateHeartbeat onNodeDiscovered =
     \<lparr>reMulticastAddr = multicastAddr, reOnLateHeartbeat = onLateHeartbeat, reOnNodeDiscovered = onNodeDiscovered\<rparr>"

definition Receiver_Start ::
  "(go_string \<Rightarrow> go_string + unit) \<Rightarrow> (go_string \<Rightarrow> go_string + unit) \<Rightarrow> pool_order \<Rightarrow> receiver \<Rightarrow>
   datagram read_event list \<Rightarrow> world \<Rightarrow> crash + (bool \<times> world)" where
  "Receiver_Start resolve listen pord r es w =
     (case resolve (reMulticastAddr r) of
        Inl err \<Rightarrow> Inl (Fatal (''heartbeat receiver: resolve addr: '' @ err))
      | Inr _ \<Rightarrow>
          (case listen (reMulticastAddr r) of
             Inl err \<Rightarrow> Inl (Fatal (''heartbeat receiver: listen: '' @ err))
           | Inr _ \<Rightarrow>
               Inr (reading_loop (\<lambda>dg. handleHeartbeat (dgTime dg) pord (reOnLateHeartbeat r) (reOnNodeDiscovered r)
                 (read_datagram dg)) es w)))"

text \<open>
  \<open>opened\<close>: whether \<open>Start\<close> has set the connection. The result: the stop channel is closed, and the
  connection is closed if there is one, on which a pending read fails.
\<close>

definition Receiver_Stop :: "bool \<Rightarrow> bool \<Rightarrow> (bool \<times> bool) option" where
  "Receiver_Stop shut opened = map_option (\<lambda>b. (b, opened)) (close_stop shut)"

subsection \<open>The command server\<close>

text \<open>A connection that is accepted gets a goroutine of its own: they are collected.\<close>

record 'h command_server =
  csListenAddr :: go_string
  csHandler :: 'h

definition NewCommandServer :: "go_string \<Rightarrow> 'h \<Rightarrow> 'h command_server" where
  "NewCommandServer listenAddr handler = \<lparr>csListenAddr = listenAddr, csHandler = handler\<rparr>"

definition CommandServer_Start ::
  "(go_string \<Rightarrow> go_string + unit) \<Rightarrow> 'h command_server \<Rightarrow> 'c read_event list \<Rightarrow> crash + (bool \<times> ('h \<times> 'c) list)" where
  "CommandServer_Start listen s es =
     (case listen (csListenAddr s) of
        Inl err \<Rightarrow> Inl (Fatal (''command server: listen: '' @ err))
      | Inr _ \<Rightarrow> Inr (reading_loop (\<lambda>c served. served @ [(csHandler s, c)]) es []))"

definition CommandServer_Stop :: "bool \<Rightarrow> bool option" where
  "CommandServer_Stop = close_stop"

section \<open>Detection\<close>

text \<open>What a loop over ticks only makes of one node, when its callbacks leave the nodes alone.\<close>

lemma judged_fields [simp]:
  "nLastHeartbeat (judged t now n) = nLastHeartbeat n" "nStatus (judged t now n) = next_status t now n"
  by (simp_all add: judged_def)

definition ticks :: "go_time list \<Rightarrow> loop_event list" where
  "ticks = map Ticked"

lemma ticks_simps [simp]: "ticks [] = []" "ticks (x # xs) = Ticked x # ticks xs" "ticks (xs @ ys) = ticks xs @ ticks ys"
  by (simp_all add: ticks_def)

lemma nodes_Tolerance_Start:
  assumes "keyed nID (nodes s)" and "finite (dom (nodes s))" and "\<And>now. chooser (nord now)"
    and "\<And>now. dead_node_callback (onNodeDead now)"
  shows "\<not> fst (Tolerance_Start t nord ord onNodeDead (ticks ts) s) \<and>
    nodes (snd (Tolerance_Start t nord ord onNodeDead (ticks ts) s)) =
      (\<lambda>k. map_option (\<lambda>n. fold (judged t) ts n) (nodes s k))"
  using assms(1,2)
proof (induction ts arbitrary: s)
  case Nil
  then show ?case by (simp add: Tolerance_Start_def option.map_ident)
next
  case (Cons now ts)
  let ?s = "check t now (nord now) (ord now) (onNodeDead now) s"
  have n: "nodes ?s = (\<lambda>k. map_option (judged t now) (nodes s k))"
    by (rule dead_node_callback.nodes_check_keyed [OF assms(4) Cons.prems assms(3)])
  have "keyed nID (nodes ?s)" using Cons.prems(1) unfolding n by (auto simp: keyed_def judged_def)
  moreover have "dom (nodes ?s) = dom (nodes s)" unfolding n by auto
  ultimately show ?case using Cons.IH [of ?s] Cons.prems(2)
    by (simp add: Tolerance_Start_def n option.map_comp comp_def)
qed

lemma fold_judged_dead: "nStatus n = NodeDead \<Longrightarrow> nStatus (fold (judged t) ts n) = NodeDead"
  by (induction ts arbitrary: n) (simp_all add: next_status_def)

lemma fold_judged_LastHeartbeat [simp]: "nLastHeartbeat (fold (judged t) ts n) = nLastHeartbeat n"
  by (induction ts arbitrary: n) simp_all

text \<open>DEAD as soon as one tick is late enough, and not before.\<close>

lemma fold_judged_status:
  assumes "nStatus n \<in> {NodeAlive, NodeSuspect}" and "- (2 ^ 63) < deadAfter t" and "deadAfter t < 2 ^ 63"
  shows "nStatus (fold (judged t) ts n) = NodeDead \<longleftrightarrow> (\<exists>now\<in>set ts. deadAfter t \<le> now - nLastHeartbeat n)"
    and "nStatus (fold (judged t) ts n) \<in> {NodeAlive, NodeSuspect, NodeDead}"
proof -
  have "(nStatus (fold (judged t) ts n) = NodeDead \<longleftrightarrow> (\<exists>now\<in>set ts. deadAfter t \<le> now - nLastHeartbeat n)) \<and>
      nStatus (fold (judged t) ts n) \<in> {NodeAlive, NodeSuspect, NodeDead}"
    using assms(1)
  proof (induction ts arbitrary: n)
    case (Cons now ts)
    show ?case
    proof (cases "deadAfter t \<le> now - nLastHeartbeat n")
      case True
      then have "nStatus (judged t now n) = NodeDead"
        using Cons.prems time_Sub_ge [OF assms(2,3), of now] by (auto simp: next_status_def Let_def)
      then show ?thesis using True fold_judged_dead by simp
    next
      case False
      then have "nStatus (judged t now n) \<in> {NodeAlive, NodeSuspect}"
        using Cons.prems time_Sub_ge [OF assms(2,3), of now] by (auto simp: next_status_def Let_def)
      then show ?thesis using Cons.IH [of "judged t now n"] False by auto
    qed
  qed (auto simp: go_consts)
  then show "nStatus (fold (judged t) ts n) = NodeDead \<longleftrightarrow> (\<exists>now\<in>set ts. deadAfter t \<le> now - nLastHeartbeat n)"
    and "nStatus (fold (judged t) ts n) \<in> {NodeAlive, NodeSuspect, NodeDead}" by blast+
qed

text \<open>Ticks that are never further apart than an interval.\<close>

fun steady :: "duration \<Rightarrow> go_time list \<Rightarrow> bool" where
  "steady d (x # y # xs) = (x \<le> y \<and> y - x \<le> d \<and> steady d (y # xs))"
| "steady d xs = True"

lemma steady_split:
  assumes "steady d ts" and "ts \<noteq> []" and "hd ts < b" and "b \<le> last ts"
  shows "\<exists>pre now post. ts = pre @ now # post \<and> (\<forall>x\<in>set pre. x < b) \<and> b \<le> now \<and> now < b + d"
  using assms
proof (induction d ts rule: steady.induct)
  case (1 d x y xs)
  show ?case
  proof (cases "y < b")
    case True
    then obtain pre now post where "y # xs = pre @ now # post" "\<forall>x\<in>set pre. x < b" "b \<le> now" "now < b + d"
      using 1 by fastforce
    then show ?thesis using 1 by (intro exI [of _ "x # pre"] exI [of _ now] exI [of _ post]) auto
  next
    case False
    then show ?thesis using 1 by (intro exI [of _ "[x]"] exI [of _ y] exI [of _ xs]) auto
  qed
qed auto

section \<open>Properties\<close>

text \<open>
  C16: a silent worker is detected in time, and not earlier. While the failure detector ticks at least
  once per interval and nothing else touches the node, there is a first tick that is \<open>deadAfter\<close> or more
  after the last heartbeat; it comes less than one interval later; the node is not DEAD before it, it
  is DEAD after it, and stays so. With the master's settings that is between 30 and 35 seconds.
\<close>

theorem silence_detected_in_time:
  assumes "keyed nID (nodes s)" and "finite (dom (nodes s))" and "\<And>now. chooser (nord now)"
    and "\<And>now f i cs s. onNodeDead now = Some f \<Longrightarrow> nodes (f i cs s) = nodes s"
    and "nodes s k = Some n" and "nStatus n \<in> {NodeAlive, NodeSuspect}"
    and "0 < deadAfter t" and "deadAfter t < 2 ^ 63"
    and "steady (checkInterval t) ts" and "ts \<noteq> []"
    and "hd ts - nLastHeartbeat n < deadAfter t" and "deadAfter t \<le> last ts - nLastHeartbeat n"
  shows "\<exists>pre now post. ts = pre @ now # post \<and>
    deadAfter t \<le> now - nLastHeartbeat n \<and> now - nLastHeartbeat n < deadAfter t + checkInterval t \<and>
    (\<exists>m. nodes (snd (Tolerance_Start t nord ord onNodeDead (ticks pre) s)) k = Some m \<and>
       nStatus m \<in> {NodeAlive, NodeSuspect}) \<and>
    (\<forall>later. prefix later post \<longrightarrow>
       (\<exists>m. nodes (snd (Tolerance_Start t nord ord onNodeDead (ticks (pre @ now # later)) s)) k = Some m \<and>
          nStatus m = NodeDead))"
proof -
  have cb: "dead_node_callback (onNodeDead now)" for now by unfold_locales (rule assms(4))
  have run: "nodes (snd (Tolerance_Start t nord ord onNodeDead (ticks xs) s)) k = Some (fold (judged t) xs n)" for xs
    by (simp add: nodes_Tolerance_Start [OF assms(1,2,3) cb, THEN conjunct2] assms(5))
  let ?b = "nLastHeartbeat n + deadAfter t"
  have "hd ts < ?b" "?b \<le> last ts" using assms(11,12) by linarith+
  from steady_split [OF assms(9,10) this]
  obtain pre now post where split: "ts = pre @ now # post" "\<forall>x\<in>set pre. x < ?b" "?b \<le> now"
      "now < ?b + checkInterval t" by blast
  have small: "- (2 ^ 63) < deadAfter t" using assms(7) by simp
  note status = fold_judged_status [OF assms(6) small assms(8)]
  have "nStatus (fold (judged t) pre n) \<in> {NodeAlive, NodeSuspect}"
    using status(1) [of pre] status(2) [of pre] split(2) by fastforce
  moreover have "nStatus (fold (judged t) (pre @ now # later) n) = NodeDead" for later
    using status(1) [of "pre @ now # later"] split(3) by auto
  moreover have "deadAfter t \<le> now - nLastHeartbeat n" "now - nLastHeartbeat n < deadAfter t + checkInterval t"
    using split(3,4) by linarith+
  ultimately show ?thesis using split(1) run by metis
qed

theorem silence_detected_in_time_witness:
  "let n = zero_node\<lparr>nID := ''a'', nStatus := NodeAlive, nLastHeartbeat := 0\<rparr>
   in \<exists>pre now post. map (\<lambda>i. i * 5 * second + 1) [1, 2, 3, 4, 5, 6, 7] = pre @ now # post \<and>
     30 * second \<le> now \<and> now < 35 * second \<and>
     (\<exists>m. nodes (snd (Tolerance_Start master_tolerance (\<lambda>_ m. sorted_list_of_set (dom m)) (\<lambda>_ _ _. []) (\<lambda>_. None)
        (ticks (pre @ now # post)) (AddNode n NewState))) ''a'' = Some m \<and> nStatus m = NodeDead)"
proof -
  define n where "n = zero_node\<lparr>nID := ''a'', nStatus := NodeAlive, nLastHeartbeat := 0\<rparr>"
  let ?ts = "map (\<lambda>i. i * 5 * second + 1) [1, 2, 3, 4, 5, 6, 7]"
  have wf: "wf_state (AddNode n NewState)" by (rule wf_AddNode) simp
  have s: "keyed nID (nodes (AddNode n NewState))" "finite (dom (nodes (AddNode n NewState)))"
      "nodes (AddNode n NewState) ''a'' = Some n"
    using wf by (auto simp: wf_state_def node_table.lookup_add n_def)
  from silence_detected_in_time [OF s(1,2) chooser_sorted _ s(3), of "\<lambda>_. None" master_tolerance ?ts "\<lambda>_ _ _. []"]
  obtain pre now post where "?ts = pre @ now # post" "30 * second \<le> now" "now < 35 * second"
      "\<exists>m. nodes (snd (Tolerance_Start master_tolerance (\<lambda>_ m. sorted_list_of_set (dom m)) (\<lambda>_ _ _. []) (\<lambda>_. None)
        (ticks (pre @ now # post)) (AddNode n NewState))) ''a'' = Some m \<and> nStatus m = NodeDead"
    by (auto simp: n_def master_tolerance_def second_def)
  then show ?thesis unfolding Let_def n_def [symmetric] by blast
qed

end
