(* ===== verification/Datagrams.thy ===== *)
theory Datagrams
  imports Processes
begin

text \<open>
  Sender and receiver joined by what travels between them: the text of a heartbeat, of which only the
  length matters, and the receiver's buffer of 4096 bytes.
\<close>

section \<open>The length of a document\<close>

text \<open>
  The length of a string as \<open>encoding/json\<close> writes it, without the quotes: control characters, quotes and
  backslashes are escaped, and so are the characters that are special in HTML and the two line
  separators of Unicode.
\<close>

definition escaped_char :: "char \<Rightarrow> nat" where
  "escaped_char c =
     (let n = of_char c :: nat in
      if n \<in> {8, 9, 10, 12, 13, 34, 92} then 2
      else if n < 32 \<or> n \<in> {38, 60, 62} then 6
      else 1)"

fun escaped_size :: "go_string \<Rightarrow> nat" where
  "escaped_size [] = 0"
| "escaped_size (c # s) =
     (if take 3 (c # s) \<in> {[CHR 0xE2, CHR 0x80, CHR 0xA8], [CHR 0xE2, CHR 0x80, CHR 0xA9]}
      then 6 + escaped_size (drop 2 s)
      else escaped_char c + escaped_size s)"

text \<open>\<open>fr\<close> and \<open>ti\<close>: the lengths of fractions and times as the library writes them.\<close>

fun json_size :: "(rat \<Rightarrow> nat) \<Rightarrow> (go_time \<Rightarrow> nat) \<Rightarrow> json \<Rightarrow> nat"
  and elements_size :: "(rat \<Rightarrow> nat) \<Rightarrow> (go_time \<Rightarrow> nat) \<Rightarrow> json list \<Rightarrow> nat"
  and members_size :: "(rat \<Rightarrow> nat) \<Rightarrow> (go_time \<Rightarrow> nat) \<Rightarrow> (go_string \<times> json) list \<Rightarrow> nat" where
  "json_size fr ti JNull = 4"
| "json_size fr ti (JBool b) = (if b then 4 else 5)"
| "json_size fr ti (JInt n) = length (format_int n)"
| "json_size fr ti (JFrac r) = fr r"
| "json_size fr ti (JStr s) = 2 + escaped_size s"
| "json_size fr ti (JTime t) = ti t"
| "json_size fr ti (JArr js) = 2 + elements_size fr ti js"
| "json_size fr ti (JObj kvs) = 2 + members_size fr ti kvs"
| "elements_size fr ti [] = 0"
| "elements_size fr ti [j] = json_size fr ti j"
| "elements_size fr ti (j # i # js) = json_size fr ti j + 1 + elements_size fr ti (i # js)"
| "members_size fr ti [] = 0"
| "members_size fr ti [(k, j)] = 3 + escaped_size k + json_size fr ti j"
| "members_size fr ti ((k, j) # kv # kvs) =
     3 + escaped_size k + json_size fr ti j + 1 + members_size fr ti (kv # kvs)"

text \<open>What the sender writes of a heartbeat.\<close>

definition heartbeat_datagram :: "(rat \<Rightarrow> nat) \<Rightarrow> (go_time \<Rightarrow> nat) \<Rightarrow> heartbeat \<Rightarrow> go_time \<Rightarrow> datagram" where
  "heartbeat_datagram fr ti hb now =
     \<lparr>dgSize = (case enc_heartbeat hb of None \<Rightarrow> 0 | Some j \<Rightarrow> json_size fr ti j), dgDoc = enc_heartbeat hb,
      dgTime = now\<rparr>"

section \<open>Sizes\<close>

definition plain_chars :: "go_string \<Rightarrow> bool" where
  "plain_chars s \<longleftrightarrow> list_all (\<lambda>c. 32 \<le> (of_char c :: nat) \<and> (of_char c :: nat) < 128 \<and>
     (of_char c :: nat) \<notin> {34, 38, 60, 62, 92}) s"

lemma escaped_size_plain: "plain_chars s \<Longrightarrow> escaped_size s = length s"
proof (induction s)
  case (Cons c s)
  have "c \<noteq> CHR 0xE2" using Cons.prems by (auto simp: plain_chars_def)
  then show ?case using Cons by (auto simp: plain_chars_def escaped_char_def Let_def)
qed simp

definition container_id :: "go_string \<Rightarrow> bool" where
  "container_id i \<longleftrightarrow> length i = 64 \<and> set i \<subseteq> set ''0123456789abcdef''"

lemma plain_chars_utf8: "plain_chars s \<Longrightarrow> to_valid_utf8 s = s"
  by (intro to_valid_utf8_id valid_utf8_ascii) (auto simp: ascii_def plain_chars_def byte_in_def list_all_iff)

lemma container_id_simps:
  assumes "container_id i"
  shows "escaped_size i = 64" and "to_valid_utf8 i = i"
proof -
  have "plain_chars ''0123456789abcdef''" unfolding plain_chars_def by code_simp
  then have "plain_chars i" using assms unfolding container_id_def plain_chars_def list_all_iff by blast
  then show "escaped_size i = 64" and "to_valid_utf8 i = i"
    using assms by (simp_all add: escaped_size_plain plain_chars_utf8 container_id_def)
qed

lemma elements_size_Cons:
  "elements_size fr ti (j # js) = json_size fr ti j + (if js = [] then 0 else 1 + elements_size fr ti js)"
  by (cases js) simp_all

lemma enc_all_ids: "\<forall>i\<in>set ids. container_id i \<Longrightarrow> enc_all enc_string ids = Some (map JStr ids)"
  by (induction ids) (simp_all add: enc_string_def container_id_simps)

lemma elements_size_ids:
  "\<forall>i\<in>set ids. container_id i \<Longrightarrow> elements_size fr ti (map JStr ids) = 67 * length ids - 1"
proof (induction ids)
  case (Cons i ids)
  then show ?case by (cases ids) (simp_all add: elements_size_Cons container_id_simps)
qed simp

lemma length_digits: "n < 10 ^ k \<Longrightarrow> 0 < k \<Longrightarrow> length (digits n) \<le> k"
proof (induction k arbitrary: n)
  case (Suc k)
  show ?case
  proof (cases "n < 10")
    case True
    then show ?thesis by (subst digits.simps) simp
  next
    case False
    then have "0 < k" using Suc.prems by (cases k) simp_all
    moreover have "n div 10 < 10 ^ k" using Suc.prems(1) by (simp add: div_less_iff_less_mult mult.commute)
    ultimately show ?thesis using Suc.IH [of "n div 10"] False by (subst digits.simps) simp
  qed
qed simp

lemma length_format_int: "\<bar>n\<bar> < 10 ^ k \<Longrightarrow> 0 < k \<Longrightarrow> length (format_int n) \<le> Suc k"
proof -
  assume n: "\<bar>n\<bar> < 10 ^ k" "0 < k"
  have "nat \<bar>n\<bar> < 10 ^ k" using n(1) by (simp add: nat_less_iff)
  from length_digits [OF this n(2)] show ?thesis by (auto simp: format_int_def abs_if split: if_splits)
qed

lemma json_size_i64:
  "length (format_int (sint (w :: i64))) \<le> 20"
proof -
  have "- (2 ^ 63) \<le> sint w" "sint w < 2 ^ 63" using sint_ge [of w] sint_lt [of w] by simp_all
  then have "\<bar>sint w\<bar> < 10 ^ 19" by (simp add: abs_less_iff)
  from length_format_int [OF this] show ?thesis by simp
qed

lemma json_size_f64:
  assumes "enc_f64 x = Some j" and "\<forall>r. fr r \<le> 25"
  shows "json_size fr ti j \<le> 25"
proof -
  have "length (format_int n) \<le> 25" if "\<bar>rat_of_int n\<bar> < 10 ^ 21" for n
  proof -
    have "of_int \<bar>n\<bar> < (of_int (10 ^ 21) :: rat)" using that by simp
    then have "\<bar>n\<bar> < 10 ^ 21" by (simp only: of_int_less_iff)
    from length_format_int [OF this] show ?thesis by simp
  qed
  then show ?thesis using assms by (auto simp: enc_f64_def split: f64.splits if_splits)
qed

text \<open>The names and the punctuation of a heartbeat take 88 bytes.\<close>

lemma json_size_heartbeat:
  assumes "enc_heartbeat hb = Some j" and "\<forall>i\<in>set (hbContainers hb). container_id i"
  shows "\<exists>a b. enc_f64 (hbTotalCPU hb) = Some a \<and> enc_f64 (hbUsedCPU hb) = Some b \<and>
    json_size fr ti j = 87 + escaped_size (to_valid_utf8 (hbNodeID hb)) + escaped_size (to_valid_utf8 (hbAddress hb)) +
      json_size fr ti a + json_size fr ti b + length (format_int (sint (hbTotalRAM hb))) +
      length (format_int (sint (hbUsedRAM hb))) +
      (if hbContainers hb = [] then 3 else 67 * length (hbContainers hb))"
proof -
  have n: "hbContainers hb = [] \<or> 0 < length (hbContainers hb)" by simp
  obtain a b where "enc_f64 (hbTotalCPU hb) = Some a" "enc_f64 (hbUsedCPU hb) = Some b"
    using assms(1) by (auto simp: enc_heartbeat_def enc_struct_def split: option.splits)
  then show ?thesis using assms(1) n
    by (auto simp: enc_heartbeat_def enc_struct_def enc_slice_def enc_all_ids [OF assms(2)]
        elements_size_ids [OF assms(2)] enc_string_def enc_i64_def escaped_char_def Let_def)
qed

section \<open>Workers that are not heard\<close>

text \<open>What the receiver can read of a heartbeat: all of it, or nothing.\<close>

lemma read_heartbeat_datagram:
  "read_datagram (heartbeat_datagram fr ti hb now) =
     (if \<exists>j. enc_heartbeat hb = Some j \<and> json_size fr ti j \<le> 4096 then enc_heartbeat hb else None)"
  by (auto simp: read_datagram_def heartbeat_datagram_def split: option.split)

lemma crowded_unread:
  assumes "\<forall>i\<in>set (hbContainers hb). container_id i" and "60 \<le> length (hbContainers hb)"
  shows "read_datagram (heartbeat_datagram fr ti hb now) = None"
proof -
  have ne: "hbContainers hb \<noteq> []" using assms(2) by auto
  have "4096 < json_size fr ti j" if "enc_heartbeat hb = Some j" for j
    using json_size_heartbeat [OF that assms(1), of fr ti] ne assms(2) by auto
  then show ?thesis by (fastforce simp: read_heartbeat_datagram)
qed

context discovery_callback
begin

lemma heartbeat_elsewhere:
  assumes "keyed nID (nodes (cluster w))" and "finite (dom (nodes (cluster w)))" and "heartbeat_ok hb"
    and "hbNodeID hb = i \<longrightarrow> read_datagram (heartbeat_datagram fr ti hb now) = None"
    and w': "w' = handleHeartbeat now pord (Some (HandleLateHeartbeat l)) onNodeDiscovered
      (read_datagram (heartbeat_datagram fr ti hb now)) w"
  shows "keyed nID (nodes (cluster w')) \<and> finite (dom (nodes (cluster w'))) \<and>
    nodes (cluster w') i = nodes (cluster w) i"
proof (cases "read_datagram (heartbeat_datagram fr ti hb now)")
  case None
  then show ?thesis using assms(1,2) by (simp add: w' handleHeartbeat_def)
next
  case (Some j)
  then have "enc_heartbeat hb = Some j" by (simp add: read_heartbeat_datagram split: if_splits)
  from heartbeat_nodes [OF assms(1) this heartbeat_codec.enc_dec [OF assms(3) this]]
  show ?thesis using assms(1,2,4) Some by (auto simp: w' keyed_def heard_def)
qed

end

text \<open>
  The two loops of a master that work on the nodes, in the order in which their bodies get the state:
  a heartbeat has arrived, or the ticker has fired.
\<close>

datatype master_event = Arrived heartbeat go_time | Fired go_time

fun master_step ::
  "(rat \<Rightarrow> nat) \<Rightarrow> (go_time \<Rightarrow> nat) \<Rightarrow> tolerance \<Rightarrow> bool option \<Rightarrow> pool_order \<Rightarrow>
   (go_time \<Rightarrow> (go_string \<rightharpoonup> node) \<Rightarrow> go_string list) \<Rightarrow> (go_time \<Rightarrow> go_string \<Rightarrow> container_order) \<Rightarrow>
   dead_callback option \<Rightarrow> (go_string \<Rightarrow> state \<Rightarrow> state) option \<Rightarrow> master_event \<Rightarrow> world \<Rightarrow> world" where
  "master_step fr ti t isLeader pord nord ord onNodeDead onNodeDiscovered (Arrived hb now) w =
     handleHeartbeat now pord (Some (HandleLateHeartbeat isLeader)) onNodeDiscovered
       (read_datagram (heartbeat_datagram fr ti hb now)) w"
| "master_step fr ti t isLeader pord nord ord onNodeDead onNodeDiscovered (Fired now) w =
     w\<lparr>cluster := check t now (nord now) (ord now) onNodeDead (cluster w)\<rparr>"

definition fired :: "master_event list \<Rightarrow> go_time list" where
  "fired es = concat (map (\<lambda>e. case e of Arrived _ _ \<Rightarrow> [] | Fired now \<Rightarrow> [now]) es)"

lemma set_fired: "now \<in> set (fired es) \<longleftrightarrow> Fired now \<in> set es"
  by (auto simp: fired_def split: master_event.splits)

text \<open>Of a node that is not heard there remains what the ticks make of it.\<close>

lemma unheard_run:
  assumes "discovery_callback onNodeDiscovered" and "dead_node_callback onNodeDead" and "\<And>now. chooser (nord now)"
    and "\<forall>hb now. Arrived hb now \<in> set es \<longrightarrow> heartbeat_ok hb \<and>
      (hbNodeID hb = i \<longrightarrow> read_datagram (heartbeat_datagram fr ti hb now) = None)"
    and "keyed nID (nodes (cluster w))" and "finite (dom (nodes (cluster w)))"
  shows "nodes (cluster (fold (master_step fr ti t isLeader pord nord ord onNodeDead onNodeDiscovered) es w)) i =
    map_option (fold (judged t) (fired es)) (nodes (cluster w) i)"
  using assms(4-6)
proof (induction es arbitrary: w)
  case Nil
  then show ?case by (simp add: fired_def option.map_ident)
next
  case (Cons e es)
  let ?w = "master_step fr ti t isLeader pord nord ord onNodeDead onNodeDiscovered e w"
  have es: "\<forall>hb now. Arrived hb now \<in> set es \<longrightarrow> heartbeat_ok hb \<and>
      (hbNodeID hb = i \<longrightarrow> read_datagram (heartbeat_datagram fr ti hb now) = None)"
    using Cons.prems(1) by simp
  show ?case
  proof (cases e)
    case (Arrived hb now)
    then have "heartbeat_ok hb" "hbNodeID hb = i \<longrightarrow> read_datagram (heartbeat_datagram fr ti hb now) = None"
      using Cons.prems(1) by simp_all
    from discovery_callback.heartbeat_elsewhere [OF assms(1) Cons.prems(2,3) this refl, of pord isLeader]
    show ?thesis using Cons.IH [OF es, of ?w] by (simp add: Arrived fired_def)
  next
    case (Fired now)
    have n: "nodes (cluster ?w) = (\<lambda>k. map_option (judged t now) (nodes (cluster w) k))"
      using dead_node_callback.nodes_check_keyed [OF assms(2) Cons.prems(2,3) assms(3)] by (simp add: Fired)
    have "keyed nID (nodes (cluster ?w))" using Cons.prems(2) unfolding n by (auto simp: keyed_def judged_def)
    moreover have "dom (nodes (cluster ?w)) = dom (nodes (cluster w))" unfolding n by auto
    ultimately show ?thesis using Cons.IH [OF es, of ?w] Cons.prems(3)
      by (simp add: n option.map_comp comp_def) (simp add: Fired fired_def comp_def)
  qed
qed

section \<open>Properties\<close>

text \<open>
  How many replicas a worker may run before its heartbeats do not fit the receiver's buffer. With 60
  or more, whatever the rest of the heartbeat holds, the datagram is longer than 4096 bytes and the
  receiver reads no document; with 57 or fewer it reads the heartbeat, if node ID and address together
  have at most 100 plain characters and no fraction takes more than 25.
\<close>

theorem heartbeat_datagram_limit:
  assumes "enc_heartbeat hb = Some j" and "\<forall>i\<in>set (hbContainers hb). container_id i"
  shows "(60 \<le> length (hbContainers hb) \<longrightarrow> read_datagram (heartbeat_datagram fr ti hb now) = None) \<and>
    (length (hbContainers hb) \<le> 57 \<and> plain_chars (hbNodeID hb) \<and> plain_chars (hbAddress hb) \<and>
       length (hbNodeID hb) + length (hbAddress hb) \<le> 100 \<and> (\<forall>r. fr r \<le> 25) \<longrightarrow>
     read_datagram (heartbeat_datagram fr ti hb now) = Some j)"
proof (intro conjI impI)
  assume "60 \<le> length (hbContainers hb)"
  then show "read_datagram (heartbeat_datagram fr ti hb now) = None" by (rule crowded_unread [OF assms(2)])
next
  assume small: "length (hbContainers hb) \<le> 57 \<and> plain_chars (hbNodeID hb) \<and> plain_chars (hbAddress hb) \<and>
    length (hbNodeID hb) + length (hbAddress hb) \<le> 100 \<and> (\<forall>r. fr r \<le> 25)"
  then have plain: "escaped_size (to_valid_utf8 (hbNodeID hb)) = length (hbNodeID hb)"
      "escaped_size (to_valid_utf8 (hbAddress hb)) = length (hbAddress hb)"
    by (simp_all add: escaped_size_plain plain_chars_utf8)
  from json_size_heartbeat [OF assms, of fr ti] obtain a b
    where ab: "enc_f64 (hbTotalCPU hb) = Some a" "enc_f64 (hbUsedCPU hb) = Some b"
      and size: "json_size fr ti j \<le> 90 + length (hbNodeID hb) + length (hbAddress hb) +
        json_size fr ti a + json_size fr ti b + length (format_int (sint (hbTotalRAM hb))) +
        length (format_int (sint (hbUsedRAM hb))) + (67 * length (hbContainers hb) - 3)"
    unfolding plain by (cases "hbContainers hb") auto
  have "json_size fr ti a \<le> 25" "json_size fr ti b \<le> 25"
    using ab small by (blast intro: json_size_f64)+
  then have "json_size fr ti j \<le> 4096"
    using size small json_size_i64 [of "hbTotalRAM hb"] json_size_i64 [of "hbUsedRAM hb"] by linarith
  then show "read_datagram (heartbeat_datagram fr ti hb now) = Some j"
    using assms(1) by (simp add: read_heartbeat_datagram)
qed

text \<open>A heartbeat of \<open>n\<close> containers.\<close>

definition busy_heartbeat :: "nat \<Rightarrow> heartbeat" where
  "busy_heartbeat n = zero_heartbeat\<lparr>hbNodeID := ''a'', hbContainers := replicate n (replicate 64 CHR ''f'')\<rparr>"

lemma busy_heartbeat_ok:
  "heartbeat_ok (busy_heartbeat n)" "\<forall>c\<in>set (hbContainers (busy_heartbeat n)). container_id c"
  "length (hbContainers (busy_heartbeat n)) = n" "hbNodeID (busy_heartbeat n) = ''a''"
  "hbAddress (busy_heartbeat n) = ''''"
proof -
  have id: "container_id (replicate 64 CHR ''f'')" by (simp add: container_id_def)
  then show "\<forall>c\<in>set (hbContainers (busy_heartbeat n)). container_id c"
    by (simp add: busy_heartbeat_def)
  have "ascii (replicate 64 CHR ''f'')" by (simp add: ascii_def byte_in_def list_all_iff del: replicate.simps)
  then have "valid_utf8 (replicate 64 CHR ''f'')" by (rule valid_utf8_ascii)
  then show "heartbeat_ok (busy_heartbeat n)"
    by (simp add: busy_heartbeat_def heartbeat_ok_def zero_heartbeat_def finite_f64_def zero_f64_def byte_in_def
        list_all_iff del: replicate.simps)
qed (simp_all add: busy_heartbeat_def zero_heartbeat_def)

theorem heartbeat_datagram_limit_witness:
  "read_datagram (heartbeat_datagram (\<lambda>_. 25) (\<lambda>_. 0) (busy_heartbeat 60) 0) = None \<and>
   read_datagram (heartbeat_datagram (\<lambda>_. 25) (\<lambda>_. 0) (busy_heartbeat 57) 0) \<noteq> None"
proof -
  obtain i j where enc: "enc_heartbeat (busy_heartbeat 60) = Some i" "enc_heartbeat (busy_heartbeat 57) = Some j"
    using handleHeartbeat_decoded busy_heartbeat_ok(1) by meson
  show ?thesis
    using heartbeat_datagram_limit [OF enc(1) busy_heartbeat_ok(2), of "\<lambda>_. 25" "\<lambda>_. 0" 0]
      heartbeat_datagram_limit [OF enc(2) busy_heartbeat_ok(2), of "\<lambda>_. 25" "\<lambda>_. 0" 0]
    by (simp add: busy_heartbeat_ok plain_chars_def)
qed

text \<open>
  C25: a worker with 60 or more replicas is not heard. Whatever arrives at a master and whenever its
  failure detector runs: if the heartbeats of a node all name 60 containers or more, the time of its
  last heartbeat stays what it is, and the node is DEAD as soon as a check is late enough, although it
  sends on time.
\<close>

theorem crowded_worker_unheard:
  assumes "keyed nID (nodes (cluster w))" and "finite (dom (nodes (cluster w)))" and "\<And>now. chooser (nord now)"
    and "callbacks_ok onNodeDead onNodeDiscovered apply_status"
    and "nodes (cluster w) i = Some n" and "nStatus n \<in> {NodeAlive, NodeSuspect}"
    and "0 < deadAfter t" and "deadAfter t < 2 ^ 63"
    and "\<forall>hb now. Arrived hb now \<in> set es \<longrightarrow> heartbeat_ok hb \<and>
      (hbNodeID hb = i \<longrightarrow> 60 \<le> length (hbContainers hb) \<and> (\<forall>c\<in>set (hbContainers hb). container_id c))"
  shows "\<exists>m. nodes (cluster (fold (master_step fr ti t isLeader pord nord ord onNodeDead onNodeDiscovered) es w)) i =
      Some m \<and> nLastHeartbeat m = nLastHeartbeat n \<and>
    (nStatus m = NodeDead \<longleftrightarrow> (\<exists>now. Fired now \<in> set es \<and> deadAfter t \<le> now - nLastHeartbeat n))"
proof -
  have callbacks: "dead_node_callback onNodeDead" "discovery_callback onNodeDiscovered"
    using assms(4) by (unfold_locales; auto simp: callbacks_ok_def)+
  have "read_datagram (heartbeat_datagram fr ti hb now) = None"
    if "Arrived hb now \<in> set es" "hbNodeID hb = i" for hb now
    using assms(9) that by (intro crowded_unread) blast+
  then have "\<forall>hb now. Arrived hb now \<in> set es \<longrightarrow> heartbeat_ok hb \<and>
      (hbNodeID hb = i \<longrightarrow> read_datagram (heartbeat_datagram fr ti hb now) = None)"
    using assms(9) by blast
  note run = unheard_run [OF callbacks(2,1) assms(3) this assms(1,2)]
  have small: "- (2 ^ 63) < deadAfter t" using assms(7) by simp
  show ?thesis
    unfolding run assms(5) using fold_judged_status(1) [OF assms(6) small assms(8), of "fired es"]
    by (auto simp: set_fired)
qed

theorem crowded_worker_unheard_witness:
  "let n = zero_node\<lparr>nID := ''a'', nStatus := NodeAlive, nLastHeartbeat := 0\<rparr>;
       w = NewTolerance (AddNode n NewState);
       run = (\<lambda>es. cluster (fold (master_step (\<lambda>_. 25) (\<lambda>_. 0) master_tolerance None
         (\<lambda>m. sorted_list_of_set (dom m)) (\<lambda>_ m. sorted_list_of_set (dom m)) (\<lambda>_ _ _. []) None None) es w))
   in \<exists>m. nodes (run [Arrived (busy_heartbeat 60) (29 * second), Fired (30 * second)]) ''a'' = Some m \<and>
        nStatus m = NodeDead"
proof -
  define n where "n = zero_node\<lparr>nID := ''a'', nStatus := NodeAlive, nLastHeartbeat := 0\<rparr>"
  define w where "w = NewTolerance (AddNode n NewState)"
  have "wf_state (AddNode n NewState)" by (rule wf_AddNode) simp
  then have w: "keyed nID (nodes (cluster w))" "finite (dom (nodes (cluster w)))" "nodes (cluster w) ''a'' = Some n"
    by (auto simp: wf_state_def node_table.lookup_add n_def w_def NewTolerance_def)
  note unheard = crowded_worker_unheard [OF w(1,2) chooser_sorted callbacks_ok_None w(3),
      of master_tolerance "[Arrived (busy_heartbeat 60) (29 * second), Fired (30 * second)]"
        "\<lambda>_. 25" "\<lambda>_. 0" None "\<lambda>m. sorted_list_of_set (dom m)" "\<lambda>_ _ _. []"]
  have "30 * second \<le> 30 * second - nLastHeartbeat n" by (simp add: n_def)
  then show ?thesis
    unfolding Let_def n_def [symmetric] w_def [symmetric]
    using unheard by (simp add: n_def master_tolerance_def second_def busy_heartbeat_ok) blast
qed

end
