(* ===== verification/ApiTypes.thy ===== *)
theory ApiTypes
  imports ApiProofs
begin

text \<open>
  The type of the REST API: which routes give which status codes, and what the bodies look like.
\<close>

section \<open>Responses\<close>

text \<open>
  A good answer is an array, an object without the key \<open>error\<close>, null (a slice that is nil), or has no
  body because the value cannot be encoded; an error of a handler is an object of strings with the key
  \<open>error\<close>; the multiplexer answers without a document.
\<close>

fun good_body :: "json option \<Rightarrow> bool" where
  "good_body None = True"
| "good_body (Some JNull) = True"
| "good_body (Some (JArr _)) = True"
| "good_body (Some (JObj kvs)) = (''error'' \<notin> fst ` set kvs)"
| "good_body (Some _) = False"

fun error_doc :: "json option \<Rightarrow> bool" where
  "error_doc (Some (JObj kvs)) = (''error'' \<in> fst ` set kvs \<and> list_all (\<lambda>(k, v). \<exists>x. v = JStr x) kvs)"
| "error_doc _ = False"

definition response_ok :: "http_response \<Rightarrow> bool" where
  "response_ok resp \<longleftrightarrow>
     (if hrStatus resp \<in> {200, 201} then good_body (hrBody resp)
      else error_doc (hrBody resp) \<or> hrStatus resp \<in> {404, 405} \<and> hrBody resp = None)"

definition write_request :: "http_request \<Rightarrow> bool" where
  "write_request r \<longleftrightarrow> rqMethod r = ''POST'' \<and> rqPath r = ''/services'' \<or>
     rqMethod r = ''DELETE'' \<and> service_path (rqPath r) \<noteq> None"

definition route_statuses :: "http_request \<Rightarrow> int set" where
  "route_statuses r =
     (if rqPath r \<in> {''/login'', ''/refresh''} then (if rqMethod r = ''POST'' then {200, 400, 401, 500} else {405})
      else if rqPath r \<in> {''/nodes'', ''/pools'', ''/services'', ''/audit''} then
        (if rqMethod r \<in> {''GET'', ''HEAD''} then {200, 401, 403}
         else if rqPath r = ''/services'' \<and> rqMethod r = ''POST'' then {201, 400, 401, 403, 503}
         else {405})
      else if service_path (rqPath r) \<noteq> None then
        (if rqMethod r = ''DELETE'' then {200, 401, 403, 404, 503} else {405})
      else {404})"

text \<open>The statuses an outcome may have, and whether it may be a forwarded request or a panic.\<close>

definition answers :: "int set \<Rightarrow> (http_request \<Rightarrow> bool) \<Rightarrow> bool \<Rightarrow> outcome \<Rightarrow> bool" where
  "answers S fwd abort out \<longleftrightarrow>
     (case out of
        Respond resp \<Rightarrow> hrStatus resp \<in> S \<and> response_ok resp
      | Proxied a r \<Rightarrow> fwd r
      | Aborted \<Rightarrow> abort)"

section \<open>Encoded bodies\<close>

lemma to_valid_utf8_error [simp]: "to_valid_utf8 ''error'' = ''error''"
  by (intro to_valid_utf8_id valid_utf8_ascii) (simp add: ascii_def byte_in_def)

lemma error_doc_strmap:
  assumes "''error'' \<in> fst ` set m"
  shows "error_doc (enc_strmap m)"
proof -
  define kvs where "kvs = map (\<lambda>(k, v). (to_valid_utf8 k, JStr (to_valid_utf8 v))) (sort_key fst m)"
  have "\<exists>kv\<in>set (sort_key fst m). fst kv = k" if "k \<in> fst ` set m" for k using that by auto
  from this [OF assms] obtain kv where kv: "kv \<in> set (sort_key fst m)" "fst kv = ''error''" by blast
  then have "(case kv of (k, v) \<Rightarrow> (to_valid_utf8 k, JStr (to_valid_utf8 v))) \<in> set kvs"
    unfolding kvs_def set_map by (intro imageI)
  moreover have "fst (case kv of (k, v) \<Rightarrow> (to_valid_utf8 k, JStr (to_valid_utf8 v))) = ''error''"
    by (simp add: case_prod_beta kv(2))
  ultimately have "''error'' \<in> fst ` set kvs" by (metis imageI)
  moreover have "list_all (\<lambda>(k, v). \<exists>x. v = JStr x) kvs"
    by (auto simp: kvs_def list_all_iff)
  moreover have "enc_strmap m = Some (JObj kvs)"
    using kv(1) by (cases m) (simp_all add: enc_strmap_def kvs_def)
  ultimately show ?thesis by (simp only: error_doc.simps)
qed

lemma error_doc_body [simp]: "error_doc (error_body msg)"
  by (simp add: error_body_def error_doc_strmap)

lemma enc_fields_keys: "enc_fields fs = Some kvs \<Longrightarrow> map fst kvs = map fst fs"
proof (induction fs arbitrary: kvs)
  case (Cons f fs)
  then show ?case by (cases f) (auto split: option.splits)
qed simp

lemma good_body_struct: "''error'' \<notin> set (map fst fs) \<Longrightarrow> good_body (enc_struct fs)"
  using enc_fields_keys [of fs] by (cases "enc_fields fs") (simp_all add: enc_struct_def del: set_map add: set_map [symmetric])

lemma good_body_slices [simp]: "good_body (enc_made_slice enc xs)" "good_body (enc_slice enc xs)"
  by (simp_all add: enc_made_slice_def enc_slice_def split: option.split, (cases "enc_all enc xs"; simp)+)

lemma answers_writeJSON:
  "answers S fwd abort (writeJSON st j) \<longleftrightarrow> st \<in> S \<and> response_ok \<lparr>hrStatus = st, hrBody = j\<rparr>"
  by (simp add: answers_def writeJSON_def)

lemma answers_mono: "answers S fwd abort out \<Longrightarrow> S \<subseteq> T \<Longrightarrow> answers T fwd abort out"
  by (auto simp: answers_def split: outcome.splits)

lemma response_ok_error: "st \<notin> {200, 201} \<Longrightarrow> error_doc j \<Longrightarrow> response_ok \<lparr>hrStatus = st, hrBody = j\<rparr>"
  by (simp add: response_ok_def)

lemma response_ok_good: "st \<in> {200, 201} \<Longrightarrow> good_body j \<Longrightarrow> response_ok \<lparr>hrStatus = st, hrBody = j\<rparr>"
  by (simp add: response_ok_def)

lemmas answer_simps = answers_writeJSON response_ok_error response_ok_good good_body_struct error_doc_strmap

section \<open>The handlers\<close>

lemma answers_login: "answers {200, 400, 401, 500} fwd abort (fst (login sv env r s))"
  by (simp add: login_def answer_simps enc_token_pair_def split: option.split sum.split)

lemma answers_refresh: "answers {200, 400, 401, 500} fwd abort (fst (refresh sv env r s))"
  by (simp add: refresh_def answer_simps enc_token_pair_def split: option.split sum.split)

lemma answers_getters:
  "answers {200} fwd abort (fst (getNodes env r s))" "answers {200} fwd abort (fst (getPools env r s))"
  "answers {200} fwd abort (fst (getServices env r s))" "answers {200} fwd abort (fst (getAudit r s))"
  by (simp_all add: getNodes_def getPools_def getServices_def getAudit_def Let_def answer_simps)

lemma answers_create_containers: "answers {201} fwd True (fst (create_containers sv env r svc n s))"
  by (auto simp: create_containers_def answer_simps case_prod_beta Let_def answers_def [of _ _ _ Aborted]
      split: sum.split option.split)

lemma answers_createService: "answers {201, 400, 503} fwd True (fst (createService sv env r s))"
proof -
  have "answers {201, 400, 503} fwd True (fst (create_containers sv env r svc n t))" for svc n t
    by (rule answers_mono [OF answers_create_containers]) simp
  then show ?thesis by (simp add: createService_def answer_simps case_prod_beta Let_def split: option.split)
qed

lemma answers_deleteService: "answers {200, 404} fwd abort (fst (deleteService sv env i r s))"
  by (auto simp: deleteService_def answer_simps case_prod_beta Let_def enc_strmap_def to_valid_utf8_id
      valid_utf8_ascii ascii_def byte_in_def split: option.split)

lemma answers_auth:
  assumes "\<And>i. answers S fwd abort (fst (h (r\<lparr>rqUserID := Some i\<rparr>) s))"
  shows "answers ({401, 403} \<union> S) fwd abort (fst (auth sv env res act h r s))"
proof -
  have "answers ({401, 403} \<union> S) fwd abort (fst (h (r\<lparr>rqUserID := Some i\<rparr>) s))" for i
    by (rule answers_mono [OF assms]) auto
  then show ?thesis by (simp add: auth_def answer_simps Let_def split: sum.split)
qed

text \<open>What is forwarded is the request, marked as forwarded.\<close>

definition forwarded_from :: "server \<Rightarrow> api_env \<Rightarrow> http_request \<Rightarrow> http_request \<Rightarrow> bool" where
  "forwarded_from sv env r r' \<longleftrightarrow> svRaft sv \<and> \<not> aeIsLeader env \<and> rqForwarded r = '''' \<and>
     (\<exists>i. r' = r\<lparr>rqUserID := Some i, rqForwarded := ''1''\<rparr>)"

lemma answers_write:
  assumes "\<And>r fwd. answers S fwd abort (fst (h r s))"
  shows "answers ({401, 403} \<union> ({503} \<union> S)) (forwarded_from sv env r) abort
    (fst (auth sv env res act (leaderForward sv env h) r s))"
proof (rule answers_auth)
  fix i
  let ?r = "r\<lparr>rqUserID := Some i\<rparr>"
  have here: "answers ({503} \<union> S) (forwarded_from sv env r) abort (fst (h ?r s))"
    by (rule answers_mono [OF assms]) auto
  have "forwarded_from sv env r (?r\<lparr>rqForwarded := ''1''\<rparr>)"
    if "svRaft sv" "\<not> aeIsLeader env" "rqForwarded r = ''''"
    using that by (auto simp: forwarded_from_def)
  then show "answers ({503} \<union> S) (forwarded_from sv env r) abort (fst (leaderForward sv env h ?r s))"
    using here
    by (simp add: leaderForward_def answer_simps case_prod_beta Let_def answers_def [of _ _ _ "Proxied _ _"]
        split: option.split)
qed

lemma answers_plain: "st \<in> {404, 405} \<Longrightarrow> answers {st} fwd abort (fst (plain st s))"
  by (auto simp: answers_def plain_def response_ok_def)

lemma answers_read:
  assumes "\<And>r. answers {200} fwd abort (fst (h r s))"
  shows "rqMethod r \<in> {''GET'', ''HEAD''} \<Longrightarrow>
      answers {200, 401, 403} fwd abort (fst (get_route (auth sv env res act h) r s))"
    and "rqMethod r \<notin> {''GET'', ''HEAD''} \<Longrightarrow>
      answers {405} fwd abort (fst (get_route (auth sv env res act h) r s))"
proof -
  have "answers {200, 401, 403} fwd abort (fst (auth sv env res act h r s))"
    by (rule answers_mono [OF answers_auth [of "{200}"]]) (auto simp: assms)
  then show "rqMethod r \<in> {''GET'', ''HEAD''} \<Longrightarrow>
      answers {200, 401, 403} fwd abort (fst (get_route (auth sv env res act h) r s))"
    and "rqMethod r \<notin> {''GET'', ''HEAD''} \<Longrightarrow>
      answers {405} fwd abort (fst (get_route (auth sv env res act h) r s))"
    by (simp_all add: get_route_def answers_plain)
qed

text \<open>A route answers as its table says; it forwards and panics as the flags say.\<close>

lemma answers_serve:
  "answers (route_statuses r) (\<lambda>r'. write_request r \<and> forwarded_from sv env r r')
     (rqMethod r = ''POST'' \<and> rqPath r = ''/services'') (fst (serve sv env r s))"
proof -
  have create: "answers {201, 400, 401, 403, 503} (forwarded_from sv env r) True
      (fst (auth sv env ''services'' ''create'' (leaderForward sv env (createService sv env)) r s))"
    by (rule answers_mono [OF answers_write [of "{201, 400, 503}"]]) (auto simp: answers_createService)
  have delete: "answers {200, 401, 403, 404, 503} (forwarded_from sv env r) False
      (fst (auth sv env ''services'' ''delete'' (leaderForward sv env (deleteService sv env i)) r s))" for i
    by (rule answers_mono [OF answers_write [of "{200, 404}"]]) (auto simp: answers_deleteService)
  have path: "service_path p = None" if "p \<in> {''/login'', ''/refresh'', ''/nodes'', ''/pools'', ''/services'', ''/audit''}" for p
    using that by (auto simp: service_path_def HasPrefix_def)
  consider (post) "rqPath r \<in> {''/login'', ''/refresh''}"
    | (get) "rqPath r \<in> {''/nodes'', ''/pools'', ''/services'', ''/audit''}"
    | (other) "rqPath r \<notin> {''/login'', ''/refresh'', ''/nodes'', ''/pools'', ''/services'', ''/audit''}"
    by blast
  then show ?thesis
  proof cases
    case post
    then show ?thesis
      by (auto simp: serve_def route_statuses_def post_route_def answers_plain answers_login answers_refresh)
  next
    case get
    show ?thesis
    proof (cases "rqPath r = ''/services'' \<and> rqMethod r = ''POST''")
      case True
      then show ?thesis using create by (simp add: serve_def route_statuses_def write_request_def insert_commute)
    next
      case False
      from get consider "rqPath r = ''/nodes''" | "rqPath r = ''/pools''" | "rqPath r = ''/services''" | "rqPath r = ''/audit''"
        by blast
      then show ?thesis
      proof cases
        case 1
        then show ?thesis using path by (simp add: serve_def route_statuses_def answers_read answers_getters)
      next
        case 2
        then show ?thesis using path by (simp add: serve_def route_statuses_def answers_read answers_getters)
      next
        case 3
        then show ?thesis using path False by (simp add: serve_def route_statuses_def answers_read answers_getters)
      next
        case 4
        then show ?thesis using path by (simp add: serve_def route_statuses_def answers_read answers_getters)
      qed
    qed
  next
    case other
    then show ?thesis using delete
      by (auto simp: serve_def route_statuses_def answers_plain write_request_def split: option.split)
  qed
qed

section \<open>Properties\<close>


end
