(* ===== verification/Capacity.thy ===== *)
theory Capacity
  imports ApiProofs
begin

text \<open>
  Requests and capacity: what a sequence of requests to the API leaves of the cluster's room for
  further replicas.
\<close>

section \<open>Requests keep the tables well-formed\<close>

lemma wf_apply:
  "wf_state s \<Longrightarrow> wf_state (applyAddContainer sv rf c s)"
  "wf_state s \<Longrightarrow> wf_state (applySetContainerStatus sv rf i st s)"
  "wf_state s \<Longrightarrow> wf_state (applyRemoveService sv rf i s)"
  by (simp_all add: applyAddContainer_def applySetContainerStatus_def applyRemoveService_def
      wf_RaftNode_Apply wf_AddContainer wf_SetContainerStatus wf_removes)

lemma wf_create_pending: "wf_state s \<Longrightarrow> wf_state (snd (create_pending sv env svc i m infos s))"
  by (induction m arbitrary: i infos s) (simp_all add: Let_def wf_apply)

lemma wf_create_replica: "wf_state s \<Longrightarrow> wf_state (snd (snd (create_replica sv env svc i nd s)))"
  by (simp add: create_replica_def Let_def wf_apply split: sum.split)

lemma wf_create_replicas: "wf_state s \<Longrightarrow> wf_state (snd (create_replicas sv env svc i plan acc s))"
  by (induction plan arbitrary: i acc s) (auto simp: case_prod_beta Let_def wf_create_replica)

lemma wf_delete_containers: "wf_state s \<Longrightarrow> wf_state (snd (delete_containers sv env v i cs msgs s))"
  by (induction cs arbitrary: i msgs s) (simp_all add: Let_def wf_apply)

lemma wf_create_containers: "wf_state s \<Longrightarrow> wf_state (snd (snd (create_containers sv env r svc n s)))"
  by (simp add: create_containers_def create_audit_def case_prod_beta Let_def wf_Log wf_create_pending
      wf_create_replicas split: sum.split option.split)

lemma wf_createService: "wf_state s \<Longrightarrow> wf_state (snd (snd (createService sv env r s)))"
  by (simp add: createService_def case_prod_beta Let_def wf_RaftNode_Apply wf_AddService wf_create_containers
      split: option.split)

lemma wf_deleteService: "wf_state s \<Longrightarrow> wf_state (snd (snd (deleteService sv env i r s)))"
  by (simp add: deleteService_def case_prod_beta Let_def wf_Log wf_apply wf_delete_containers split: option.split)

lemma wf_auth: "(\<And>r. wf_state (snd (snd (h r s)))) \<Longrightarrow> wf_state s \<Longrightarrow> wf_state (snd (snd (auth sv env res act h r s)))"
  by (simp add: auth_def Let_def wf_Log split: sum.split)

lemma wf_leaderForward:
  "wf_state (snd (snd (h r s))) \<Longrightarrow> wf_state s \<Longrightarrow> wf_state (snd (snd (leaderForward sv env h r s)))"
  by (simp add: leaderForward_def case_prod_beta Let_def split: option.split)

lemma wf_readers:
  "wf_state s \<Longrightarrow> wf_state (snd (snd (login sv env r s)))"
  "wf_state s \<Longrightarrow> wf_state (snd (snd (refresh sv env r s)))"
  "wf_state s \<Longrightarrow> wf_state (snd (snd (getNodes env r s)))"
  "wf_state s \<Longrightarrow> wf_state (snd (snd (getPools env r s)))"
  "wf_state s \<Longrightarrow> wf_state (snd (snd (getServices env r s)))"
  "wf_state s \<Longrightarrow> wf_state (snd (snd (getAudit r s)))"
  by (simp_all add: login_def refresh_def getNodes_def getPools_def getServices_def getAudit_def Let_def wf_Log
      split: option.split sum.split)

lemma wf_serve: "wf_state s \<Longrightarrow> wf_state (snd (snd (serve sv env r s)))"
  by (simp add: serve_def post_route_def get_route_def plain_def wf_auth wf_leaderForward wf_readers
      wf_createService wf_deleteService split: option.split)

section \<open>Sequences of requests\<close>

text \<open>Each request meets a server and surroundings of its own.\<close>

definition requested :: "(server \<times> api_env \<times> http_request) list \<Rightarrow> state \<Rightarrow> state" where
  "requested reqs s = foldl (\<lambda>t (sv, env, r). snd (snd (serve sv env r t))) s reqs"

lemma requested_simps [simp]:
  "requested [] s = s" "requested ((sv, env, r) # reqs) s = requested reqs (snd (snd (serve sv env r s)))"
  by (simp_all add: requested_def)

lemma wf_requested: "wf_state s \<Longrightarrow> wf_state (requested reqs s)"
  by (induction reqs arbitrary: s) (auto simp: wf_serve)

lemma same_base_requested: "same_base s (requested reqs s)"
proof (induction reqs arbitrary: s)
  case (Cons q reqs)
  obtain sv env r where q: "q = (sv, env, r)" by (cases q)
  show ?case
    using same_base_trans [OF serve_effect [THEN conjunct1] Cons.IH] by (simp add: q)
qed simp

lemma same_base_pool_nodes: "same_base s t \<Longrightarrow> GetPoolNodes p t = GetPoolNodes p s"
  by (simp add: same_base_def GetPoolNodes_def cong: option.case_cong)

text \<open>Without ports, the room of a node does not depend on what runs on it.\<close>

lemma room_no_ports:
  assumes "sPorts svc = []"
  shows "room svc b n P = room svc b n Q"
proof (induction b arbitrary: n P Q)
  case (Suc b)
  have "fits svc P n = fits svc Q n" by (simp add: fits_def assms)
  moreover have "room svc b (place_on svc n) (P \<union> set (sPorts svc)) = room svc b (place_on svc n) (Q \<union> set (sPorts svc))"
    by (rule Suc.IH)
  ultimately show ?case by simp
qed simp

section \<open>Properties\<close>

text \<open>
  C33: accepted requests reserve nothing. Whatever requests the API has handled, a group of replicas
  of a service without ports can be planned after them if and only if it could be planned before: only
  heartbeats change what the scheduler counts as free.
\<close>

theorem requests_reserve_nothing:
  assumes "wf_state s" and "orders ord (containers s)" and "orders ord' (containers (requested reqs s))"
    and "sPorts svc = []"
  shows "(\<exists>plan. Plan (lb_of_flag f) ord s svc n = Inr plan) \<longleftrightarrow>
    (\<exists>plan. Plan (lb_of_flag f') ord' (requested reqs s) svc n = Inr plan)"
proof -
  let ?t = "requested reqs s"
  have same: "GetPoolNodes (sPoolID svc) ?t = GetPoolNodes (sPoolID svc) s"
    by (rule same_base_pool_nodes [OF same_base_requested])
  show ?thesis
  proof (cases "0 \<le> n \<and> GetPoolNodes (sPoolID svc) s \<noteq> []")
    case True
    have "(\<Sum>nd\<leftarrow>alive_pool_nodes (sPoolID svc) ?t. room svc (nat n) nd (bound_ports ?t (nID nd))) =
        (\<Sum>nd\<leftarrow>alive_pool_nodes (sPoolID svc) s. room svc (nat n) nd (bound_ports s (nID nd)))"
      unfolding alive_pool_nodes_def same by (intro arg_cong [where f = sum_list] map_cong refl room_no_ports assms(4))
    then show ?thesis
      using flag.Plan_outcome [OF assms(2,1), of n svc f] flag.Plan_outcome [OF assms(3) wf_requested [OF assms(1)], of n svc f']
        True same by (auto split: if_splits)
  next
    case False
    then show ?thesis by (auto simp: Plan_def same Let_def split: prod.splits)
  qed
qed

theorem requests_reserve_nothing_witness:
  "\<forall>reqs. let t = requested reqs setupState
     in \<exists>plan. Plan (lb_of_flag ''weighted'') (\<lambda>_. sorted_list_of_set (dom (containers t))) t
       (fixture_service 4 1024 []) 1 = Inr plan"
proof
  fix reqs
  let ?t = "requested reqs setupState"
  have "orders (\<lambda>_. sorted_list_of_set (dom (containers ?t))) (containers ?t)"
    using chooser_orders [of "\<lambda>_ m. sorted_list_of_set (dom m)" ?t] by (simp add: chooser_sorted wf_requested)
  from requests_reserve_nothing [OF wf_setupState _ this, of "\<lambda>_. []" "fixture_service 4 1024 []" "''leastconn''" 1 "''weighted''"]
  show "let t = ?t in \<exists>plan. Plan (lb_of_flag ''weighted'') (\<lambda>_. sorted_list_of_set (dom (containers t))) t
       (fixture_service 4 1024 []) 1 = Inr plan"
    using flag.Plan_outcome [of "\<lambda>_. []" setupState 1 "fixture_service 4 1024 []" "''leastconn''"]
    by (simp add: fixture_room del: room.simps)
qed

end
