(* ===== verification/EndToEnd.thy ===== *)
theory EndToEnd
  imports Worker Capacity
begin

text \<open>
  A request to the API, carried through to the daemons: the master's handlers joined to the workers
  they send their commands to. A worker sits behind an address and uses the Docker daemon of its
  machine, which it may share with others.
\<close>

section \<open>The workers of a cluster\<close>

record 'd fleet =
  flManagers :: "go_string \<rightharpoonup> docker_manager"
  flDaemons :: "go_string \<Rightarrow> 'd"

text \<open>
  One command: \<open>host\<close> is the machine of an address, \<open>ks\<close> the order in which the worker ranges over the
  environment variables. Where no worker listens no connection is made.
\<close>

definition fleet_call ::
  "'d docker_sdk \<Rightarrow> (go_string \<Rightarrow> go_string) \<Rightarrow> go_string list \<Rightarrow> go_string \<times> command \<Rightarrow> 'd fleet \<Rightarrow>
   (send_error + command_response) \<times> 'd fleet" where
  "fleet_call sdk host ks msg fl =
     (case flManagers fl (fst msg) of
        None \<Rightarrow> (Inl ConnectError, fl)
      | Some dm \<Rightarrow>
          (case call_worker sdk ks (snd msg) dm (flDaemons fl (host (fst msg))) of
             (ans, dm', d') \<Rightarrow>
               (ans, \<lparr>flManagers = (flManagers fl)(fst msg \<mapsto> dm'),
                      flDaemons = (flDaemons fl)(host (fst msg) := d')\<rparr>)))"

text \<open>The commands of a request one after the other, with the answer to each.\<close>

fun fleet_run ::
  "'d docker_sdk \<Rightarrow> (go_string \<Rightarrow> go_string) \<Rightarrow> (nat \<Rightarrow> go_string list) \<Rightarrow> nat \<Rightarrow> sent \<Rightarrow> 'd fleet \<Rightarrow>
   (send_error + command_response) list \<times> 'd fleet" where
  "fleet_run sdk host ks i [] fl = ([], fl)"
| "fleet_run sdk host ks i (msg # msgs) fl =
     (let (ans, fl1) = fleet_call sdk host (ks i) msg fl; (rest, fl2) = fleet_run sdk host ks (Suc i) msgs fl1
      in (ans # rest, fl2))"

definition on_host :: "'d docker_sdk \<Rightarrow> 'd fleet \<Rightarrow> go_string \<Rightarrow> go_string \<rightharpoonup> docker_container" where
  "on_host sdk fl h = dsContainers sdk (flDaemons fl h)"

text \<open>The network of a request is the fleet: what the handler was answered is what the workers answered.\<close>

definition answered_by ::
  "api_env \<Rightarrow> sent \<Rightarrow> (send_error + command_response) list \<Rightarrow> bool" where
  "answered_by env msgs answers \<longleftrightarrow> length answers = length msgs \<and>
     (\<forall>j<length msgs. aeNet env j (fst (msgs ! j)) (snd (msgs ! j)) = answers ! j)"

text \<open>The node names the workers put on their containers.\<close>

definition node_names :: "'d fleet \<Rightarrow> go_string \<rightharpoonup> go_string" where
  "node_names fl a = map_option dmNodeID (flManagers fl a)"

definition labelled :: "go_string option \<Rightarrow> go_string \<Rightarrow> docker_container \<Rightarrow> bool" where
  "labelled node serviceID dc \<longleftrightarrow> node \<noteq> None \<and> ccLabels (dcConfig dc) ''dcp.node'' = node \<and>
     ccLabels (dcConfig dc) ''dcp.service'' = Some serviceID"

section \<open>Starting\<close>

text \<open>A container that runs what a service says.\<close>

definition runs :: "service \<Rightarrow> docker_container \<Rightarrow> bool" where
  "runs svc dc \<longleftrightarrow> dcRunning dc \<and> ccImage (dcConfig dc) = sImage svc \<and> ccCmd (dcConfig dc) = sCmd svc"

lemma runs_started [simp]: "runs svc (started_container ks (start_command svc) dm)"
  by (simp add: runs_def started_container_def container_config_for_def start_command_def)

lemma labelled_started [simp]:
  "labelled (Some (dmNodeID dm)) (sID svc) (started_container ks (start_command svc) dm)"
  by (simp add: labelled_def started_container_def container_config_for_def start_command_def)

definition success_id :: "send_error + command_response \<Rightarrow> go_string option" where
  "success_id ans =
     (case ans of Inl err \<Rightarrow> None | Inr resp \<Rightarrow> if rsSuccess resp then Some (rsContainerID resp) else None)"

lemma fleet_call_start:
  assumes "docker_laws sdk" and "forced_removal_works sdk" and "service_ok svc"
    and "fleet_call sdk host ks (a, start_command svc) fl = (ans, fl')"
  shows "node_names fl' = node_names fl \<and>
    (case success_id ans of
      None \<Rightarrow> on_host sdk fl' = on_host sdk fl
    | Some i \<Rightarrow> on_host sdk fl (host a) i = None \<and> (\<exists>dc. runs svc dc \<and> labelled (node_names fl a) (sID svc) dc \<and>
        on_host sdk fl' = (on_host sdk fl)(host a := (on_host sdk fl (host a))(i \<mapsto> dc))))"
proof (cases "flManagers fl a")
  case None
  then show ?thesis using assms(4) by (auto simp: fleet_call_def success_id_def)
next
  case (Some dm)
  obtain dm' d' where call: "call_worker sdk ks (start_command svc) dm (flDaemons fl (host a)) = (ans, dm', d')"
      and fl': "on_host sdk fl' = (on_host sdk fl)(host a := dsContainers sdk d')"
        "flManagers fl' = (flManagers fl)(a \<mapsto> dm')"
    using assms(4) Some by (auto simp: fleet_call_def on_host_def fun_eq_iff split: prod.splits)
  from call_worker_start [OF assms(1,3) call] obtain res resp where res: "ans = Inr resp"
      "StartContainer sdk ks (start_command svc) dm (flDaemons fl (host a)) = (res, dm', d')"
      "case res of Inl e \<Rightarrow> \<not> rsSuccess resp | Inr i \<Rightarrow> rsSuccess resp \<and> rsContainerID resp = i" by blast
  from assms(1) res(2) have "dmNodeID dm' = dmNodeID dm" by (cases rule: StartContainer_cases) auto
  then have names: "node_names fl' = node_names fl" by (simp add: node_names_def fun_eq_iff fl'(2) Some)
  show ?thesis
  proof (cases res)
    case (Inl e)
    from StartContainer_failed [OF assms(1,2) res(2) [unfolded Inl]] show ?thesis
      using res(1,3) Inl names by (simp add: success_id_def fl' on_host_def fun_eq_iff)
  next
    case (Inr i)
    let ?c = "started_container ks (start_command svc) dm"
    from assms(1) res(2) have "dsContainers sdk (flDaemons fl (host a)) i = None"
        "dsContainers sdk d' = (dsContainers sdk (flDaemons fl (host a)))(i \<mapsto> ?c)"
      unfolding Inr by (cases rule: StartContainer_cases; simp)+
    then have "on_host sdk fl (host a) i = None"
        "on_host sdk fl' = (on_host sdk fl)(host a := (on_host sdk fl (host a))(i \<mapsto> ?c))"
      by (simp_all add: fl' on_host_def)
    moreover have "labelled (node_names fl a) (sID svc) ?c" by (simp add: node_names_def Some)
    moreover have "success_id ans = Some i" using res(1,3) Inr by (simp add: success_id_def)
    ultimately show ?thesis using names runs_started [of svc ks dm] by (auto intro!: exI [of _ ?c])
  qed
qed

text \<open>
  A sequence of starts: no container is lost, what is answered with success runs, and what is new was
  answered with success.
\<close>

definition started_on :: "'d docker_sdk \<Rightarrow> 'd fleet \<Rightarrow> (go_string \<Rightarrow> go_string) \<Rightarrow> service \<Rightarrow> go_string option \<Rightarrow>
    go_string \<Rightarrow> go_string \<Rightarrow> bool" where
  "started_on sdk fl host svc node a x \<longleftrightarrow>
     (\<exists>dc. on_host sdk fl (host a) x = Some dc \<and> runs svc dc \<and> labelled node (sID svc) dc)"

lemma fleet_run_starts:
  assumes "docker_laws sdk" and "forced_removal_works sdk" and "service_ok svc"
    and "fleet_run sdk host ks i (map (\<lambda>a. (a, start_command svc)) as) fl = (answers, fl')"
  shows "length answers = length as \<and> node_names fl' = node_names fl \<and>
    (\<forall>h x dc. on_host sdk fl h x = Some dc \<longrightarrow> on_host sdk fl' h x = Some dc) \<and>
    (\<forall>j<length as. \<forall>x. success_id (answers ! j) = Some x \<longrightarrow>
      started_on sdk fl' host svc (node_names fl (as ! j)) (as ! j) x) \<and>
    (\<forall>h x dc. on_host sdk fl' h x = Some dc \<longrightarrow> on_host sdk fl h x = Some dc \<or>
      (\<exists>j<length as. host (as ! j) = h \<and> success_id (answers ! j) = Some x))"
  using assms(4)
proof (induction as arbitrary: i fl answers)
  case (Cons a as)
  obtain ans fl1 rest where call: "fleet_call sdk host (ks i) (a, start_command svc) fl = (ans, fl1)"
      and run: "fleet_run sdk host ks (Suc i) (map (\<lambda>a. (a, start_command svc)) as) fl1 = (rest, fl')"
      and answers: "answers = ans # rest"
    using Cons.prems by (auto split: prod.splits)
  note IH = Cons.IH [OF run]
  note start = fleet_call_start [OF assms(1-3) call]
  then have names: "node_names fl1 = node_names fl" by blast
  have keep: "on_host sdk fl1 h x = Some dc" if "on_host sdk fl h x = Some dc" for h x dc
    using start that by (cases "success_id ans") (auto split: if_splits)
  have started: "started_on sdk fl1 host svc (node_names fl a) a x" if "success_id ans = Some x" for x
    using start that by (auto simp: started_on_def)
  have new: "on_host sdk fl h x = Some dc \<or> host a = h \<and> success_id ans = Some x"
    if "on_host sdk fl1 h x = Some dc" for h x dc
    using start that by (cases "success_id ans") (auto split: if_splits)
  show ?case
  proof (intro conjI allI impI)
    show "length answers = length (a # as)" using IH by (simp add: answers)
    show "node_names fl' = node_names fl" using IH names by simp
    show "on_host sdk fl' h x = Some dc" if "on_host sdk fl h x = Some dc" for h x dc
      using IH keep [OF that] by blast
    show "started_on sdk fl' host svc (node_names fl ((a # as) ! j)) ((a # as) ! j) x"
      if "j < length (a # as)" "success_id (answers ! j) = Some x" for j x
    proof (cases j)
      case 0
      then show ?thesis using started [of x] that IH by (auto simp: answers started_on_def)
    next
      case (Suc k)
      then show ?thesis using that IH by (simp add: answers names)
    qed
    show "on_host sdk fl h x = Some dc \<or>
        (\<exists>j<length (a # as). host ((a # as) ! j) = h \<and> success_id (answers ! j) = Some x)"
      if "on_host sdk fl' h x = Some dc" for h x dc
    proof -
      from IH that consider "on_host sdk fl1 h x = Some dc"
        | j where "j < length as" "host (as ! j) = h" "success_id (rest ! j) = Some x" by blast
      then show ?thesis
      proof cases
        case 1
        from new [OF this] show ?thesis by (auto simp: answers)
      next
        case (2 j)
        then have "Suc j < length (a # as) \<and> host ((a # as) ! Suc j) = h \<and> success_id (answers ! Suc j) = Some x"
          by (simp add: answers)
        then show ?thesis by blast
      qed
    qed
  qed
qed simp

section \<open>Killing\<close>

lemma fleet_call_kill:
  assumes "docker_laws sdk" and "removal_works sdk" and "valid_utf8 v" and "v \<noteq> ''''"
    and "fleet_call sdk host ks (a, kill_command v) fl = (Inr resp, fl')" and "rsSuccess resp"
  shows "node_names fl' = node_names fl \<and> on_host sdk fl' h x =
    (if h = host a \<and> (\<exists>dc. on_host sdk fl h x = Some dc \<and> labelled (node_names fl a) v dc) then None
     else on_host sdk fl h x)"
proof -
  obtain dm where dm: "flManagers fl a = Some dm" using assms(5) by (auto simp: fleet_call_def split: option.splits)
  then obtain dm' d' where call: "call_worker sdk ks (kill_command v) dm (flDaemons fl (host a)) = (Inr resp, dm', d')"
      and fl': "on_host sdk fl' = (on_host sdk fl)(host a := dsContainers sdk d')"
        "flManagers fl' = (flManagers fl)(a \<mapsto> dm')"
    using assms(5) by (auto simp: fleet_call_def on_host_def fun_eq_iff split: prod.splits)
  have "dm' = dm"
    using call_worker_effect [OF kill_command_ok [OF assms(3)], of sdk ks dm "flDaemons fl (host a)"] call
    by (auto simp: worker_handler_def kill_command_def split: prod.splits option.splits)
  then have names: "node_names fl' = node_names fl" by (simp add: node_names_def fun_eq_iff fl'(2) dm)
  from call_worker_kill [OF assms(1,3) call] assms(6)
  have kill: "KillContainersByService sdk dm v (flDaemons fl (host a)) = (None, d')" by auto
  have own: "own dm v c \<longleftrightarrow> labelled (node_names fl a) v c" for c
    using assms(4) by (auto simp: own_def labelled_def node_names_def dm)
  show ?thesis
    using names KillContainersByService_effect(3) [OF assms(1) kill, of x]
      KillContainersByService_effect(5) [OF assms(1) kill assms(2) refl, of x]
    by (auto simp: fl'(1) own on_host_def)
qed

lemma fleet_run_kills:
  assumes "docker_laws sdk" and "removal_works sdk" and "valid_utf8 v" and "v \<noteq> ''''"
    and "fleet_run sdk host ks i (map (\<lambda>a. (a, kill_command v)) as) fl = (answers, fl')"
    and "\<forall>ans\<in>set answers. success_id ans \<noteq> None"
  shows "on_host sdk fl' h x =
    (if \<exists>a\<in>set as. h = host a \<and> (\<exists>dc. on_host sdk fl h x = Some dc \<and> labelled (node_names fl a) v dc) then None
     else on_host sdk fl h x)"
  using assms(5,6)
proof (induction as arbitrary: i fl answers)
  case (Cons a as)
  obtain ans fl1 rest where call: "fleet_call sdk host (ks i) (a, kill_command v) fl = (ans, fl1)"
      and run: "fleet_run sdk host ks (Suc i) (map (\<lambda>a. (a, kill_command v)) as) fl1 = (rest, fl')"
      and answers: "answers = ans # rest"
    using Cons.prems(1) by (auto split: prod.splits)
  obtain resp where "ans = Inr resp" "rsSuccess resp"
    using Cons.prems(2) by (auto simp: answers success_id_def split: sum.splits if_splits)
  note one = fleet_call_kill [OF assms(1-4) call [unfolded this(1)] this(2), of h x]
  have IH: "on_host sdk fl' h x =
    (if \<exists>a\<in>set as. h = host a \<and> (\<exists>dc. on_host sdk fl1 h x = Some dc \<and> labelled (node_names fl1 a) v dc) then None
     else on_host sdk fl1 h x)"
    using Cons.IH [OF run] Cons.prems(2) by (simp add: answers)
  show ?case unfolding IH using one by auto
qed simp

section \<open>A request and its workers\<close>

text \<open>
  A well-formed creation on a leader whose submissions are committed, in a well-formed state, with
  letters that make different identifiers, and with workers whose answers carry valid identifiers.
\<close>

definition creation :: "server \<Rightarrow> api_env \<Rightarrow> http_request \<Rightarrow> create_request \<Rightarrow> state \<Rightarrow> bool" where
  "creation sv env r req s \<longleftrightarrow>
     read_body create_request_fields zero_create_request r = Some req \<and>
     crImage req \<noteq> '''' \<and> 0 < crReplicas req \<and> crPoolID req \<noteq> '''' \<and>
     all_committed env \<and> valid_answers env \<and> service_ok (requested_service env req) \<and>
     (\<exists>f. svBalancer sv = lb_of_flag f) \<and> (\<forall>i. chooser (aeOrders env i)) \<and> wf_state s \<and> names_ok s \<and>
     inj_on (new_ctr_id env) {..<nat (crReplicas req)}"

lemma nodes_createService [simp]: "nodes (snd (snd (createService sv env r s))) = nodes s"
  using same_base_createService [of s sv env r] by (simp add: same_base_def)

text \<open>The replicas a request has recorded as RUNNING, against what runs on the machines.\<close>

definition running_replica :: "state \<Rightarrow> service \<Rightarrow> go_string \<Rightarrow> go_string \<Rightarrow> go_string \<Rightarrow> bool" where
  "running_replica t svc k a x \<longleftrightarrow>
     (\<exists>c nd. containers t k = Some c \<and> cServiceID c = sID svc \<and> cStatus c = ContainerRunning \<and> cDockerID c = x \<and>
        nodes t (cNodeID c) = Some nd \<and> nAddress nd = a \<and> IsAlive nd)"

lemma Plan_members_lookup:
  assumes "Plan (lb_of_flag f) ord s svc n = Inr plan" and "orders ord (containers s)" and "wf_state s"
    and "nd \<in> set plan"
  shows "\<exists>n0. nodes s (nID nd) = Some n0 \<and> nAddress n0 = nAddress nd \<and> IsAlive n0"
proof -
  obtain n0 where "n0 \<in> set (alive_pool_nodes (sPoolID svc) s)" "nID nd = nID n0" "nAddress nd = nAddress n0"
    using flag.Plan_members [OF assms(1,2,4)] by blast
  then show ?thesis using alive_pool_nodes_props(2) [OF assms(3)] by auto
qed

lemma replica_container_running:
  "cServiceID (replica_container env svc j nd) = sID svc" "cNodeID (replica_container env svc j nd) = nID nd"
  "cStatus (replica_container env svc j nd) = ContainerRunning \<Longrightarrow>
     success_id (aeNet env j (nAddress nd) (start_command svc)) = Some (cDockerID (replica_container env svc j nd))"
  "success_id (aeNet env j (nAddress nd) (start_command svc)) = Some x \<Longrightarrow>
     cStatus (replica_container env svc j nd) = ContainerRunning \<and> cDockerID (replica_container env svc j nd) = x"
  by (auto simp: replica_container_def success_id_def Let_def split: sum.splits if_splits)

definition new_ids :: "api_env \<Rightarrow> create_request \<Rightarrow> go_string set" where
  "new_ids env req = new_ctr_id env ` {..<nat (crReplicas req)}"

lemma creation_cases:
  assumes "creation sv env r req s" and svc: "svc = requested_service env req"
    and made: "createService sv env r s = (out, msgs, t)"
  obtains (pending) "msgs = []"
      "\<And>k. k \<in> new_ids env req \<Longrightarrow> containers t k =
        Some (zero_container\<lparr>cID := k, cServiceID := sID svc, cStatus := ContainerPending\<rparr>)"
      "\<And>k. k \<notin> new_ids env req \<Longrightarrow> containers t k = containers s k"
      "services t = (services s)(sID svc \<mapsto> svc)"
  | (planned) plan where "msgs = map (\<lambda>a. (a, start_command svc)) (map nAddress plan)"
      "length plan = nat (crReplicas req)"
      "\<And>j. j < length plan \<Longrightarrow> containers t (new_ctr_id env j) = Some (replica_container env svc j (plan ! j))"
      "\<And>k. k \<notin> new_ids env req \<Longrightarrow> containers t k = containers s k"
      "\<And>nd. nd \<in> set plan \<Longrightarrow> \<exists>n0. nodes s (nID nd) = Some n0 \<and> nAddress n0 = nAddress nd \<and> IsAlive n0"
      "services t = (services s)(sID svc \<mapsto> svc)"
proof -
  obtain f where f: "svBalancer sv = lb_of_flag f" using assms(1) by (auto simp: creation_def)
  have svc_ok: "service_ok svc" using assms(1) svc by (simp add: creation_def)
  have wf: "wf_state (AddService svc s)" using assms(1) by (simp add: creation_def wf_AddService)
  have orders: "orders (\<lambda>i. aeOrders env i (containers s)) (containers (AddService svc s))"
    using chooser_orders [OF _ wf, of "aeOrders env"] assms(1) by (simp add: creation_def)
  have out: "services t = (services s)(sID svc \<mapsto> svc) \<and>
    (case Plan (svBalancer sv) (\<lambda>i. aeOrders env i (containers s)) (AddService svc s) svc (crReplicas req) of
       Inl err \<Rightarrow> msgs = [] \<and> (\<forall>k. containers t k =
         (if k \<in> new_ids env req
          then Some (zero_container\<lparr>cID := k, cServiceID := sID svc, cStatus := ContainerPending\<rparr>)
          else containers s k))
     | Inr plan \<Rightarrow> int (length plan) = crReplicas req \<and>
         msgs = map (\<lambda>nd. (nAddress nd, start_command svc)) plan \<and>
         (\<forall>j<nat (crReplicas req). containers t (new_ctr_id env j) = Some (replica_container env svc j (plan ! j))) \<and>
         (\<forall>k. k \<notin> new_ids env req \<longrightarrow> containers t k = containers s k))"
    unfolding new_ids_def
    by (rule createService_outcome [OF _ _ _ _ _ _ svc svc_ok f _ _ _ _ made])
      (use assms(1) in \<open>simp_all add: creation_def\<close>)
  show ?thesis
  proof (cases "Plan (svBalancer sv) (\<lambda>i. aeOrders env i (containers s)) (AddService svc s) svc (crReplicas req)")
    case (Inl err)
    then show ?thesis using out by (intro pending) simp_all
  next
    case (Inr plan)
    have "\<exists>n0. nodes s (nID nd) = Some n0 \<and> nAddress n0 = nAddress nd \<and> IsAlive n0" if "nd \<in> set plan" for nd
      using Plan_members_lookup [OF Inr [unfolded f] orders wf that] by simp
    then show ?thesis using out Inr by (intro planned [of plan]) (auto simp: comp_def)
  qed
qed

lemma create_on_fleet:
  assumes "docker_laws sdk" and "forced_removal_works sdk" and creation: "creation sv env r req s"
    and svc: "svc = requested_service env req" and made: "createService sv env r s = (out, msgs, t)"
    and run: "fleet_run sdk host ks 0 msgs fl = (answers, fl')" and answered: "answered_by env msgs answers"
  shows "node_names fl' = node_names fl \<and>
    (\<forall>k\<in>new_ids env req. \<forall>c. containers t k = Some c \<longrightarrow> cStatus c = ContainerRunning \<longrightarrow>
      (\<exists>a. running_replica t svc k a (cDockerID c) \<and>
        started_on sdk fl' host svc (node_names fl a) a (cDockerID c))) \<and>
    (\<forall>h x dc. on_host sdk fl h x = Some dc \<longrightarrow> on_host sdk fl' h x = Some dc) \<and>
    (\<forall>h x dc. on_host sdk fl' h x = Some dc \<longrightarrow> on_host sdk fl h x = Some dc \<or>
      (\<exists>k\<in>new_ids env req. \<exists>a. running_replica t svc k a x \<and> host a = h \<and>
        started_on sdk fl' host svc (node_names fl a) a x))"
  using creation svc made
proof (cases rule: creation_cases)
  case pending
  then have "fl' = fl" using run by simp
  then show ?thesis using pending(2) by auto
next
  case (planned plan)
  let ?as = "map nAddress plan"
  have t: "nodes t = nodes s" using nodes_createService [of sv env r s] made by simp
  have svc_ok: "service_ok svc" using creation svc by (simp add: creation_def)
  note starts = fleet_run_starts [OF assms(1,2) svc_ok run [unfolded planned(1)]]
  have net: "aeNet env j (nAddress (plan ! j)) (start_command svc) = answers ! j" if "j < length plan" for j
    using answered that by (simp add: answered_by_def planned(1))
  have at: "running_replica t svc (new_ctr_id env j) (nAddress (plan ! j)) x \<and>
      started_on sdk fl' host svc (node_names fl (nAddress (plan ! j))) (nAddress (plan ! j)) x"
    if j: "j < length plan" and x: "success_id (answers ! j) = Some x" for j x
    using replica_container_running(4) [of env j "plan ! j" svc x] x net [OF j] planned(3) [OF j] planned(5) [of "plan ! j"]
      starts j by (auto simp: running_replica_def t replica_container_running(1,2))
  have "\<exists>a. running_replica t svc k a (cDockerID c) \<and> started_on sdk fl' host svc (node_names fl a) a (cDockerID c)"
    if k: "k \<in> new_ids env req" "containers t k = Some c" "cStatus c = ContainerRunning" for k c
  proof -
    obtain j where j: "j < length plan" "k = new_ctr_id env j" using k(1) planned(2) by (auto simp: new_ids_def)
    then have "success_id (answers ! j) = Some (cDockerID c)"
      using planned(3) [OF j(1)] k(2,3) replica_container_running(3) [of env svc j "plan ! j"] net [OF j(1)] by simp
    from at [OF j(1) this] show ?thesis unfolding j(2) by blast
  qed
  moreover have "on_host sdk fl h x = Some dc \<or> (\<exists>k\<in>new_ids env req. \<exists>a. running_replica t svc k a x \<and> host a = h \<and>
      started_on sdk fl' host svc (node_names fl a) a x)" if "on_host sdk fl' h x = Some dc" for h x dc
  proof (cases "on_host sdk fl h x = Some dc")
    case False
    with starts that obtain j where "j < length ?as" "host (?as ! j) = h" "success_id (answers ! j) = Some x"
      by blast
    then have j: "j < length plan" "host (nAddress (plan ! j)) = h" "success_id (answers ! j) = Some x" by simp_all
    moreover have "new_ctr_id env j \<in> new_ids env req" using j(1) planned(2) by (simp add: new_ids_def)
    ultimately show ?thesis using at [OF j(1,3)] by blast
  qed simp
  ultimately show ?thesis using starts by blast
qed

text \<open>The kill commands of a deletion, by the addresses they go to.\<close>

definition kill_addresses :: "state \<Rightarrow> container list \<Rightarrow> go_string list" where
  "kill_addresses s cs = concat (map (\<lambda>c. case if cNodeID c = '''' then None else nodes s (cNodeID c) of
     Some nd \<Rightarrow> [nAddress nd] | None \<Rightarrow> []) cs)"

lemma kills_by_address:
  "concat (map (kills_for s v) cs) = map (\<lambda>a. (a, kill_command v)) (kill_addresses s cs)"
  by (induction cs) (simp_all add: kills_for_def kill_addresses_def kill_command_def split: option.split)

lemma set_kill_addresses:
  "c \<in> set cs \<Longrightarrow> cNodeID c \<noteq> '''' \<Longrightarrow> nodes s (cNodeID c) = Some nd \<Longrightarrow> nAddress nd \<in> set (kill_addresses s cs)"
  by (force simp: kill_addresses_def)

lemma creation_frame:
  assumes "creation sv env r req s" and "svc = requested_service env req" and "createService sv env r s = (out, msgs, t)"
    and "\<forall>c\<in>ran (containers s). valid_utf8 (cID c)"
  shows "wf_state t" and "nodes t = nodes s" and "services t = (services s)(sID svc \<mapsto> svc)"
    and "\<forall>c\<in>ran (containers t). valid_utf8 (cID c)"
proof -
  show wf: "wf_state t" using assms(1,3) wf_createService [of s sv env r] by (simp add: creation_def)
  show "nodes t = nodes s" using nodes_createService [of sv env r s] assms(3) by simp
  from assms(1-3) show "services t = (services s)(sID svc \<mapsto> svc)" by (cases rule: creation_cases) auto
  have old: "containers t k = containers s k" if "k \<notin> new_ids env req" for k
    using assms(1-3) that by (cases rule: creation_cases) auto
  show "\<forall>c\<in>ran (containers t). valid_utf8 (cID c)"
  proof
    fix c assume "c \<in> ran (containers t)"
    then obtain k where k: "containers t k = Some c" by (auto simp: ran_def)
    then have "cID c = k" by (rule keyedD [OF wf_state_keyed(3) [OF wf]])
    then show "valid_utf8 (cID c)"
      using k old [of k] assms(4) by (cases "k \<in> new_ids env req") (auto simp: new_ids_def ranI)
  qed
qed

lemma deletion_reaches:
  assumes "all_committed env" and "valid_utf8 v" and order: "chooser (aeOrders env 0)" and wf: "wf_state t"
    and "\<forall>c\<in>ran (containers t). valid_utf8 (cID c)" and "services t v \<noteq> None"
    and "deleteService sv env v r t = (out, msgs, u)"
  shows "\<exists>as. msgs = map (\<lambda>a. (a, kill_command v)) as \<and> set as \<subseteq> nAddress ` ran (nodes t) \<and>
    (\<forall>svc k a x. running_replica t svc k a x \<longrightarrow> sID svc = v \<longrightarrow> nodes t '''' = None \<longrightarrow> a \<in> set as) \<and>
    services u = (services t)(v := None)"
proof -
  let ?cs = "GetContainersByService (aeOrders env 0 (containers t)) v t"
  have it: "iterates (aeOrders env 0 (containers t)) (containers t)"
    using order wf by (simp add: chooserD wf_state_def)
  then have cs: "set ?cs = {c \<in> ran (containers t). cServiceID c = v}"
    by (auto simp: GetContainersByService_def)
  have "msgs = map (\<lambda>a. (a, kill_command v)) (kill_addresses t ?cs)" "services u = (services t)(v := None)"
    using deleteService_effect [OF assms(1-5,7)] assms(6) by (simp_all add: kills_by_address)
  moreover have "set (kill_addresses t ?cs) \<subseteq> nAddress ` ran (nodes t)"
    by (force simp: kill_addresses_def ran_def split: option.splits if_splits)
  moreover have "a \<in> set (kill_addresses t ?cs)"
    if "running_replica t svc k a x" "sID svc = v" "nodes t '''' = None" for svc k a x
  proof -
    from that(1) obtain c nd where c: "containers t k = Some c" "cServiceID c = sID svc" "nodes t (cNodeID c) = Some nd"
        "nAddress nd = a" by (auto simp: running_replica_def)
    then have "c \<in> set ?cs" using that(2) by (auto simp: cs ranI)
    moreover have "cNodeID c \<noteq> ''''" using c(3) that(3) by auto
    ultimately show ?thesis using set_kill_addresses [OF _ _ c(3)] c(4) by blast
  qed
  ultimately show ?thesis by blast
qed

section \<open>A small fleet\<close>

text \<open>The fixture's node, with a worker and an empty daemon behind its address.\<close>

definition fixture_fleet :: "small_daemon fleet" where
  "fixture_fleet = \<lparr>flManagers = [nAddress fixture_node \<mapsto> \<lparr>dmNodeID = ''n1'', dmSeq = 0\<rparr>], flDaemons = (\<lambda>_. [])\<rparr>"

definition fixture_answer :: "send_error + command_response" where
  "fixture_answer = Inr (zero_response\<lparr>rsSuccess := True, rsContainerID := small_id 0\<rparr>)"

definition fixture_started_env :: api_env where
  "fixture_started_env = (fixture_api_env 0 True)\<lparr>aeNet := (\<lambda>_ _ _. fixture_answer)\<rparr>"

lemma small_id_valid: "valid_utf8 (small_id n)"
  by (simp add: small_id_def valid_utf8_ascii ascii_def byte_in_def list_all_iff)

lemma fixture_service_started: "requested_service fixture_started_env = requested_service (fixture_api_env 0 True)"
  by (simp add: fun_eq_iff requested_service_def fixture_started_env_def)

lemma fixture_is_creation: "creation fixture_server fixture_started_env (fixture_request fixture_create) fixture_created setupState"
proof -
  have "all_committed fixture_started_env" "\<forall>i. chooser (aeOrders fixture_started_env i)"
    using fixture_env_ok by (simp_all add: fixture_started_env_def all_committed_def)
  moreover have "valid_answers fixture_started_env"
    by (simp add: valid_answers_def fixture_started_env_def fixture_answer_def small_id_valid)
  ultimately show ?thesis
    using read_fixture_create fixture_creation(1,2) [OF refl] wf_setupState
    by (auto simp: creation_def fixture_service_started fixture_created_def fixture_server_def inj_on_def)
qed

lemma fixture_started:
  assumes "svc = requested_service fixture_started_env fixture_created"
  shows "\<exists>fl'. fleet_run small_docker (\<lambda>a. a) (\<lambda>_. []) 0 [(nAddress fixture_node, start_command svc)] fixture_fleet =
    ([fixture_answer], fl')"
proof -
  let ?dm = "\<lparr>dmNodeID = ''n1'', dmSeq = 0\<rparr>"
  have ok: "command_ok (start_command svc)"
    using fixture_creation(1) [of svc] assms by (intro start_command_ok) (simp add: fixture_service_started)
  have "fst (worker_handler small_docker [] (start_command svc) ?dm []) =
      Some (zero_response\<lparr>rsSuccess := True, rsContainerID := small_id 0\<rparr>)"
    by (simp add: worker_handler_def start_command_def StartContainer_def ensure_image_def small_docker_def Let_def)
  moreover have "response_ok (zero_response\<lparr>rsSuccess := True, rsContainerID := small_id 0\<rparr>)"
    by (simp add: response_ok_def zero_response_def small_id_valid)
  ultimately have "fst (call_worker small_docker [] (start_command svc) ?dm []) = fixture_answer"
    unfolding fixture_answer_def by (intro call_worker_answer(3) [OF ok])
  then show ?thesis
    by (cases "call_worker small_docker [] (start_command svc) ?dm []")
      (simp add: fleet_call_def fixture_fleet_def)
qed

text \<open>Its daemons carry out every kill command.\<close>

lemma small_kill_answers:
  assumes "valid_utf8 v"
    and "fleet_run small_docker host ks i (map (\<lambda>a. (a, kill_command v)) as) fl = (answers, fl')"
    and "\<forall>a\<in>set as. flManagers fl a \<noteq> None"
  shows "\<forall>ans\<in>set answers. success_id ans \<noteq> None"
  using assms(2,3)
proof (induction as arbitrary: i fl answers)
  case (Cons a as)
  obtain ans fl1 rest where call: "fleet_call small_docker host (ks i) (a, kill_command v) fl = (ans, fl1)"
      and run: "fleet_run small_docker host ks (Suc i) (map (\<lambda>a. (a, kill_command v)) as) fl1 = (rest, fl')"
      and answers: "answers = ans # rest"
    using Cons.prems(1) by (auto split: prod.splits)
  obtain dm where dm: "flManagers fl a = Some dm" using Cons.prems(2) by auto
  let ?d = "flDaemons fl (host a)"
  have "fst (KillContainersByService small_docker dm v ?d) = None"
    by (subst KillContainersByService_err [OF small_docker_laws]) (simp add: small_docker_def)
  then have "fst (worker_handler small_docker (ks i) (kill_command v) dm ?d) = Some (zero_response\<lparr>rsSuccess := True\<rparr>)"
    by (cases "KillContainersByService small_docker dm v ?d") (simp add: worker_handler_def kill_command_def)
  moreover have "response_ok (zero_response\<lparr>rsSuccess := True\<rparr>)" by (simp add: response_ok_def zero_response_def)
  ultimately have "fst (call_worker small_docker (ks i) (kill_command v) dm ?d) = Inr (zero_response\<lparr>rsSuccess := True\<rparr>)"
    by (intro call_worker_answer(3) [OF kill_command_ok [OF assms(1)]])
  then have "success_id ans \<noteq> None" and "\<forall>b. flManagers fl b \<noteq> None \<longrightarrow> flManagers fl1 b \<noteq> None"
    using call by (auto simp: fleet_call_def dm success_id_def split: prod.splits)
  then show ?case using Cons.IH [OF run] Cons.prems(2) by (simp add: answers)
qed simp

lemma fixture_creation_msgs:
  assumes "createService fixture_server fixture_started_env (fixture_request fixture_create) setupState = (out, msgs, t)"
  shows "msgs = [(nAddress fixture_node, start_command (requested_service fixture_started_env fixture_created))]"
proof -
  let ?svc = "requested_service fixture_started_env fixture_created"
  have plan: "Plan (lb_of_flag ''weighted'') (\<lambda>i. []) (AddService ?svc setupState) ?svc 1 = Inr [place_on ?svc fixture_node]"
    by (rule fixture_creation(3)) (simp add: fixture_service_started)
  have order: "aeOrders fixture_started_env i Map.empty = []" for i
    by (simp add: fixture_started_env_def fixture_api_env_def)
  have "svBalancer fixture_server = lb_of_flag ''weighted''" by (simp add: fixture_server_def)
  from createService_outcome [OF _ _ _ _ _ _ refl _ this _ _ _ _ assms, of fixture_created] fixture_is_creation
  show ?thesis using plan by (simp add: creation_def fixture_server_def order fixture_created_def)
qed

section \<open>Properties\<close>





end
