(* ===== verification/Planning.thy ===== *)
theory Planning
  imports Master
begin

text \<open>
  \<open>Plan\<close> of \<open>internal/scheduler/scheduler.go\<close> once more, as the steps between which other goroutines
  run: the scheduler holds no lock, and each of its reads of the cluster state takes the lock for
  itself. Alone, the steps compute what \<open>Scheduler.Plan\<close> computes; whatever happens between them,
  they come to an end.
\<close>

section \<open>Steps\<close>

text \<open>
  \<open>PCopy i pns w up\<close>: before the \<open>i\<close>-th node of the pool, \<open>w\<close> and \<open>up\<close> are the working copies and the ports
  so far. \<open>PActive\<close>: the node is alive and copied, its containers are still to be read. \<open>PPorts\<close>: the
  services of the containers are read one after the other.
\<close>

datatype plan_pc =
    PPool
  | PCopy nat "node list" "node list" port_table
  | PActive nat node "node list" "node list" port_table
  | PPorts nat node "container list" "int set" "node list" "node list" port_table
  | PDone "plan_error + node list"

definition place_all :: "balancer \<Rightarrow> service \<Rightarrow> int \<Rightarrow> node list \<Rightarrow> port_table \<Rightarrow> plan_error + node list" where
  "place_all lb service n working usedPorts =
     (if n < 0 then Inl PanicMakeslice
      else
        case Plan_loop lb service 0 (nat n) working usedPorts [] of
          Inl e \<Rightarrow> Inl e
        | Inr (plan, working') \<Rightarrow> Inr (map (\<lambda>k. working' ! k) plan))"

text \<open>The pool holds pointers: a node is read when its turn comes. One that was removed in between is as it was.\<close>

definition pointed :: "state \<Rightarrow> node \<Rightarrow> node" where
  "pointed s pn = (case nodes s (nID pn) of Some nd \<Rightarrow> nd | None \<Rightarrow> pn)"

fun plan_step ::
  "balancer \<Rightarrow> (nat \<Rightarrow> container_order) \<Rightarrow> service \<Rightarrow> int \<Rightarrow> state \<Rightarrow> plan_pc \<Rightarrow> plan_pc" where
  "plan_step lb ord service n s PPool =
     (let poolNodes = GetPoolNodes (sPoolID service) s in
      if poolNodes = [] then PDone (Inl (NoNodesInPool (sPoolID service)))
      else PCopy 0 poolNodes [] Map.empty)"
| "plan_step lb ord service n s (PCopy i [] w up) = PDone (place_all lb service n w up)"
| "plan_step lb ord service n s (PCopy i (pn # pns) w up) =
     (if \<not> IsAlive (pointed s pn) then PCopy (Suc i) pns w up else PActive i (pointed s pn) pns w up)"
| "plan_step lb ord service n s (PActive i c pns w up) =
     (let cs = GetActiveContainersByNode (ord i (containers s)) (nID c) s
      in PPorts i (c\<lparr>nContainers := cs\<rparr>) cs {} pns w up)"
| "plan_step lb ord service n s (PPorts i c [] ports pns w up) =
     PCopy (Suc i) pns (w @ [c]) (up(nID c \<mapsto> ports))"
| "plan_step lb ord service n s (PPorts i c (ctr # ctrs) ports pns w up) =
     PPorts i c ctrs (case GetService (cServiceID ctr) s of None \<Rightarrow> ports | Some svc \<Rightarrow> ports \<union> set (sPorts svc))
       pns w up"
| "plan_step lb ord service n s (PDone r) = PDone r"

section \<open>Alone\<close>

lemma Plan_place_all:
  "Plan lb ord s svc n =
     (if GetPoolNodes (sPoolID svc) s = [] then Inl (NoNodesInPool (sPoolID svc))
      else case working_copies ord 0 s (GetPoolNodes (sPoolID svc) s) ([], Map.empty) of
        (w, up) \<Rightarrow> place_all lb svc n w up)"
  by (simp add: Plan_def place_all_def Let_def)

lemma steps_ports:
  "reaches (plan_step lb ord svc n s) (PPorts i c ctrs ports pns w up)
     (PCopy (Suc i) pns (w @ [c]) (up(nID c \<mapsto> collect_ports s ctrs ports)))"
proof (induction ctrs arbitrary: ports)
  case Nil
  show ?case by (rule reaches_step) (simp only: plan_step.simps collect_ports.simps reaches_refl)
next
  case (Cons ctr ctrs)
  let ?ports = "case GetService (cServiceID ctr) s of None \<Rightarrow> ports | Some svc \<Rightarrow> ports \<union> set (sPorts svc)"
  have "collect_ports s (ctr # ctrs) ports = collect_ports s ctrs ?ports" by (simp split: option.split)
  then show ?case by (metis Cons plan_step.simps(6) reaches_step)
qed

lemma steps_copies:
  assumes "\<forall>pn\<in>set pns. nodes s (nID pn) = Some pn"
  shows "reaches (plan_step lb ord svc n s) (PCopy i pns w up)
    (case working_copies (\<lambda>i. ord i (containers s)) i s pns (w, up) of (w', up') \<Rightarrow> PDone (place_all lb svc n w' up'))"
  using assms
proof (induction pns arbitrary: i w up)
  case Nil
  show ?case by (rule reaches_step) simp
next
  case (Cons pn pns)
  have pn: "pointed s pn = pn" using Cons.prems by (simp add: pointed_def)
  show ?case
  proof (cases "IsAlive pn")
    case False
    show ?thesis by (rule reaches_step) (use False pn Cons in simp)
  next
    case True
    let ?cs = "GetActiveContainersByNode (ord i (containers s)) (nID pn) s"
    let ?c = "pn\<lparr>nContainers := ?cs\<rparr>"
    have "reaches (plan_step lb ord svc n s) (PCopy i (pn # pns) w up) (PPorts i ?c ?cs {} pns w up)"
      by (rule reaches_step, rule reaches_step) (simp add: True pn Let_def)
    then have run: "reaches (plan_step lb ord svc n s) (PCopy i (pn # pns) w up)
        (PCopy (Suc i) pns (w @ [?c]) (up(nID pn \<mapsto> collect_ports s ?cs {})))"
      using steps_ports [of lb ord svc n s i ?c ?cs "{}" pns w up] by (auto intro: reaches_trans)
    have copies: "working_copies (\<lambda>i. ord i (containers s)) i s (pn # pns) (w, up) =
        working_copies (\<lambda>i. ord i (containers s)) (Suc i) s pns (w @ [?c], up(nID pn \<mapsto> collect_ports s ?cs {}))"
      by (simp add: True Let_def)
    have "\<forall>pn\<in>set pns. nodes s (nID pn) = Some pn" using Cons.prems by simp
    from reaches_trans [OF run Cons.IH [OF this]] show ?thesis unfolding copies .
  qed
qed

lemma steps_Plan:
  assumes "wf_state s"
  shows "reaches (plan_step lb ord svc n s) PPool (PDone (Plan lb (\<lambda>i. ord i (containers s)) s svc n))"
proof (cases "GetPoolNodes (sPoolID svc) s = []")
  case True
  show ?thesis by (rule reaches_step) (simp add: True Plan_place_all)
next
  case False
  have "\<forall>pn\<in>set (GetPoolNodes (sPoolID svc) s). nodes s (nID pn) = Some pn"
    using GetPoolNodes_lookup(1) [OF assms] by blast
  note copies = steps_copies [OF this, of lb ord svc n 0 "[]" Map.empty]
  obtain w up where wu: "working_copies (\<lambda>i. ord i (containers s)) 0 s (GetPoolNodes (sPoolID svc) s) ([], Map.empty) = (w, up)"
    by (metis prod.exhaust)
  have step: "plan_step lb ord svc n s PPool = PCopy 0 (GetPoolNodes (sPoolID svc) s) [] Map.empty"
    using False by simp
  have "Plan lb (\<lambda>i. ord i (containers s)) s svc n = place_all lb svc n w up"
    using False by (simp add: Plan_place_all wu)
  then show ?thesis using copies unfolding wu prod.case by (metis step reaches_step)
qed

section \<open>With other goroutines in between\<close>

text \<open>A run of the scheduler: \<open>\<sigma> k\<close> is the state its \<open>k\<close>-th step finds.\<close>

fun plan_run :: "balancer \<Rightarrow> (nat \<Rightarrow> container_order) \<Rightarrow> service \<Rightarrow> int \<Rightarrow> (nat \<Rightarrow> state) \<Rightarrow> nat \<Rightarrow> plan_pc" where
  "plan_run lb ord svc n \<sigma> 0 = PPool"
| "plan_run lb ord svc n \<sigma> (Suc k) = plan_step lb ord svc n (\<sigma> k) (plan_run lb ord svc n \<sigma> k)"

text \<open>Ranks that decrease lexicographically with every step.\<close>

fun plan_phase :: "plan_pc \<Rightarrow> nat" where
  "plan_phase PPool = 2"
| "plan_phase (PDone r) = 0"
| "plan_phase _ = 1"

fun plan_left :: "plan_pc \<Rightarrow> nat" where
  "plan_left (PCopy i pns w up) = 3 * length pns"
| "plan_left (PActive i c pns w up) = 3 * length pns + 2"
| "plan_left (PPorts i c ctrs ports pns w up) = 3 * length pns + 1"
| "plan_left _ = 0"

fun plan_ports_left :: "plan_pc \<Rightarrow> nat" where
  "plan_ports_left (PPorts i c ctrs ports pns w up) = length ctrs"
| "plan_ports_left _ = 0"

lemma plan_step_decreases:
  assumes "\<forall>r. p \<noteq> PDone r"
  shows "(plan_step lb ord svc n s p, p) \<in> measures [plan_phase, plan_left, plan_ports_left]"
  using assms by (cases "(lb, ord, svc, n, s, p)" rule: plan_step.cases) (simp_all add: Let_def)

text \<open>The names of the nodes a run has copied, and the length of a plan it ends with.\<close>

fun plan_nodes :: "plan_pc \<Rightarrow> node list" where
  "plan_nodes (PCopy i pns w up) = pns @ w"
| "plan_nodes (PActive i c pns w up) = c # pns @ w"
| "plan_nodes (PPorts i c ctrs ports pns w up) = c # pns @ w"
| "plan_nodes (PDone (Inr plan)) = plan"
| "plan_nodes _ = []"

fun plan_tables :: "plan_pc \<Rightarrow> node list \<times> port_table" where
  "plan_tables (PCopy i pns w up) = (w, up)"
| "plan_tables (PActive i c pns w up) = (w, up)"
| "plan_tables (PPorts i c ctrs ports pns w up) = (w, up)"
| "plan_tables _ = ([], Map.empty)"

fun plan_result_ok :: "int \<Rightarrow> plan_pc \<Rightarrow> bool" where
  "plan_result_ok n (PDone (Inl e)) \<longleftrightarrow> 0 \<le> n \<longrightarrow> e \<noteq> PanicMakeslice \<and> e \<noteq> PanicNilMap"
| "plan_result_ok n (PDone (Inr plan)) \<longleftrightarrow> length plan = nat n"
| "plan_result_ok n _ \<longleftrightarrow> True"

definition plan_inv :: "(node \<Rightarrow> bool) \<Rightarrow> int \<Rightarrow> plan_pc \<Rightarrow> bool" where
  "plan_inv P n p \<longleftrightarrow> (\<forall>nd\<in>set (plan_nodes p). P nd) \<and> plan_result_ok n p \<and>
     nID ` set (fst (plan_tables p)) \<subseteq> dom (snd (plan_tables p))"

context load_balancer
begin

lemma place_all_inv:
  assumes "place_all select svc n w up = Inr plan"
  shows "length plan = nat n \<and> (\<forall>nd\<in>set plan. \<exists>nd'\<in>set w. nID nd = nID nd' \<and> nAddress nd = nAddress nd')"
proof -
  obtain idx w' where loop: "Plan_loop select svc 0 (nat n) w up [] = Inr (idx, w')" "plan = map (\<lambda>k. w' ! k) idx"
    using assms by (auto simp: place_all_def split: if_splits sum.splits)
  show ?thesis
    using Plan_loop_length [OF loop(1)] Plan_loop_same_nodes [OF loop(1)] loop(2)
    by (fastforce simp: same_nodes_def)
qed

lemma Plan_loop_no_panic:
  assumes "nID ` set w \<subseteq> dom up"
  shows "Plan_loop select svc i m w up plan \<noteq> Inl PanicNilMap"
  using assms
proof (induction m arbitrary: i w up plan)
  case (Suc m)
  show ?case
  proof (cases rule: Plan_loop_step [of svc w up i m plan])
    case (panic k)
    then show ?thesis using Suc.prems by (meson image_eqI nth_mem subsetD)
  next
    case (go k up')
    have "set (w[k := place_on svc (w ! k)]) \<subseteq> insert (place_on svc (w ! k)) (set w)"
      by (rule set_update_subset_insert)
    moreover have "nID (place_on svc (w ! k)) \<in> nID ` set w" using go(1) by simp
    ultimately have "nID ` set (w[k := place_on svc (w ! k)]) \<subseteq> nID ` set w" by blast
    then have "nID ` set (w[k := place_on svc (w ! k)]) \<subseteq> dom up'"
      using Suc.prems bind_ports_dom [OF go(3)] by blast
    then show ?thesis using go(4) Suc.IH by metis
  qed simp
qed simp

lemma place_all_error:
  assumes "place_all select svc n w up = Inl e" and "nID ` set w \<subseteq> dom up" and "0 \<le> n"
  shows "e \<noteq> PanicMakeslice \<and> e \<noteq> PanicNilMap"
proof -
  have loop: "Plan_loop select svc 0 (nat n) w up [] = Inl e"
    using assms(1,3) by (auto simp: place_all_def split: sum.splits)
  have "Plan_loop select svc i m w up plan \<noteq> Inl PanicMakeslice" for i m plan
    by (induction m arbitrary: i w up plan) (auto simp: Let_def split: option.splits)
  then show ?thesis using loop Plan_loop_no_panic [OF assms(2)] by metis
qed

lemma plan_step_inv:
  assumes "plan_inv P n p" and "\<forall>nd\<in>ran (nodes s). P nd"
    and "\<And>nd nd'. P nd \<Longrightarrow> nID nd' = nID nd \<Longrightarrow> nAddress nd' = nAddress nd \<Longrightarrow> P nd'"
  shows "plan_inv P n (plan_step select ord svc n s p)"
  using assms
proof (cases "(select, ord, svc, n, s, p)" rule: plan_step.cases)
  case (1 lb ord service n s)
  have "P nd" if "nd \<in> set (GetPoolNodes (sPoolID service) s)" for nd
  proof -
    have "nd \<in> ran (nodes s)" using that by (auto simp: GetPoolNodes_def set_range_vals ran_def split: option.splits)
    then show ?thesis using assms(2) 1 by auto
  qed
  then show ?thesis using 1 by (auto simp: plan_inv_def Let_def)
next
  case (2 lb ord service n s i w up)
  then have w: "\<forall>nd\<in>set w. P nd" "nID ` set w \<subseteq> dom up" using assms(1) by (simp_all add: plan_inv_def)
  show ?thesis
  proof (cases "place_all lb service n w up")
    case (Inl e)
    then have "0 \<le> n \<longrightarrow> e \<noteq> PanicMakeslice \<and> e \<noteq> PanicNilMap" using place_all_error [OF _ w(2)] 2 by simp
    then show ?thesis using 2 Inl by (simp add: plan_inv_def)
  next
    case (Inr plan)
    then have plan: "length plan = nat n" "\<forall>nd\<in>set plan. \<exists>nd'\<in>set w. nID nd = nID nd' \<and> nAddress nd = nAddress nd'"
      using place_all_inv [of service n w up plan] 2 by simp_all
    then have "\<forall>nd\<in>set plan. P nd" using w(1) assms(3) by metis
    then show ?thesis using 2 Inr plan(1) by (simp add: plan_inv_def)
  qed
next
  case (3 lb ord service n s i pn pns w up)
  then show ?thesis using assms(1,2) by (auto simp: plan_inv_def pointed_def ran_def split: option.split)
next
  case (4 lb ord service n s i c pns w up)
  have "P (c\<lparr>nContainers := cs\<rparr>)" for cs
    by (rule assms(3) [of c]) (use 4 assms(1) in \<open>simp_all add: plan_inv_def\<close>)
  then show ?thesis using 4 assms(1) by (auto simp: plan_inv_def Let_def)
qed (auto simp: plan_inv_def)

end

lemma plan_inv_start [simp]: "plan_inv P n PPool"
  by (simp add: plan_inv_def)

text \<open>Every run ends.\<close>

lemma measures_ends:
  assumes "\<And>k. \<not> P (f k) \<Longrightarrow> (f (Suc k), f k) \<in> measures ms"
  shows "\<exists>k. P (f k)"
proof (rule ccontr)
  assume "\<nexists>k. P (f k)"
  then have "\<forall>k. (f (Suc k), f k) \<in> measures ms" using assms by blast
  then show False using wf_measures [of ms] unfolding wf_iff_no_infinite_down_chain by blast
qed

lemma plan_run_ends: "\<exists>k r. plan_run lb ord svc n \<sigma> k = PDone r"
  using measures_ends [of "\<lambda>p. \<exists>r. p = PDone r" "plan_run lb ord svc n \<sigma>" "[plan_phase, plan_left, plan_ports_left]"]
    plan_step_decreases by auto

end
