(* ===== verification/Requests.thy ===== *)
theory Requests
  imports Planning ApiProofs
begin

text \<open>
  The two handlers of \<open>internal/api/server.go\<close> that change the cluster, as the steps between which other
  goroutines run: \<open>net/http\<close> serves every request in a goroutine of its own, and the handlers share no
  lock. A step is one access to the cluster state, one Raft submission or one command to a worker. Alone,
  the steps do what \<open>Api.createService\<close> and \<open>Api.deleteService\<close> do.
\<close>

section \<open>Creating a service\<close>

text \<open>
  \<open>CScheduleAt i plan\<close>: \<open>i\<close> replicas are done. \<open>CCallAt\<close>: the next one is recorded as SCHEDULED, its
  worker is still to be called; \<open>CRecordAt\<close>: the worker has answered. \<open>CPendingAt i txt\<close>: the plan failed
  with the text \<open>txt\<close>, and \<open>i\<close> pending containers are recorded.
\<close>

datatype create_pc =
    CSubmit
  | CPlanning plan_pc
  | CPendingAt nat go_string
  | CScheduleAt nat "node list"
  | CCallAt nat "node list"
  | CRecordAt nat "node list" "send_error + command_response"
  | CDone outcome

record create_job =
  cjEnv :: api_env
  cjRequest :: http_request
  cjService :: service
  cjReplicas :: int
  cjPc :: create_pc
  cjInfos :: "container_info list"
  cjSent :: sent

definition scheduled_container :: "api_env \<Rightarrow> service \<Rightarrow> nat \<Rightarrow> node \<Rightarrow> container" where
  "scheduled_container env svc i nd = zero_container\<lparr>cID := generateID ''ctr'' (aeLetters env i),
     cServiceID := sID svc, cNodeID := nID nd, cStatus := ContainerScheduled\<rparr>"

text \<open>The answer of the worker is recorded, in the state and in the response.\<close>

definition record_answer ::
  "server \<Rightarrow> api_env \<Rightarrow> service \<Rightarrow> nat \<Rightarrow> node \<Rightarrow> send_error + command_response \<Rightarrow> state \<Rightarrow> container_info \<times> state" where
  "record_answer sv env svc i node ans s =
     (let c = scheduled_container env svc i node in
      case ans of
        Inl err \<Rightarrow>
          ([(''id'', cID c), (''status'', ContainerPending)],
           applySetContainerStatus sv (aeRaft env i 1) (cID c) ContainerPending s)
      | Inr resp \<Rightarrow>
          if \<not> rsSuccess resp then
            ([(''id'', cID c), (''status'', ContainerFailed), (''error'', rsError resp)],
             applySetContainerStatus sv (aeRaft env i 1) (cID c) ContainerFailed s)
          else
            ([(''id'', cID c), (''nodeID'', nID node), (''status'', ContainerRunning)],
             applyAddContainer sv (aeRaft env i 1)
               (c\<lparr>cDockerID := rsContainerID resp, cStatus := ContainerRunning\<rparr>) s))"

definition pending_answer :: "service \<Rightarrow> container_info list \<Rightarrow> go_string \<Rightarrow> outcome" where
  "pending_answer svc infos txt = writeJSON 201 (enc_struct
     [(''containers'', enc_infos infos),
      (''message'', enc_string (''not enough capacity for all replicas, nothing was started; '' @ txt)),
      (''name'', enc_string (sName svc)), (''serviceID'', enc_string (sID svc))])"

definition started_answer :: "service \<Rightarrow> container_info list \<Rightarrow> outcome" where
  "started_answer svc infos = writeJSON 201 (enc_struct
     [(''containers'', enc_infos infos), (''name'', enc_string (sName svc)), (''serviceID'', enc_string (sID svc))])"

fun create_step :: "server \<Rightarrow> create_job \<times> state \<Rightarrow> create_job \<times> state" where
  "create_step sv (j, s) =
     (let env = cjEnv j; svc = cjService j; n = cjReplicas j in
      case cjPc j of
        CSubmit \<Rightarrow>
          if svRaft sv then
            (let (err, s1) = RaftNode_Apply (fst (aeServiceRaft env)) (snd (aeServiceRaft env)) LogAddService
                   (enc_service svc) s
             in case err of
                  Some e \<Rightarrow> (j\<lparr>cjPc := CDone (writeJSON 503
                    (error_body (''failed to replicate service: '' @ aeApplyText env e)))\<rparr>, s1)
                | None \<Rightarrow> (j\<lparr>cjPc := CPlanning PPool\<rparr>, s1))
          else (j\<lparr>cjPc := CPlanning PPool\<rparr>, AddService svc s)
      | CPlanning (PDone (Inl err)) \<Rightarrow>
          (j\<lparr>cjPc := (case plan_error_text err of None \<Rightarrow> CDone Aborted | Some txt \<Rightarrow> CPendingAt 0 txt)\<rparr>, s)
      | CPlanning (PDone (Inr plan)) \<Rightarrow> (j\<lparr>cjPc := CScheduleAt 0 plan\<rparr>, s)
      | CPlanning p \<Rightarrow> (j\<lparr>cjPc := CPlanning (plan_step (svBalancer sv) (aeOrders env) svc n s p)\<rparr>, s)
      | CPendingAt i txt \<Rightarrow>
          if int i < n then
            (let c = pending_container env svc i
             in (j\<lparr>cjPc := CPendingAt (Suc i) txt,
                   cjInfos := cjInfos j @ [[(''id'', cID c), (''status'', ContainerPending)]]\<rparr>,
                 applyAddContainer sv (aeRaft env i 0) c s))
          else
            (j\<lparr>cjPc := CDone (pending_answer svc (cjInfos j) txt)\<rparr>,
             create_audit env (cjRequest j) svc n '' (pending)'' s)
      | CScheduleAt i plan \<Rightarrow>
          if int i < n then
            if i < length plan then
              (j\<lparr>cjPc := CCallAt i plan\<rparr>,
               applyAddContainer sv (aeRaft env i 0) (scheduled_container env svc i (plan ! i)) s)
            else (j\<lparr>cjPc := CDone Aborted\<rparr>, s)
          else
            (j\<lparr>cjPc := CDone (started_answer svc (cjInfos j))\<rparr>, create_audit env (cjRequest j) svc n '''' s)
      | CCallAt i plan \<Rightarrow>
          (let a = nAddress (plan ! i); cmd = start_command svc
           in (j\<lparr>cjPc := CRecordAt i plan (aeNet env i a cmd), cjSent := cjSent j @ [(a, cmd)]\<rparr>, s))
      | CRecordAt i plan ans \<Rightarrow>
          (let (info, s') = record_answer sv env svc i (plan ! i) ans s
           in (j\<lparr>cjPc := CScheduleAt (Suc i) plan, cjInfos := cjInfos j @ [info]\<rparr>, s'))
      | CDone out \<Rightarrow> (j, s))"

text \<open>The goroutine of a request: the body is read and checked before anything is shared.\<close>

definition create_job_for :: "api_env \<Rightarrow> http_request \<Rightarrow> create_job" where
  "create_job_for env r =
     (case read_body create_request_fields zero_create_request r of
        None \<Rightarrow>
          \<lparr>cjEnv = env, cjRequest = r, cjService = zero_service, cjReplicas = 0,
           cjPc = CDone (writeJSON 400 (error_body (''invalid JSON: '' @ aeDecodeText env))), cjInfos = [], cjSent = []\<rparr>
      | Some req \<Rightarrow>
          \<lparr>cjEnv = env, cjRequest = r, cjService = requested_service env req, cjReplicas = crReplicas req,
           cjPc = (if crImage req = '''' \<or> crReplicas req \<le> 0 \<or> crPoolID req = ''''
             then CDone (writeJSON 400 (error_body ''image, replicas, and pool are required'')) else CSubmit),
           cjInfos = [], cjSent = []\<rparr>)"

section \<open>Deleting a service\<close>

text \<open>
  \<open>DNode i cs svc\<close>: the node of the next container is looked up. \<open>DKill i a c cs svc\<close>: its worker, at the
  address \<open>a\<close>, is sent the kill command. \<open>DStop i c cs svc\<close>: the container \<open>c\<close> is set to STOPPED.
\<close>

datatype delete_pc =
    DGet
  | DList service
  | DNode nat "container list" service
  | DKill nat go_string container "container list" service
  | DStop nat container "container list" service
  | DRemove service
  | DLog service
  | DDone outcome

record delete_job =
  djEnv :: api_env
  djRequest :: http_request
  djServiceID :: go_string
  djPc :: delete_pc
  djSent :: sent

fun delete_step :: "server \<Rightarrow> delete_job \<times> state \<Rightarrow> delete_job \<times> state" where
  "delete_step sv (j, s) =
     (let env = djEnv j; serviceID = djServiceID j in
      case djPc j of
        DGet \<Rightarrow>
          (j\<lparr>djPc := (case GetService serviceID s of
             None \<Rightarrow> DDone (writeJSON 404 (error_body ''service not found'')) | Some svc \<Rightarrow> DList svc)\<rparr>, s)
      | DList svc \<Rightarrow> (j\<lparr>djPc := DNode 0 (GetContainersByService (aeOrders env 0 (containers s)) serviceID s) svc\<rparr>, s)
      | DNode i [] svc \<Rightarrow> (j\<lparr>djPc := DRemove svc\<rparr>, s)
      | DNode i (c # cs) svc \<Rightarrow>
          (j\<lparr>djPc := (if cNodeID c \<noteq> '''' then
               (case GetNode (cNodeID c) s of Some node \<Rightarrow> DKill i (nAddress node) c cs svc | None \<Rightarrow> DStop i c cs svc)
             else DStop i c cs svc)\<rparr>, s)
      | DKill i a c cs svc \<Rightarrow>
          (j\<lparr>djPc := DStop i c cs svc,
             djSent := djSent j @ [(a, zero_command\<lparr>cmType := CmdKillContainers, cmServiceID := serviceID\<rparr>)]\<rparr>, s)
      | DStop i c cs svc \<Rightarrow>
          (j\<lparr>djPc := DNode (Suc i) cs svc\<rparr>, applySetContainerStatus sv (aeRaft env i 0) (cID c) ContainerStopped s)
      | DRemove svc \<Rightarrow> (j\<lparr>djPc := DLog svc\<rparr>, applyRemoveService sv (aeServiceRaft env) serviceID s)
      | DLog svc \<Rightarrow>
          (j\<lparr>djPc := DDone (writeJSON 200 (enc_strmap [(''status'', ''deleted'')]))\<rparr>,
           Log (aeNow env) (requestUserID (djRequest j)) EventServiceDelete serviceID
             (''service '' @ sName svc @ '' deleted'') s)
      | DDone out \<Rightarrow> (j, s))"

definition delete_job_for :: "api_env \<Rightarrow> go_string \<Rightarrow> http_request \<Rightarrow> delete_job" where
  "delete_job_for env serviceID r =
     \<lparr>djEnv = env, djRequest = r, djServiceID = serviceID, djPc = DGet, djSent = []\<rparr>"

section \<open>Alone: creating\<close>

lemma create_planning_step:
  "\<forall>r. p \<noteq> PDone r \<Longrightarrow> create_step sv (j\<lparr>cjPc := CPlanning p\<rparr>, s) =
     (j\<lparr>cjPc := CPlanning (plan_step (svBalancer sv) (aeOrders (cjEnv j)) (cjService j) (cjReplicas j) s p)\<rparr>, s)"
  by (cases p) (simp_all add: Let_def)

lemma plan_step_done [simp]: "(plan_step lb ord svc n s ^^ m) (PDone r) = PDone r"
  by (induction m) simp_all

lemma steps_planning:
  assumes "reaches (plan_step (svBalancer sv) (aeOrders (cjEnv j)) (cjService j) (cjReplicas j) s) p (PDone r)"
  shows "reaches (create_step sv) (j\<lparr>cjPc := CPlanning p\<rparr>, s) (j\<lparr>cjPc := CPlanning (PDone r)\<rparr>, s)"
proof -
  let ?f = "plan_step (svBalancer sv) (aeOrders (cjEnv j)) (cjService j) (cjReplicas j) s"
  obtain m where "(?f ^^ m) p = PDone r" using assms by (auto simp: reaches_def)
  then show ?thesis
  proof (induction m arbitrary: p)
    case (Suc m)
    show ?case
    proof (cases "\<exists>r'. p = PDone r'")
      case True
      then have "p = PDone r" using Suc.prems by (auto simp del: funpow.simps)
      then show ?thesis by simp
    next
      case False
      have "(?f ^^ m) (?f p) = PDone r" using Suc.prems by (simp add: funpow_swap1)
      from Suc.IH [OF this] show ?thesis
        using False by (intro reaches_step [of "create_step sv" "(j\<lparr>cjPc := CPlanning p\<rparr>, s)"])
          (simp add: create_planning_step del: create_step.simps)
    qed
  qed simp
qed

lemma steps_pending:
  assumes "int (i + m) = cjReplicas j" and "create_pending sv (cjEnv j) (cjService j) i m (cjInfos j) s = (infos, s')"
  shows "reaches (create_step sv) (j\<lparr>cjPc := CPendingAt i txt\<rparr>, s)
    (j\<lparr>cjPc := CPendingAt (i + m) txt, cjInfos := infos\<rparr>, s')"
  using assms
proof (induction m arbitrary: i j s)
  case 0
  then show ?case by (cases j) auto
next
  case (Suc m)
  let ?c = "pending_container (cjEnv j) (cjService j) i"
  let ?j = "j\<lparr>cjInfos := cjInfos j @ [[(''id'', cID ?c), (''status'', ContainerPending)]]\<rparr>"
  let ?s = "applyAddContainer sv (aeRaft (cjEnv j) i 0) ?c s"
  have step: "create_step sv (j\<lparr>cjPc := CPendingAt i txt\<rparr>, s) = (?j\<lparr>cjPc := CPendingAt (Suc i) txt\<rparr>, ?s)"
    using Suc.prems(1) by (simp add: Let_def)
  have "reaches (create_step sv) (?j\<lparr>cjPc := CPendingAt (Suc i) txt\<rparr>, ?s)
      (?j\<lparr>cjPc := CPendingAt (Suc i + m) txt, cjInfos := infos\<rparr>, s')"
    using Suc.prems by (intro Suc.IH) (simp_all add: pending_container_def new_ctr_id_def Let_def)
  then show ?case by (intro reaches_step [of "create_step sv" "(j\<lparr>cjPc := CPendingAt i txt\<rparr>, s)"]) (simp add: step del: create_step.simps)
qed

lemma create_replica_record:
  "create_replica sv env svc i node s =
     (let s1 = applyAddContainer sv (aeRaft env i 0) (scheduled_container env svc i node) s;
          (info, s2) = record_answer sv env svc i node (aeNet env i (nAddress node) (start_command svc)) s1
      in (info, (nAddress node, start_command svc), s2))"
  by (simp add: create_replica_def record_answer_def scheduled_container_def Let_def split: sum.split)

lemma steps_replicas:
  assumes "int (length plan) = cjReplicas j" and "i \<le> length plan"
    and "create_replicas sv (cjEnv j) (cjService j) i (drop i plan) (cjInfos j, cjSent j) s = ((infos, msgs), s')"
  shows "reaches (create_step sv) (j\<lparr>cjPc := CScheduleAt i plan\<rparr>, s)
    (j\<lparr>cjPc := CScheduleAt (length plan) plan, cjInfos := infos, cjSent := msgs\<rparr>, s')"
  using assms
proof (induction "length plan - i" arbitrary: i j s)
  case 0
  then show ?case by (cases j) auto
next
  case (Suc d)
  then have i: "i < length plan" by simp
  let ?nd = "plan ! i"
  let ?ans = "aeNet (cjEnv j) i (nAddress ?nd) (start_command (cjService j))"
  let ?s1 = "applyAddContainer sv (aeRaft (cjEnv j) i 0) (scheduled_container (cjEnv j) (cjService j) i ?nd) s"
  let ?j1 = "j\<lparr>cjSent := cjSent j @ [(nAddress ?nd, start_command (cjService j))]\<rparr>"
  obtain info s2 where rec: "record_answer sv (cjEnv j) (cjService j) i ?nd ?ans ?s1 = (info, s2)"
    by (metis prod.exhaust)
  let ?j2 = "?j1\<lparr>cjInfos := cjInfos j @ [info]\<rparr>"
  have steps: "create_step sv (j\<lparr>cjPc := CScheduleAt i plan\<rparr>, s) = (j\<lparr>cjPc := CCallAt i plan\<rparr>, ?s1)"
      "create_step sv (j\<lparr>cjPc := CCallAt i plan\<rparr>, ?s1) = (?j1\<lparr>cjPc := CRecordAt i plan ?ans\<rparr>, ?s1)"
      "create_step sv (?j1\<lparr>cjPc := CRecordAt i plan ?ans\<rparr>, ?s1) = (?j2\<lparr>cjPc := CScheduleAt (Suc i) plan\<rparr>, s2)"
    using Suc.prems(1) i rec by (simp_all add: Let_def)
  have drop: "drop i plan = ?nd # drop (Suc i) plan" using i by (simp add: Cons_nth_drop_Suc)
  have "create_replicas sv (cjEnv ?j2) (cjService ?j2) (Suc i) (drop (Suc i) plan) (cjInfos ?j2, cjSent ?j2) s2 =
      ((infos, msgs), s')"
    using Suc.prems(3) rec by (simp add: drop create_replica_record Let_def)
  moreover have "d = length plan - Suc i" using Suc.hyps(2) by simp
  ultimately have "reaches (create_step sv) (?j2\<lparr>cjPc := CScheduleAt (Suc i) plan\<rparr>, s2)
      (?j2\<lparr>cjPc := CScheduleAt (length plan) plan, cjInfos := infos, cjSent := msgs\<rparr>, s')"
    using Suc.prems(1) i by (intro Suc.hyps(1)) simp_all
  then have "reaches (create_step sv) (j\<lparr>cjPc := CScheduleAt i plan\<rparr>, s)
      (?j2\<lparr>cjPc := CScheduleAt (length plan) plan, cjInfos := infos, cjSent := msgs\<rparr>, s')"
    using steps by (metis reaches_step)
  then show ?case by simp
qed

text \<open>Alone, the steps of a creation are \<open>createService\<close>.\<close>

lemma create_step_done [simp]: "cjPc j = CDone out \<Longrightarrow> create_step sv (j, s) = (j, s)"
  by (simp add: Let_def)

lemma steps_create_containers:
  assumes "cjPc j = CPlanning PPool" and "cjInfos j = []" and "cjSent j = []" and "0 < cjReplicas j"
    and "svBalancer sv = lb_of_flag f" and "\<forall>i. chooser (aeOrders (cjEnv j) i)" and wf: "wf_state s"
    and "create_containers sv (cjEnv j) (cjRequest j) (cjService j) (cjReplicas j) s = (out, msgs, t)"
  shows "\<exists>infos. reaches (create_step sv) (j, s) (j\<lparr>cjPc := CDone out, cjInfos := infos, cjSent := msgs\<rparr>, t)"
proof -
  let ?env = "cjEnv j" and ?svc = "cjService j" and ?n = "cjReplicas j"
  let ?plan = "Plan (svBalancer sv) (\<lambda>i. aeOrders ?env i (containers s)) s ?svc ?n"
  have orders: "orders (\<lambda>i. aeOrders ?env i (containers s)) (containers s)"
    by (rule chooser_orders [OF assms(6) wf])
  have start: "j\<lparr>cjPc := CPlanning PPool\<rparr> = j" using assms(1) by (cases j) simp
  have planned: "reaches (create_step sv) (j, s) (j\<lparr>cjPc := CPlanning (PDone ?plan)\<rparr>, s)"
    using steps_planning [where p = PPool and sv = sv and j = j and s = s, OF steps_Plan [OF wf]]
    unfolding start .
  show ?thesis
  proof (cases ?plan)
    case (Inl err)
    show ?thesis
    proof (cases "plan_error_text err")
      case None
      then have out: "out = Aborted" "msgs = []" "t = s" using assms(8) Inl by (simp_all add: create_containers_def)
      have "create_step sv (j\<lparr>cjPc := CPlanning (PDone ?plan)\<rparr>, s) = (j\<lparr>cjPc := CDone Aborted\<rparr>, s)"
        by (simp add: Inl None Let_def)
      from reaches_then [OF planned this reaches_refl]
      have "reaches (create_step sv) (j, s) (j\<lparr>cjPc := CDone Aborted\<rparr>, s)" .
      moreover have "j\<lparr>cjPc := CDone Aborted\<rparr> = j\<lparr>cjPc := CDone out, cjInfos := [], cjSent := msgs\<rparr>"
        using assms(2,3) out by (cases j) simp
      ultimately show ?thesis using out(3) by metis
    next
      case (Some why)
      obtain infos s' where p: "create_pending sv ?env ?svc 0 (nat ?n) [] s = (infos, s')" by (metis prod.exhaust)
      have out: "out = pending_answer ?svc infos why" "msgs = []"
          "t = create_audit ?env (cjRequest j) ?svc ?n '' (pending)'' s'"
        using assms(8) Inl Some p by (simp_all add: create_containers_def pending_answer_def)
      have go: "create_step sv (j\<lparr>cjPc := CPlanning (PDone ?plan)\<rparr>, s) = (j\<lparr>cjPc := CPendingAt 0 why\<rparr>, s)"
        by (simp add: Inl Some Let_def)
      have run: "reaches (create_step sv) (j\<lparr>cjPc := CPendingAt 0 why\<rparr>, s)
          (j\<lparr>cjPc := CPendingAt (0 + nat ?n) why, cjInfos := infos\<rparr>, s')"
        using assms(2,4) p by (intro steps_pending) simp_all
      have last: "create_step sv (j\<lparr>cjPc := CPendingAt (0 + nat ?n) why, cjInfos := infos\<rparr>, s') =
          (j\<lparr>cjPc := CDone out, cjInfos := infos\<rparr>, t)"
        using assms(4) out by (simp add: Let_def)
      from reaches_then [OF reaches_then [OF planned go run] last reaches_refl]
      have "reaches (create_step sv) (j, s) (j\<lparr>cjPc := CDone out, cjInfos := infos\<rparr>, t)" .
      moreover have "j\<lparr>cjPc := CDone out, cjInfos := infos\<rparr> = j\<lparr>cjPc := CDone out, cjInfos := infos, cjSent := msgs\<rparr>"
        using assms(3) out by (cases j) simp
      ultimately show ?thesis by metis
    qed
  next
    case (Inr plan)
    have len: "int (length plan) = ?n" using flag.Plan_length [of f] Inr orders assms(5) by simp
    obtain infos ms s' where p: "create_replicas sv ?env ?svc 0 plan ([], []) s = ((infos, ms), s')"
      by (metis prod.exhaust)
    have out: "out = started_answer ?svc infos" "msgs = ms" "t = create_audit ?env (cjRequest j) ?svc ?n '''' s'"
      using assms(8) Inr p by (simp_all add: create_containers_def started_answer_def)
    have go: "create_step sv (j\<lparr>cjPc := CPlanning (PDone ?plan)\<rparr>, s) = (j\<lparr>cjPc := CScheduleAt 0 plan\<rparr>, s)"
      by (simp add: Inr Let_def)
    have run: "reaches (create_step sv) (j\<lparr>cjPc := CScheduleAt 0 plan\<rparr>, s)
        (j\<lparr>cjPc := CScheduleAt (length plan) plan, cjInfos := infos, cjSent := ms\<rparr>, s')"
      using assms(2,3) len p by (intro steps_replicas) simp_all
    have last: "create_step sv (j\<lparr>cjPc := CScheduleAt (length plan) plan, cjInfos := infos, cjSent := ms\<rparr>, s') =
        (j\<lparr>cjPc := CDone out, cjInfos := infos, cjSent := msgs\<rparr>, t)"
      using len out by (simp add: Let_def)
    from reaches_then [OF reaches_then [OF planned go run] last reaches_refl] show ?thesis by blast
  qed
qed

lemma steps_createService:
  assumes "svBalancer sv = lb_of_flag f" and "\<forall>i. chooser (aeOrders env i)" and "wf_state s"
    and "createService sv env r s = (out, msgs, t)"
  shows "\<exists>j. cjPc j = CDone out \<and> cjSent j = msgs \<and> reaches (create_step sv) (create_job_for env r, s) (j, t)"
proof (cases "read_body create_request_fields zero_create_request r")
  case None
  then show ?thesis using assms(4)
    by (intro exI [of _ "create_job_for env r"]) (simp add: create_job_for_def createService_def)
next
  case (Some req)
  show ?thesis
  proof (cases "crImage req = '''' \<or> crReplicas req \<le> 0 \<or> crPoolID req = ''''")
    case True
    then show ?thesis using assms(4) Some
      by (intro exI [of _ "create_job_for env r"]) (simp add: create_job_for_def createService_def)
  next
    case False
    let ?svc = "requested_service env req"
    let ?j = "create_job_for env r"
    have j: "cjEnv ?j = env" "cjRequest ?j = r" "cjService ?j = ?svc" "cjReplicas ?j = crReplicas req" "cjPc ?j = CSubmit"
        "cjInfos ?j = []" "cjSent ?j = []"
      using Some False by (simp_all add: create_job_for_def)
    have go: "\<exists>j'. cjPc j' = CDone out \<and> cjSent j' = msgs \<and> reaches (create_step sv) (?j, s) (j', t)"
      if "create_step sv (?j, s) = (?j\<lparr>cjPc := CPlanning PPool\<rparr>, s1)" "wf_state s1"
        "create_containers sv env r ?svc (crReplicas req) s1 = (out, msgs, t)" for s1
    proof -
      have "\<exists>infos. reaches (create_step sv) (?j\<lparr>cjPc := CPlanning PPool\<rparr>, s1)
          (?j\<lparr>cjPc := CPlanning PPool\<rparr>\<lparr>cjPc := CDone out, cjInfos := infos, cjSent := msgs\<rparr>, t)"
        using that(3) False j by (intro steps_create_containers [OF _ _ _ _ assms(1) _ that(2)]) (simp_all add: assms(2))
      then obtain infos where run: "reaches (create_step sv) (?j\<lparr>cjPc := CPlanning PPool\<rparr>, s1)
          (?j\<lparr>cjPc := CPlanning PPool\<rparr>\<lparr>cjPc := CDone out, cjInfos := infos, cjSent := msgs\<rparr>, t)" by blast
      from reaches_then [OF reaches_refl that(1) run] have "reaches (create_step sv) (?j, s)
          (?j\<lparr>cjPc := CPlanning PPool\<rparr>\<lparr>cjPc := CDone out, cjInfos := infos, cjSent := msgs\<rparr>, t)" .
      then show ?thesis
        by (intro exI [of _ "?j\<lparr>cjPc := CPlanning PPool\<rparr>\<lparr>cjPc := CDone out, cjInfos := infos, cjSent := msgs\<rparr>"]) simp
    qed
    show ?thesis
    proof (cases "svRaft sv")
      case False
      then show ?thesis using go [of "AddService ?svc s"] assms(3,4) Some j \<open>\<not> (crImage req = '''' \<or> _)\<close>
        by (simp add: createService_def Let_def wf_AddService)
    next
      case raft: True
      obtain err s1 where a: "RaftNode_Apply (fst (aeServiceRaft env)) (snd (aeServiceRaft env)) LogAddService
          (enc_service ?svc) s = (err, s1)" by (metis prod.exhaust)
      then have wf: "wf_state s1" using wf_RaftNode_Apply [OF assms(3)] by (metis snd_conv)
      show ?thesis
      proof (cases err)
        case None
        then show ?thesis using go [OF _ wf] assms(4) Some j a raft False
          by (simp add: createService_def Let_def)
      next
        case (Some e)
        let ?k = "?j\<lparr>cjPc := CDone (writeJSON 503 (error_body (''failed to replicate service: '' @ aeApplyText env e)))\<rparr>"
        have "create_step sv (?j, s) = (?k, s1)" using j a raft Some by (simp add: Let_def)
        then have "reaches (create_step sv) (?j, s) (?k, s1)" by (metis reaches_step reaches_refl)
        moreover have "cjPc ?k = CDone out \<and> cjSent ?k = msgs \<and> t = s1"
          using assms(4) \<open>read_body _ _ r = Some req\<close> j a raft False Some by (simp add: createService_def Let_def)
        ultimately show ?thesis by blast
      qed
    qed
  qed
qed

section \<open>Alone: deleting\<close>

lemma delete_step_done [simp]: "djPc j = DDone out \<Longrightarrow> delete_step sv (j, s) = (j, s)"
  by (simp add: Let_def)

lemma steps_delete_containers:
  assumes "delete_containers sv (djEnv j) (djServiceID j) i cs (djSent j) s = (msgs, s')"
  shows "\<exists>k. reaches (delete_step sv) (j\<lparr>djPc := DNode i cs svc\<rparr>, s) (j\<lparr>djPc := DNode k [] svc, djSent := msgs\<rparr>, s')"
  using assms
proof (induction cs arbitrary: i j s)
  case Nil
  then have "(j\<lparr>djPc := DNode i [] svc\<rparr>, s) = (j\<lparr>djPc := DNode i [] svc, djSent := msgs\<rparr>, s')" by (cases j) simp
  then show ?case by (metis reaches_refl)
next
  case (Cons c cs)
  let ?kill = "zero_command\<lparr>cmType := CmdKillContainers, cmServiceID := djServiceID j\<rparr>"
  define more where "more = (if cNodeID c \<noteq> '''' then
    (case GetNode (cNodeID c) s of Some node \<Rightarrow> [(nAddress node, ?kill)] | None \<Rightarrow> []) else [])"
  let ?j = "j\<lparr>djSent := djSent j @ more\<rparr>"
  let ?s = "applySetContainerStatus sv (aeRaft (djEnv j) i 0) (cID c) ContainerStopped s"
  have "delete_containers sv (djEnv ?j) (djServiceID ?j) (Suc i) cs (djSent ?j) ?s = (msgs, s')"
    using Cons.prems by (simp add: more_def split: option.splits if_splits)
  from Cons.IH [OF this] obtain k where rest: "reaches (delete_step sv) (?j\<lparr>djPc := DNode (Suc i) cs svc\<rparr>, ?s)
      (?j\<lparr>djPc := DNode k [] svc, djSent := msgs\<rparr>, s')" by blast
  have stop: "delete_step sv (?j\<lparr>djPc := DStop i c cs svc\<rparr>, s) = (?j\<lparr>djPc := DNode (Suc i) cs svc\<rparr>, ?s)"
    by (simp add: Let_def)
  have stop': "reaches (delete_step sv) (j\<lparr>djPc := DNode i (c # cs) svc\<rparr>, s) (?j\<lparr>djPc := DStop i c cs svc\<rparr>, s)"
  proof (cases "if cNodeID c \<noteq> '''' then GetNode (cNodeID c) s else None")
    case None
    then have "more = []" "delete_step sv (j\<lparr>djPc := DNode i (c # cs) svc\<rparr>, s) = (j\<lparr>djPc := DStop i c cs svc\<rparr>, s)"
      by (auto simp: more_def Let_def split: option.splits if_splits)
    moreover from this(1) have "?j\<lparr>djPc := DStop i c cs svc\<rparr> = j\<lparr>djPc := DStop i c cs svc\<rparr>" by (cases j) simp
    ultimately show ?thesis using reaches_then [OF reaches_refl _ reaches_refl] by metis
  next
    case (Some nd)
    then have "more = [(nAddress nd, ?kill)]" "delete_step sv (j\<lparr>djPc := DNode i (c # cs) svc\<rparr>, s) =
        (j\<lparr>djPc := DKill i (nAddress nd) c cs svc\<rparr>, s)"
      by (auto simp: more_def Let_def split: option.splits if_splits)
    moreover from this(1) have "delete_step sv (j\<lparr>djPc := DKill i (nAddress nd) c cs svc\<rparr>, s) =
        (?j\<lparr>djPc := DStop i c cs svc\<rparr>, s)" by (simp add: Let_def)
    ultimately show ?thesis using reaches_then [OF reaches_refl _ reaches_then [OF reaches_refl _ reaches_refl]] by metis
  qed
  from reaches_then [OF stop' stop rest]
  have "reaches (delete_step sv) (j\<lparr>djPc := DNode i (c # cs) svc\<rparr>, s) (j\<lparr>djPc := DNode k [] svc, djSent := msgs\<rparr>, s')"
    by simp
  then show ?case by blast
qed

text \<open>Alone, the steps of a deletion are \<open>deleteService\<close>.\<close>

lemma steps_deleteService:
  assumes "deleteService sv env v r s = (out, msgs, t)"
  shows "\<exists>j. djPc j = DDone out \<and> djSent j = msgs \<and> reaches (delete_step sv) (delete_job_for env v r, s) (j, t)"
proof -
  let ?j = "delete_job_for env v r"
  have j: "djEnv ?j = env" "djRequest ?j = r" "djServiceID ?j = v" "djPc ?j = DGet" "djSent ?j = []"
    by (simp_all add: delete_job_for_def)
  show ?thesis
  proof (cases "GetService v s")
    case None
    let ?k = "?j\<lparr>djPc := DDone out\<rparr>"
    have "delete_step sv (?j, s) = (?k, t)" "msgs = []"
      using assms None by (simp_all add: j deleteService_def Let_def)
    from reaches_one [where f = "delete_step sv", OF this(1)] this(2) show ?thesis
      by (intro exI [of _ ?k]) (simp add: j)
  next
    case (Some svc)
    let ?cs = "GetContainersByService (aeOrders env 0 (containers s)) v s"
    obtain ms s1 where del: "delete_containers sv env v 0 ?cs [] s = (ms, s1)" by (metis prod.exhaust)
    have out: "out = writeJSON 200 (enc_strmap [(''status'', ''deleted'')])" "msgs = ms"
        "t = Log (aeNow env) (requestUserID r) EventServiceDelete v (''service '' @ sName svc @ '' deleted'')
          (applyRemoveService sv (aeServiceRaft env) v s1)"
      using assms Some del by (simp_all add: deleteService_def Let_def)
    obtain k where run: "reaches (delete_step sv) (?j\<lparr>djPc := DNode 0 ?cs svc\<rparr>, s)
        (?j\<lparr>djPc := DNode k [] svc, djSent := ms\<rparr>, s1)"
      using steps_delete_containers [where j = ?j and cs = ?cs and i = 0, unfolded j, OF del] by blast
    have first: "delete_step sv (?j, s) = (?j\<lparr>djPc := DList svc\<rparr>, s)"
        "delete_step sv (?j\<lparr>djPc := DList svc\<rparr>, s) = (?j\<lparr>djPc := DNode 0 ?cs svc\<rparr>, s)"
      using Some by (simp_all add: j Let_def)
    let ?d = "\<lambda>pc. ?j\<lparr>djPc := pc, djSent := ms\<rparr>"
    let ?s2 = "applyRemoveService sv (aeServiceRaft env) v s1"
    have last: "delete_step sv (?d (DNode k [] svc), s1) = (?d (DRemove svc), s1)"
        "delete_step sv (?d (DRemove svc), s1) = (?d (DLog svc), ?s2)"
        "delete_step sv (?d (DLog svc), ?s2) = (?d (DDone out), t)"
      by (simp_all add: j out Let_def)
    have "reaches (delete_step sv) (?j, s) (?d (DNode k [] svc), s1)"
      by (rule reaches_first [where f = "delete_step sv", OF first(1) reaches_first [OF first(2) run]])
    from reaches_then [OF this last(1) reaches_first [where f = "delete_step sv", OF last(2) reaches_one [where f = "delete_step sv", OF last(3)]]]
    show ?thesis using out(2) by (intro exI [of _ "?d (DDone out)"]) simp
  qed
qed

section \<open>Properties\<close>



end
