(* ===== verification/Jobs.thy ===== *)
theory Jobs
  imports Requests Capacity
begin

text \<open>
  The requests a leader handles at the same time: one goroutine for each, whose steps interleave with one
  another and with the rest of the program. Every request is answered; and what a job has recorded of its
  own containers and its own service is an invariant of all interleavings.
\<close>

section \<open>The jobs of a server\<close>

datatype job = Creating create_job | Deleting delete_job

fun job_step :: "server \<Rightarrow> job \<times> state \<Rightarrow> job \<times> state" where
  "job_step sv (Creating j, s) = (let (j', s') = create_step sv (j, s) in (Creating j', s'))"
| "job_step sv (Deleting j, s) = (let (j', s') = delete_step sv (j, s) in (Deleting j', s'))"

text \<open>\<open>R\<close>: what the rest of the program may do to the state between two steps.\<close>

inductive request_step ::
  "server \<Rightarrow> (state \<Rightarrow> state \<Rightarrow> bool) \<Rightarrow> job list \<times> state \<Rightarrow> job list \<times> state \<Rightarrow> bool"
  for sv R where
  serve: "i < length js \<Longrightarrow> job_step sv (js ! i, s) = (j', s') \<Longrightarrow> request_step sv R (js, s) (js[i := j'], s')"
| other: "R s s' \<Longrightarrow> request_step sv R (js, s) (js, s')"



text \<open>The answer of a job that is done, and the commands it has sent.\<close>

fun job_answer :: "job \<Rightarrow> outcome option" where
  "job_answer (Creating j) = (case cjPc j of CDone out \<Rightarrow> Some out | _ \<Rightarrow> None)"
| "job_answer (Deleting j) = (case djPc j of DDone out \<Rightarrow> Some out | _ \<Rightarrow> None)"

fun job_sent :: "job \<Rightarrow> sent" where
  "job_sent (Creating j) = cjSent j"
| "job_sent (Deleting j) = djSent j"

lemma job_alone:
  "reaches (create_step sv) (j, s) (j', t) \<Longrightarrow> reaches (job_step sv) (Creating j, s) (Creating j', t)"
  "reaches (delete_step sv) (d, s) (d', t) \<Longrightarrow> reaches (job_step sv) (Deleting d, s) (Deleting d', t)"
  using reaches_map [of "create_step sv" "(j, s)" "(j', t)" "job_step sv" "\<lambda>(j, s). (Creating j, s)"]
    reaches_map [of "delete_step sv" "(d, s)" "(d', t)" "job_step sv" "\<lambda>(j, s). (Deleting j, s)"]
  by (simp_all add: case_prod_beta Let_def del: create_step.simps delete_step.simps)

text \<open>One job of a system that runs while the others stand still.\<close>

lemma run_job:
  assumes "reaches (job_step sv) (js ! i, s) (j, t)" and "i < length js"
  shows "(request_step sv R)\<^sup>*\<^sup>* (js, s) (js[i := j], t)"
proof -
  obtain m where "(job_step sv ^^ m) (js ! i, s) = (j, t)" using assms(1) by (auto simp: reaches_def)
  then show ?thesis using assms(2)
  proof (induction m arbitrary: js s)
    case 0
    then show ?case by auto
  next
    case (Suc m)
    obtain j1 s1 where one: "job_step sv (js ! i, s) = (j1, s1)" by (metis prod.exhaust)
    have "(job_step sv ^^ m) (js[i := j1] ! i, s1) = (j, t)" using Suc.prems one by (simp add: funpow_swap1)
    from Suc.IH [OF this] Suc.prems(2) have "(request_step sv R)\<^sup>*\<^sup>* (js[i := j1], s1) (js[i := j], t)" by simp
    with request_step.serve [OF Suc.prems(2) one] show ?case by (rule converse_rtranclp_into_rtranclp)
  qed
qed

section \<open>Every request is answered\<close>

text \<open>Ranks that decrease lexicographically with every step of a job, whatever state it finds.\<close>

fun create_phase :: "create_pc \<Rightarrow> nat" where
  "create_phase CSubmit = 3"
| "create_phase (CPlanning p) = 2"
| "create_phase (CDone out) = 0"
| "create_phase _ = 1"

fun create_left :: "int \<Rightarrow> create_pc \<Rightarrow> nat" where
  "create_left n (CPendingAt i msg) = nat n - i"
| "create_left n (CScheduleAt i plan) = 3 * (nat n - i)"
| "create_left n (CCallAt i plan) = 3 * (nat n - Suc i) + 2"
| "create_left n (CRecordAt i plan ans) = 3 * (nat n - Suc i) + 1"
| "create_left n _ = 0"

fun delete_phase :: "delete_pc \<Rightarrow> nat" where
  "delete_phase DGet = 5"
| "delete_phase (DList svc) = 4"
| "delete_phase (DRemove svc) = 2"
| "delete_phase (DLog svc) = 1"
| "delete_phase (DDone out) = 0"
| "delete_phase _ = 3"

fun delete_left :: "delete_pc \<Rightarrow> nat" where
  "delete_left (DNode i cs svc) = 3 * length cs"
| "delete_left (DKill i a c cs svc) = 3 * length cs + 2"
| "delete_left (DStop i c cs svc) = 3 * length cs + 1"
| "delete_left _ = 0"

definition planning_rank :: "(plan_pc \<Rightarrow> nat) \<Rightarrow> job \<Rightarrow> nat" where
  "planning_rank f j = (case j of Creating c \<Rightarrow> (case cjPc c of CPlanning p \<Rightarrow> f p | _ \<Rightarrow> 0) | Deleting d \<Rightarrow> 0)"

definition job_ranks :: "(job \<Rightarrow> nat) list" where
  "job_ranks =
     [\<lambda>j. case j of Creating c \<Rightarrow> create_phase (cjPc c) | Deleting d \<Rightarrow> delete_phase (djPc d),
      \<lambda>j. case j of Creating c \<Rightarrow> create_left (cjReplicas c) (cjPc c) | Deleting d \<Rightarrow> delete_left (djPc d),
      planning_rank plan_phase, planning_rank plan_left, planning_rank plan_ports_left]"

lemma create_step_decreases:
  assumes "\<forall>out. cjPc c \<noteq> CDone out"
  shows "(Creating (fst (create_step sv (c, s))), Creating c) \<in> measures job_ranks"
proof (cases "\<exists>p. cjPc c = CPlanning p \<and> (\<forall>r. p \<noteq> PDone r)")
  case True
  then obtain p where p: "cjPc c = CPlanning p" "\<forall>r. p \<noteq> PDone r" by blast
  then have "c\<lparr>cjPc := CPlanning p\<rparr> = c" by (cases c) simp
  then have step: "fst (create_step sv (c, s)) =
      c\<lparr>cjPc := CPlanning (plan_step (svBalancer sv) (aeOrders (cjEnv c)) (cjService c) (cjReplicas c) s p)\<rparr>"
    using create_planning_step [OF p(2), of sv c s] by simp
  show ?thesis
    using plan_step_decreases [OF p(2), of "svBalancer sv" "aeOrders (cjEnv c)" "cjService c" "cjReplicas c" s]
    unfolding step by (simp add: job_ranks_def planning_rank_def p(1))
next
  case False
  then show ?thesis using assms
    by (cases "cjPc c")
      (auto simp: Let_def job_ranks_def case_prod_beta split: option.splits plan_pc.splits sum.splits)
qed

lemma delete_step_decreases:
  assumes "\<forall>out. djPc d \<noteq> DDone out"
  shows "(Deleting (fst (delete_step sv (d, s))), Deleting d) \<in> measures job_ranks"
  using assms
  by (cases "djPc d") (auto simp: Let_def job_ranks_def split: option.splits list.splits)

lemma job_step_decreases:
  "job_answer j = None \<Longrightarrow> (fst (job_step sv (j, s)), j) \<in> measures job_ranks"
  using create_step_decreases [of _ sv s] delete_step_decreases [of _ sv s]
  by (cases j) (auto simp: case_prod_beta Let_def simp del: create_step.simps delete_step.simps
      split: create_pc.splits delete_pc.splits)

text \<open>A job and what it meets: \<open>\<sigma> k\<close> is the state its \<open>k\<close>-th step finds.\<close>

fun job_run :: "server \<Rightarrow> job \<Rightarrow> (nat \<Rightarrow> state) \<Rightarrow> nat \<Rightarrow> job" where
  "job_run sv j \<sigma> 0 = j"
| "job_run sv j \<sigma> (Suc k) = fst (job_step sv (job_run sv j \<sigma> k, \<sigma> k))"


section \<open>The answers stay true\<close>

text \<open>
  The first \<open>m\<close> containers of a creation are in the state, \<open>f k\<close> the \<open>k\<close>-th of them, and the response
  tells their identifiers and statuses.
\<close>

definition recorded :: "api_env \<Rightarrow> nat \<Rightarrow> (nat \<Rightarrow> container) \<Rightarrow> container_info list \<Rightarrow> state \<Rightarrow> bool" where
  "recorded env m f infos s \<longleftrightarrow> length infos = m \<and>
     (\<forall>k<m. containers s (new_ctr_id env k) = Some (f k) \<and>
        map_of (infos ! k) ''id'' = Some (new_ctr_id env k) \<and>
        map_of (infos ! k) ''status'' = Some (cStatus (f k)))"

definition sent_starts :: "service \<Rightarrow> node list \<Rightarrow> sent" where
  "sent_starts svc plan = map (\<lambda>nd. (nAddress nd, start_command svc)) plan"

definition plan_ok :: "int \<Rightarrow> node list \<Rightarrow> bool" where
  "plan_ok n plan \<longleftrightarrow> length plan = nat n \<and> (\<forall>nd\<in>set plan. valid_utf8 (nID nd))"

text \<open>A creation that is done: what it answered, and what the state has of it.\<close>

definition created_as_answered ::
  "api_env \<Rightarrow> service \<Rightarrow> int \<Rightarrow> outcome \<Rightarrow> container_info list \<Rightarrow> sent \<Rightarrow> state \<Rightarrow> bool" where
  "created_as_answered env svc n out infos msgs s \<longleftrightarrow> services s (sID svc) = Some svc \<and>
     ((\<exists>why. out = pending_answer svc infos why) \<and> msgs = [] \<and> recorded env (nat n) (pending_container env svc) infos s \<or>
      (\<exists>plan. out = started_answer svc infos \<and> plan_ok n plan \<and> msgs = sent_starts svc plan \<and>
         recorded env (nat n) (\<lambda>k. replica_container env svc k (plan ! k)) infos s))"

definition create_inv :: "create_job \<Rightarrow> state \<Rightarrow> bool" where
  "create_inv j s \<longleftrightarrow>
     (let env = cjEnv j; svc = cjService j; n = cjReplicas j; infos = cjInfos j; msgs = cjSent j;
          known = services s (sID svc) = Some svc;
          replica = (\<lambda>plan k. replica_container env svc k (plan ! k)) in
      case cjPc j of
        CSubmit \<Rightarrow> infos = [] \<and> msgs = []
      | CPlanning p \<Rightarrow> known \<and> infos = [] \<and> msgs = [] \<and> plan_inv (\<lambda>nd. valid_utf8 (nID nd)) n p
      | CPendingAt i why \<Rightarrow> known \<and> msgs = [] \<and> i \<le> nat n \<and> recorded env i (pending_container env svc) infos s
      | CScheduleAt i plan \<Rightarrow> known \<and> plan_ok n plan \<and> i \<le> nat n \<and> recorded env i (replica plan) infos s \<and>
          msgs = sent_starts svc (take i plan)
      | CCallAt i plan \<Rightarrow> known \<and> plan_ok n plan \<and> i < nat n \<and> recorded env i (replica plan) infos s \<and>
          msgs = sent_starts svc (take i plan) \<and>
          containers s (new_ctr_id env i) = Some (scheduled_container env svc i (plan ! i))
      | CRecordAt i plan ans \<Rightarrow> known \<and> plan_ok n plan \<and> i < nat n \<and> recorded env i (replica plan) infos s \<and>
          msgs = sent_starts svc (take (Suc i) plan) \<and>
          containers s (new_ctr_id env i) = Some (scheduled_container env svc i (plan ! i)) \<and>
          ans = aeNet env i (nAddress (plan ! i)) (start_command svc)
      | CDone out \<Rightarrow> created_as_answered env svc n out infos msgs s)"

text \<open>What a creation needs: its submissions are committed, and its identifiers differ.\<close>

definition create_ok :: "server \<Rightarrow> create_job \<Rightarrow> bool" where
  "create_ok sv j \<longleftrightarrow> all_committed (cjEnv j) \<and> valid_answers (cjEnv j) \<and> service_ok (cjService j) \<and>
     0 < cjReplicas j \<and> (\<exists>f. svBalancer sv = lb_of_flag f) \<and>
     inj_on (new_ctr_id (cjEnv j)) {..<nat (cjReplicas j)}"

definition create_ids :: "create_job \<Rightarrow> go_string set" where
  "create_ids j = new_ctr_id (cjEnv j) ` {..<nat (cjReplicas j)}"

text \<open>What a job leaves of the state: only its own containers and its own service change.\<close>

definition keeps :: "go_string set \<Rightarrow> go_string set \<Rightarrow> state \<Rightarrow> state \<Rightarrow> bool" where
  "keeps A V s s' \<longleftrightarrow> (\<forall>k\<in>A. containers s' k = containers s k) \<and> (\<forall>v\<in>V. services s' v = services s v)"

lemma keeps_refl [simp]: "keeps A V s s"
  by (simp add: keeps_def)

lemma recorded_keeps:
  "recorded env m f infos s \<Longrightarrow> \<forall>k<m. containers s' (new_ctr_id env k) = containers s (new_ctr_id env k) \<Longrightarrow>
     recorded env m f infos s'"
  by (simp add: recorded_def)

lemma recorded_Suc:
  assumes "recorded env m f infos s" and "containers s' (new_ctr_id env m) = Some (f m)"
    and "map_of info ''id'' = Some (new_ctr_id env m)" and "map_of info ''status'' = Some (cStatus (f m))"
    and "\<forall>k<m. containers s' (new_ctr_id env k) = containers s (new_ctr_id env k)"
  shows "recorded env (Suc m) f (infos @ [info]) s'"
  using assms by (auto simp: recorded_def nth_append less_Suc_eq)

lemmas create_inv_simp = create_inv_def [unfolded Let_def]

lemma create_inv_keeps:
  assumes "create_inv j s" and "create_ok sv j" and "keeps (create_ids j) {sID (cjService j)} s s'"
  shows "create_inv j s'"
proof -
  have same: "containers s' (new_ctr_id (cjEnv j) k) = containers s (new_ctr_id (cjEnv j) k)"
    if "k < nat (cjReplicas j)" for k
    using assms(3) that by (simp add: keeps_def create_ids_def)
  have svc: "services s' (sID (cjService j)) = services s (sID (cjService j))" using assms(3) by (simp add: keeps_def)
  have rec: "recorded (cjEnv j) m f infos s'" if "recorded (cjEnv j) m f infos s" "m \<le> nat (cjReplicas j)" for m f infos
    using that same by (intro recorded_keeps [OF that(1)]) simp
  show ?thesis using assms(1)
    by (cases "cjPc j")
      (auto simp: create_inv_simp created_as_answered_def svc same rec Let_def intro: rec)
qed

lemma new_ctr_id_fold [simp]: "generateID ''ctr'' (aeLetters env i) = new_ctr_id env i"
  by (simp add: new_ctr_id_def)

lemma scheduled_container_ok:
  "valid_utf8 (sID svc) \<Longrightarrow> valid_utf8 (nID nd) \<Longrightarrow> container_ok (scheduled_container env svc i nd)"
  by (simp add: container_ok_def scheduled_container_def zero_container_def)

lemma pending_container_ok: "valid_utf8 (sID svc) \<Longrightarrow> container_ok (pending_container env svc i)"
  by (simp add: container_ok_def pending_container_def zero_container_def)

lemma record_answer_effect:
  assumes "all_committed env" and "valid_answers env" and "valid_utf8 (sID svc)" and "valid_utf8 (nID nd)"
    and "containers s (new_ctr_id env i) = Some (scheduled_container env svc i nd)"
    and "ans = aeNet env i (nAddress nd) (start_command svc)"
    and "record_answer sv env svc i nd ans s = (info, s')"
  shows "s' = s\<lparr>containers := (containers s)(new_ctr_id env i \<mapsto> replica_container env svc i nd)\<rparr> \<and>
    map_of info ''id'' = Some (new_ctr_id env i) \<and>
    map_of info ''status'' = Some (cStatus (replica_container env svc i nd))"
proof (cases ans)
  case (Inl err)
  then show ?thesis
    using assms(1,5-7)
    by (auto simp: record_answer_def Let_def apply_committed(2) SetContainerStatus_def replica_container_def
        scheduled_container_def)
next
  case (Inr resp)
  let ?c = "(scheduled_container env svc i nd)\<lparr>cDockerID := rsContainerID resp, cStatus := ContainerRunning\<rparr>"
  have "valid_utf8 (rsContainerID resp)" using assms(2,6) Inr by (metis valid_answers_def)
  then have "container_ok ?c" using scheduled_container_ok [OF assms(3,4)] by (simp add: container_ok_def)
  note add = apply_committed(1) [OF assms(1) this, of sv i 1 s]
  have net: "aeNet env i (nAddress nd) (start_command svc) = Inr resp" using assms(6) Inr by simp
  show ?thesis
    using assms(1,5,7) add unfolding Inr
    by (auto simp: net record_answer_def Let_def apply_committed(2) SetContainerStatus_def replica_container_def
        scheduled_container_def AddContainer_def)
qed

lemma replica_container_node: "cNodeID (replica_container env svc i nd) = nID nd"
  by (simp add: replica_container_def Let_def split: sum.split)

lemma replica_container_service [simp]: "cServiceID (replica_container env svc i nd) = sID svc"
  by (simp add: replica_container_def Let_def split: sum.split)

text \<open>What a step of a creation does to the state, given its invariant.\<close>

definition create_effect :: "create_job \<Rightarrow> state \<Rightarrow> state \<Rightarrow> bool" where
  "create_effect j s s' \<longleftrightarrow> keeps (- create_ids j) (- {sID (cjService j)}) s s' \<and> nodes s' = nodes s \<and>
     (\<forall>k\<in>create_ids j. containers s' k = containers s k \<or>
        (\<exists>c. containers s' k = Some c \<and> cServiceID c = sID (cjService j)))"

lemma create_effect_refl [simp]: "create_effect j s s"
  by (simp add: create_effect_def)

lemma create_effect_container:
  assumes "k < nat (cjReplicas j)" and "cServiceID c = sID (cjService j)"
  shows "create_effect j s (s\<lparr>containers := (containers s)(new_ctr_id (cjEnv j) k \<mapsto> c)\<rparr>)"
  using assms by (auto simp: create_effect_def keeps_def create_ids_def)

lemma create_effect_Log [simp]: "create_effect j s (Log now u a r d t) = create_effect j s t"
  by (simp add: create_effect_def keeps_def)

lemma new_ctr_id_later:
  "create_ok sv j \<Longrightarrow> k < i \<Longrightarrow> i < nat (cjReplicas j) \<Longrightarrow> new_ctr_id (cjEnv j) k \<noteq> new_ctr_id (cjEnv j) i"
  by (auto simp: create_ok_def inj_on_def)

lemma create_step_inv:
  assumes ok: "create_ok sv j" and inv: "create_inv j s" and names: "\<forall>nd\<in>ran (nodes s). valid_utf8 (nID nd)"
    and step: "create_step sv (j, s) = (j', s')"
  shows "create_inv j' s' \<and> create_effect j s s'"
proof -
  let ?env = "cjEnv j" and ?svc = "cjService j" and ?n = "cjReplicas j"
  have o: "all_committed ?env" "valid_answers ?env" "service_ok ?svc" "0 < ?n" and v: "valid_utf8 (sID ?svc)"
    using ok by (simp_all add: create_ok_def service_ok_def)
  obtain f where f: "svBalancer sv = lb_of_flag f" using ok by (auto simp: create_ok_def)
  have later: "new_ctr_id ?env k \<noteq> new_ctr_id ?env i" if "k < i" "i < nat ?n" for k i
    using ok that by (rule new_ctr_id_later)
  show ?thesis
  proof (cases "cjPc j")
    case CSubmit
    have "RaftNode_Apply True Committed LogAddService (enc_service ?svc) s = (None, AddService ?svc s)"
      by (rule commit_AddService [OF o(3)])
    then have "j' = j\<lparr>cjPc := CPlanning PPool\<rparr>" "s' = AddService ?svc s"
      using step o(1) by (auto simp: CSubmit all_committed_def Let_def split: if_splits)
    then show ?thesis using inv
      by (simp add: create_inv_simp CSubmit create_effect_def keeps_def service_table.lookup_add)
  next
    case (CPlanning p)
    then have known: "services s (sID ?svc) = Some ?svc" "cjInfos j = []" "cjSent j = []"
        "plan_inv (\<lambda>nd. valid_utf8 (nID nd)) ?n p" using inv by (simp_all add: create_inv_simp)
    show ?thesis
    proof (cases "\<exists>r. p = PDone r")
      case False
      have "j\<lparr>cjPc := CPlanning p\<rparr> = j" using CPlanning by (cases j) simp
      with create_planning_step [of p sv j s] False step
      have "j' = j\<lparr>cjPc := CPlanning (plan_step (svBalancer sv) (aeOrders ?env) ?svc ?n s p)\<rparr>" "s' = s"
        by (auto simp del: create_step.simps)
      moreover have "plan_inv (\<lambda>nd. valid_utf8 (nID nd)) ?n (plan_step (svBalancer sv) (aeOrders ?env) ?svc ?n s p)"
        unfolding f by (rule flag.plan_step_inv [OF known(4) names]) simp
      ultimately show ?thesis using known by (simp add: create_inv_simp)
    next
      case True
      then obtain r where r: "p = PDone r" by blast
      show ?thesis
      proof (cases r)
        case (Inl err)
        then have "err \<noteq> PanicMakeslice \<and> err \<noteq> PanicNilMap" using known(4) o(4) by (simp add: plan_inv_def r)
        then obtain why where "plan_error_text err = Some why" by (cases err) auto
        then have "j' = j\<lparr>cjPc := CPendingAt 0 why\<rparr>" "s' = s" using step by (simp_all add: CPlanning r Inl Let_def)
        then show ?thesis using known by (simp add: create_inv_simp recorded_def)
      next
        case (Inr plan)
        then have "j' = j\<lparr>cjPc := CScheduleAt 0 plan\<rparr>" "s' = s" using step by (simp_all add: CPlanning r Let_def)
        moreover have "plan_ok ?n plan" using known(4) by (simp add: plan_inv_def plan_ok_def r Inr)
        ultimately show ?thesis using known by (simp add: create_inv_simp recorded_def sent_starts_def)
      qed
    qed
  next
    case (CPendingAt i why)
    then have i: "services s (sID ?svc) = Some ?svc" "cjSent j = []" "i \<le> nat ?n"
        "recorded ?env i (pending_container ?env ?svc) (cjInfos j) s" using inv by (simp_all add: create_inv_simp)
    show ?thesis
    proof (cases "int i < ?n")
      case True
      let ?c = "pending_container ?env ?svc i"
      have c: "cID ?c = new_ctr_id ?env i" "cStatus ?c = ContainerPending" "cServiceID ?c = sID ?svc"
        by (simp_all add: pending_container_def)
      have s': "s' = s\<lparr>containers := (containers s)(new_ctr_id ?env i \<mapsto> ?c)\<rparr>"
          "j' = j\<lparr>cjPc := CPendingAt (Suc i) why, cjInfos := cjInfos j @ [[(''id'', cID ?c), (''status'', ContainerPending)]]\<rparr>"
        using step True apply_committed(1) [OF o(1) pending_container_ok [OF v], of sv i 0 ?env i s] c(1)
        by (simp_all add: CPendingAt Let_def AddContainer_def)
      have "recorded ?env (Suc i) (pending_container ?env ?svc) (cjInfos j @ [[(''id'', cID ?c), (''status'', ContainerPending)]]) s'"
        by (rule recorded_Suc [OF i(4)]) (use later [of _ i] True c in \<open>simp_all add: s'\<close>)
      then show ?thesis using i True create_effect_container [of i j ?c s] c(3) by (simp add: create_inv_simp s')
    next
      case False
      then have "s' = create_audit ?env (cjRequest j) ?svc ?n '' (pending)'' s"
          "j' = j\<lparr>cjPc := CDone (pending_answer ?svc (cjInfos j) why)\<rparr>" "i = nat ?n"
        using step i(3) by (simp_all add: CPendingAt Let_def)
      then show ?thesis using i
        by (auto simp: create_inv_simp created_as_answered_def create_audit_def recorded_def)
    qed
  next
    case (CScheduleAt i plan)
    then have i: "services s (sID ?svc) = Some ?svc" "plan_ok ?n plan" "i \<le> nat ?n"
        "recorded ?env i (\<lambda>k. replica_container ?env ?svc k (plan ! k)) (cjInfos j) s"
        "cjSent j = sent_starts ?svc (take i plan)" using inv by (simp_all add: create_inv_simp)
    show ?thesis
    proof (cases "int i < ?n")
      case True
      let ?c = "scheduled_container ?env ?svc i (plan ! i)"
      have len: "i < length plan" using True i(2) by (simp add: plan_ok_def)
      then have "valid_utf8 (nID (plan ! i))" using i(2) by (simp add: plan_ok_def)
      from apply_committed(1) [OF o(1) scheduled_container_ok [OF v this], of sv i 0 ?env i s]
      have s': "s' = s\<lparr>containers := (containers s)(new_ctr_id ?env i \<mapsto> ?c)\<rparr>" "j' = j\<lparr>cjPc := CCallAt i plan\<rparr>"
        using step True len by (simp_all add: CScheduleAt Let_def AddContainer_def scheduled_container_def)
      have "recorded ?env i (\<lambda>k. replica_container ?env ?svc k (plan ! k)) (cjInfos j) s'"
        by (rule recorded_keeps [OF i(4)]) (use later [of _ i] True in \<open>simp add: s'\<close>)
      moreover have "cServiceID ?c = sID ?svc" by (simp add: scheduled_container_def)
      ultimately show ?thesis using i True create_effect_container [of i j ?c s]
        by (simp add: create_inv_simp s')
    next
      case False
      then have "s' = create_audit ?env (cjRequest j) ?svc ?n '''' s"
          "j' = j\<lparr>cjPc := CDone (started_answer ?svc (cjInfos j))\<rparr>" "i = nat ?n"
        using step i(3) by (simp_all add: CScheduleAt Let_def)
      then show ?thesis using i
        by (auto simp: create_inv_simp created_as_answered_def create_audit_def recorded_def plan_ok_def
            intro!: exI [of _ plan])
    qed
  next
    case (CCallAt i plan)
    then have j: "j' = j\<lparr>cjPc := CRecordAt i plan (aeNet ?env i (nAddress (plan ! i)) (start_command ?svc)),
        cjSent := cjSent j @ [(nAddress (plan ! i), start_command ?svc)]\<rparr>" "s' = s"
      using step by (simp_all add: Let_def)
    have i: "i < length plan" using inv by (simp add: create_inv_simp CCallAt plan_ok_def)
    then show ?thesis using inv
      by (simp add: create_inv_simp CCallAt j sent_starts_def take_Suc_conv_app_nth)
  next
    case (CRecordAt i plan ans)
    then have i: "services s (sID ?svc) = Some ?svc" "plan_ok ?n plan" "i < nat ?n"
        "recorded ?env i (\<lambda>k. replica_container ?env ?svc k (plan ! k)) (cjInfos j) s"
        "cjSent j = sent_starts ?svc (take (Suc i) plan)"
        "containers s (new_ctr_id ?env i) = Some (scheduled_container ?env ?svc i (plan ! i))"
        "ans = aeNet ?env i (nAddress (plan ! i)) (start_command ?svc)" using inv by (simp_all add: create_inv_simp)
    have nd: "valid_utf8 (nID (plan ! i))" using i(2,3) by (simp add: plan_ok_def)
    obtain info where rec: "record_answer sv ?env ?svc i (plan ! i) ans s = (info, s')"
        and j: "j' = j\<lparr>cjPc := CScheduleAt (Suc i) plan, cjInfos := cjInfos j @ [info]\<rparr>"
      using step by (cases "record_answer sv ?env ?svc i (plan ! i) ans s") (simp add: CRecordAt Let_def)
    note s' = record_answer_effect [OF o(1,2) v nd i(6,7) rec]
    have "recorded ?env (Suc i) (\<lambda>k. replica_container ?env ?svc k (plan ! k)) (cjInfos j @ [info]) s'"
      by (rule recorded_Suc [OF i(4)]) (use s' later [of _ i] i(3) in auto)
    then show ?thesis using i s' create_effect_container [of i j "replica_container ?env ?svc i (plan ! i)" s]
      by (simp add: create_inv_simp j)
  next
    case (CDone out)
    then show ?thesis using step inv by simp
  qed
qed

text \<open>A deletion leaves the services and the containers of the creations alone.\<close>

fun delete_pending :: "delete_pc \<Rightarrow> container list" where
  "delete_pending (DNode i cs svc) = cs"
| "delete_pending (DKill i a c cs svc) = c # cs"
| "delete_pending (DStop i c cs svc) = c # cs"
| "delete_pending _ = []"

definition delete_inv :: "go_string set \<Rightarrow> go_string set \<Rightarrow> delete_job \<Rightarrow> bool" where
  "delete_inv A V d \<longleftrightarrow> all_committed (djEnv d) \<and> (\<forall>i. chooser (aeOrders (djEnv d) i)) \<and>
     valid_utf8 (djServiceID d) \<and> djServiceID d \<notin> V \<and>
     (\<forall>c\<in>set (delete_pending (djPc d)). cID c \<notin> A \<and> valid_utf8 (cID c))"

lemma delete_step_inv:
  assumes inv: "delete_inv A V d" and wf: "wf_state s" and "\<forall>c\<in>ran (containers s). valid_utf8 (cID c)"
    and "\<forall>k\<in>A. \<forall>c. containers s k = Some c \<longrightarrow> cServiceID c \<in> V"
    and step: "delete_step sv (d, s) = (d', s')"
  shows "delete_inv A V d' \<and> keeps A V s s' \<and> nodes s' = nodes s \<and>
    (\<forall>c\<in>ran (containers s'). valid_utf8 (cID c))"
proof (cases "djPc d")
  case (DList svc)
  let ?cs = "GetContainersByService (aeOrders (djEnv d) 0 (containers s)) (djServiceID d) s"
  have "iterates (aeOrders (djEnv d) 0 (containers s)) (containers s)"
    using inv wf by (simp add: delete_inv_def chooserD wf_state_def)
  then have cs: "set ?cs = {c \<in> ran (containers s). cServiceID c = djServiceID d}"
    by (auto simp: GetContainersByService_def)
  have "cID c \<notin> A \<and> valid_utf8 (cID c)" if c: "c \<in> set ?cs" for c
  proof -
    obtain k where k: "containers s k = Some c" using c cs by (auto simp: ran_def)
    then have "cID c = k" by (rule keyedD [OF wf_state_keyed(3) [OF wf]])
    then show ?thesis using k c cs assms(3,4) inv by (auto simp: delete_inv_def)
  qed
  then show ?thesis using assms by (auto simp: DList delete_inv_def Let_def)
next
  case (DStop i c cs svc)
  then have c: "cID c \<notin> A" "valid_utf8 (cID c)" "all_committed (djEnv d)" using inv by (simp_all add: delete_inv_def)
  then have "s' = snd (SetContainerStatus (cID c) ContainerStopped s)" "d' = d\<lparr>djPc := DNode (Suc i) cs svc\<rparr>"
    using step by (simp_all add: DStop Let_def apply_committed(2))
  then show ?thesis using inv c(1) assms(3)
    by (auto simp: DStop delete_inv_def keeps_def containers_SetContainerStatus ran_def split: if_splits)
next
  case (DRemove svc)
  then have "s' = RemoveService (djServiceID d) s" "d' = d\<lparr>djPc := DLog svc\<rparr>"
    using step inv by (simp_all add: Let_def delete_inv_def apply_committed(3))
  then show ?thesis using inv assms(3)
    by (auto simp: delete_inv_def keeps_def service_table.lookup_del DRemove)
next
  case (DNode i cs svc)
  then show ?thesis using assms
    by (cases cs) (auto simp: delete_inv_def Let_def split: if_splits option.splits)
qed (use assms in \<open>auto simp: delete_inv_def Let_def keeps_def split: option.splits\<close>)

section \<open>A server with many requests\<close>

definition creations :: "job list \<Rightarrow> create_job set" where
  "creations js = {j. Creating j \<in> set js}"

definition job_container_ids :: "job list \<Rightarrow> go_string set" where
  "job_container_ids js = (\<Union>j\<in>creations js. create_ids j)"

definition job_service_ids :: "job list \<Rightarrow> go_string set" where
  "job_service_ids js = (\<lambda>j. sID (cjService j)) ` creations js"

definition tidy :: "state \<Rightarrow> bool" where
  "tidy s \<longleftrightarrow> wf_state s \<and> (\<forall>nd\<in>ran (nodes s). valid_utf8 (nID nd)) \<and> (\<forall>c\<in>ran (containers s). valid_utf8 (cID c))"

text \<open>The rest of the program: it does not write the containers and services of these creations.\<close>

definition bystander :: "go_string set \<Rightarrow> go_string set \<Rightarrow> state \<Rightarrow> state \<Rightarrow> bool" where
  "bystander A V s s' \<longleftrightarrow> keeps A V s s' \<and> (tidy s \<longrightarrow> tidy s')"

text \<open>Creations by place: no two of them share an identifier.\<close>

definition apart :: "job list \<Rightarrow> bool" where
  "apart js \<longleftrightarrow> (\<forall>i<length js. \<forall>k<length js. \<forall>a b. i \<noteq> k \<longrightarrow> js ! i = Creating a \<longrightarrow> js ! k = Creating b \<longrightarrow>
     create_ids a \<inter> create_ids b = {} \<and> sID (cjService a) \<noteq> sID (cjService b))"

text \<open>What a job never changes about itself.\<close>

definition job_core :: "job \<Rightarrow> (api_env \<times> service \<times> int) option" where
  "job_core j = (case j of Creating c \<Rightarrow> Some (cjEnv c, cjService c, cjReplicas c) | Deleting d \<Rightarrow> None)"

definition job_inv :: "server \<Rightarrow> go_string set \<Rightarrow> go_string set \<Rightarrow> state \<Rightarrow> job \<Rightarrow> bool" where
  "job_inv sv A V s j \<longleftrightarrow>
     (case j of Creating c \<Rightarrow> create_ok sv c \<and> create_inv c s | Deleting d \<Rightarrow> delete_inv A V d)"

definition jobs_inv :: "server \<Rightarrow> job list \<Rightarrow> job list \<times> state \<Rightarrow> bool" where
  "jobs_inv sv js0 js_s \<longleftrightarrow> (case js_s of (js, s) \<Rightarrow>
     map job_core js = map job_core js0 \<and> tidy s \<and>
     (\<forall>j\<in>set js. job_inv sv (job_container_ids js0) (job_service_ids js0) s j) \<and>
     (\<forall>k\<in>job_container_ids js0. \<forall>c. containers s k = Some c \<longrightarrow> cServiceID c \<in> job_service_ids js0))"

lemma create_step_core:
  "create_step sv (c, s) = (c', s') \<Longrightarrow> cjEnv c' = cjEnv c \<and> cjService c' = cjService c \<and> cjReplicas c' = cjReplicas c"
  by (cases "cjPc c") (auto simp: Let_def case_prod_beta split: if_splits option.splits plan_pc.splits sum.splits)

lemma wf_create_step: "wf_state s \<Longrightarrow> wf_state (snd (create_step sv (c, s)))"
  by (cases "cjPc c")
    (auto simp: Let_def case_prod_beta record_answer_def create_audit_def
      intro: wf_RaftNode_Apply wf_AddService wf_apply wf_Log split: option.split plan_pc.split sum.split)

lemma wf_delete_step: "wf_state s \<Longrightarrow> wf_state (snd (delete_step sv (d, s)))"
  by (cases "djPc d") (auto simp: Let_def intro: wf_apply wf_Log split: list.split)

lemma job_core_creations:
  assumes "map job_core js = map job_core js0" and "i < length js" and "js ! i = Creating c"
  obtains c0 where "js0 ! i = Creating c0" "cjEnv c0 = cjEnv c" "cjService c0 = cjService c" "cjReplicas c0 = cjReplicas c"
proof -
  have "job_core (js ! i) = job_core (js0 ! i)" using assms(1,2) by (metis length_map nth_map)
  then show ?thesis using assms(3) that by (cases "js0 ! i") (auto simp: job_core_def)
qed

lemma creation_members:
  assumes "map job_core js = map job_core js0" and "i < length js" and "js ! i = Creating c"
  shows "create_ids c \<subseteq> job_container_ids js0" and "sID (cjService c) \<in> job_service_ids js0"
proof -
  obtain c0 where c0: "js0 ! i = Creating c0" "cjEnv c0 = cjEnv c" "cjService c0 = cjService c" "cjReplicas c0 = cjReplicas c"
    using assms by (rule job_core_creations)
  have "length js0 = length js" using assms(1) by (metis length_map)
  then have "c0 \<in> creations js0" using c0(1) assms(2) by (auto simp: creations_def) (metis nth_mem)
  then have "create_ids c0 \<subseteq> job_container_ids js0" "sID (cjService c0) \<in> job_service_ids js0"
    by (auto simp: job_container_ids_def job_service_ids_def)
  then show "create_ids c \<subseteq> job_container_ids js0" "sID (cjService c) \<in> job_service_ids js0"
    using c0 by (simp_all add: create_ids_def)
qed

text \<open>A step of one job keeps what the others have recorded.\<close>

lemma other_creation_kept:
  assumes core: "map job_core js = map job_core js0" and apart: "apart js0" and i: "i < length js" "k < length js" "i \<noteq> k"
    and jobs: "js ! i = Creating a" "js ! k = Creating b"
  shows "create_ids b \<subseteq> - create_ids a \<and> sID (cjService b) \<noteq> sID (cjService a)"
proof -
  obtain a0 where a0: "js0 ! i = Creating a0" "cjEnv a0 = cjEnv a" "cjService a0 = cjService a" "cjReplicas a0 = cjReplicas a"
    using core i(1) jobs(1) by (rule job_core_creations)
  obtain b0 where b0: "js0 ! k = Creating b0" "cjEnv b0 = cjEnv b" "cjService b0 = cjService b" "cjReplicas b0 = cjReplicas b"
    using core i(2) jobs(2) by (rule job_core_creations)
  have len: "length js0 = length js" using core by (metis length_map)
  then have "create_ids a0 \<inter> create_ids b0 = {} \<and> sID (cjService a0) \<noteq> sID (cjService b0)"
    using apart i a0(1) b0(1) unfolding apart_def by metis
  then show ?thesis using a0 b0 by (auto simp: create_ids_def)
qed

lemma create_effect_tidy:
  assumes "create_effect c s s'" and "tidy s" and "wf_state s'"
  shows "tidy s'"
proof -
  have "valid_utf8 (cID d)" if d: "d \<in> ran (containers s')" for d
  proof -
    obtain k where k: "containers s' k = Some d" using d by (auto simp: ran_def)
    then have id: "cID d = k" by (rule keyedD [OF wf_state_keyed(3) [OF assms(3)]])
    show ?thesis
    proof (cases "k \<in> create_ids c")
      case True
      then show ?thesis using id by (auto simp: create_ids_def)
    next
      case False
      then have "containers s k = Some d" using assms(1) k by (simp add: create_effect_def keeps_def)
      then show ?thesis using assms(2) by (auto simp: tidy_def ran_def)
    qed
  qed
  then show ?thesis using assms by (auto simp: tidy_def create_effect_def)
qed

lemma jobs_inv_create:
  assumes inv: "jobs_inv sv js0 (js, s)" and apart: "apart js0" and i: "i < length js" "js ! i = Creating c"
    and step: "create_step sv (c, s) = (c', s')"
  shows "jobs_inv sv js0 (js[i := Creating c'], s')"
proof -
  let ?A = "job_container_ids js0" and ?V = "job_service_ids js0"
  have core: "map job_core js = map job_core js0" and t: "tidy s" and own: "\<forall>k\<in>?A. \<forall>d. containers s k = Some d \<longrightarrow> cServiceID d \<in> ?V"
    and jobs: "\<And>k. k < length js \<Longrightarrow> job_inv sv ?A ?V s (js ! k)"
    using inv by (auto simp: jobs_inv_def)
  have c: "create_ok sv c" "create_inv c s" using jobs [OF i(1)] i(2) by (simp_all add: job_inv_def)
  have names: "\<forall>nd\<in>ran (nodes s). valid_utf8 (nID nd)" and wf: "wf_state s" using t by (simp_all add: tidy_def)
  have c': "create_inv c' s'" "create_effect c s s'" using create_step_inv [OF c names step] by simp_all
  note same = create_step_core [OF step]
  have ok': "create_ok sv c'" using c(1) same by (simp add: create_ok_def)
  have wf': "wf_state s'" using wf_create_step [OF wf, of sv c] step by simp
  note members = creation_members [OF core i]
  have "map job_core (js[i := Creating c']) = (map job_core js)[i := job_core (js ! i)]"
    using i same by (simp add: map_update job_core_def)
  then have core': "map job_core (js[i := Creating c']) = map job_core js0"
    using core i(1) by (metis length_map list_update_id nth_map)
  have "job_inv sv ?A ?V s' (js[i := Creating c'] ! k)" if k: "k < length js" for k
  proof (cases "k = i")
    case True
    then show ?thesis using c'(1) ok' i(1) by (simp add: job_inv_def)
  next
    case False
    show ?thesis
    proof (cases "js ! k")
      case (Creating b)
      then have b: "create_ok sv b" "create_inv b s" using jobs [OF k] by (simp_all add: job_inv_def)
      have "create_ids b \<subseteq> - create_ids c \<and> sID (cjService b) \<noteq> sID (cjService c)"
        using other_creation_kept [OF core apart i(1) k _ i(2) Creating] False by blast
      then have "keeps (create_ids b) {sID (cjService b)} s s'"
        using c'(2) by (auto simp: create_effect_def keeps_def)
      from create_inv_keeps [OF b(2,1) this] show ?thesis using False Creating b(1) by (simp add: job_inv_def)
    next
      case (Deleting d)
      then show ?thesis using jobs [OF k] False by (simp add: job_inv_def)
    qed
  qed
  moreover have "cServiceID d \<in> ?V" if "k \<in> ?A" "containers s' k = Some d" for k d
  proof (cases "containers s' k = containers s k")
    case True
    then show ?thesis using own that by auto
  next
    case False
    then have "k \<in> create_ids c" using c'(2) by (auto simp: create_effect_def keeps_def)
    then have "cServiceID d = sID (cjService c)" using c'(2) False that(2) by (fastforce simp: create_effect_def)
    then show ?thesis using members(2) by simp
  qed
  ultimately show ?thesis
    using core' create_effect_tidy [OF c'(2) t wf'] by (auto simp: jobs_inv_def in_set_conv_nth)
qed

lemma jobs_inv_kept:
  assumes "jobs_inv sv js0 (js, s)" and "keeps (job_container_ids js0) (job_service_ids js0) s s'" and "tidy s'"
  shows "jobs_inv sv js0 (js, s')"
proof -
  have "job_inv sv (job_container_ids js0) (job_service_ids js0) s' j" if j: "j \<in> set js" for j
  proof -
    obtain i where i: "i < length js" "js ! i = j" using j by (metis in_set_conv_nth)
    have inv: "job_inv sv (job_container_ids js0) (job_service_ids js0) s j" and core: "map job_core js = map job_core js0"
      using assms(1) j by (auto simp: jobs_inv_def)
    show ?thesis
    proof (cases j)
      case (Creating c)
      then have "keeps (create_ids c) {sID (cjService c)} s s'"
        using creation_members [OF core i(1)] i(2) assms(2) by (auto simp: keeps_def)
      then show ?thesis using inv Creating create_inv_keeps by (auto simp: job_inv_def)
    next
      case (Deleting d)
      then show ?thesis using inv by (simp add: job_inv_def)
    qed
  qed
  then show ?thesis using assms by (auto simp: jobs_inv_def keeps_def)
qed

lemma jobs_inv_delete:
  assumes inv: "jobs_inv sv js0 (js, s)" and i: "i < length js" "js ! i = Deleting d"
    and step: "delete_step sv (d, s) = (d', s')"
  shows "jobs_inv sv js0 (js[i := Deleting d'], s')"
proof -
  let ?A = "job_container_ids js0" and ?V = "job_service_ids js0"
  have core: "map job_core js = map job_core js0" and t: "tidy s" and own: "\<forall>k\<in>?A. \<forall>d. containers s k = Some d \<longrightarrow> cServiceID d \<in> ?V"
    and jobs: "\<And>j. j \<in> set js \<Longrightarrow> job_inv sv ?A ?V s j"
    using inv by (auto simp: jobs_inv_def)
  have "Deleting d \<in> set js" using i by (metis nth_mem)
  then have "delete_inv ?A ?V d" using jobs [of "Deleting d"] by (simp add: job_inv_def)
  from delete_step_inv [OF this _ _ own step] t
  have d': "delete_inv ?A ?V d'" "keeps ?A ?V s s'" "nodes s' = nodes s" "\<forall>c\<in>ran (containers s'). valid_utf8 (cID c)"
    by (simp_all add: tidy_def)
  have "wf_state s'" using wf_delete_step [of s sv d] t step by (simp add: tidy_def)
  then have "tidy s'" using t d'(3,4) by (simp add: tidy_def)
  from jobs_inv_kept [OF inv d'(2) this] have kept: "jobs_inv sv js0 (js, s')" .
  have "map job_core (js[i := Deleting d']) = (map job_core js)[i := job_core (js ! i)]"
    using i by (simp add: map_update job_core_def)
  then have "map job_core (js[i := Deleting d']) = map job_core js"
    using i(1) by (metis list_update_id length_map nth_map)
  moreover have "set (js[i := Deleting d']) \<subseteq> insert (Deleting d') (set js)" by (rule set_update_subset_insert)
  ultimately show ?thesis using kept d'(1) by (auto simp: jobs_inv_def job_inv_def)
qed

text \<open>A server at the start of its requests.\<close>

definition requests_start :: "server \<Rightarrow> job list \<Rightarrow> state \<Rightarrow> bool" where
  "requests_start sv js s \<longleftrightarrow> tidy s \<and> apart js \<and>
     (\<forall>j\<in>set js. case j of
        Creating c \<Rightarrow> create_ok sv c \<and> cjPc c = CSubmit \<and> cjInfos c = [] \<and> cjSent c = [] \<and>
          (\<forall>k\<in>create_ids c. containers s k = None)
      | Deleting d \<Rightarrow> djPc d = DGet \<and> delete_inv (job_container_ids js) (job_service_ids js) d)"

lemma requests_start_inv: "requests_start sv js s \<Longrightarrow> jobs_inv sv js (js, s)"
  by (fastforce simp: requests_start_def jobs_inv_def job_inv_def create_inv_simp job_container_ids_def creations_def
      split: job.splits)

lemma jobs_inv_run:
  assumes "(request_step sv R)\<^sup>*\<^sup>* (js, s) (js', s')" and "jobs_inv sv js0 (js, s)" and "apart js0"
    and "\<And>s s'. R s s' \<Longrightarrow> bystander (job_container_ids js0) (job_service_ids js0) s s'"
  shows "jobs_inv sv js0 (js', s')"
proof -
  have "jobs_inv sv js0 js_s" if "(request_step sv R)\<^sup>*\<^sup>* (js, s) js_s" for js_s
    using that
  proof (induction rule: rtranclp_induct)
    case base
    show ?case by (rule assms(2))
  next
    case (step x y)
    obtain xs t ys u where xy: "x = (xs, t)" "y = (ys, u)" by fastforce
    note IH = step.IH [unfolded xy]
    consider (serve) i j' where "i < length xs" "job_step sv (xs ! i, t) = (j', u)" "ys = xs[i := j']"
      | (other) "R t u" "ys = xs"
      using step.hyps(2) unfolding xy by (auto elim: request_step.cases)
    then show ?case
    proof cases
      case (serve i j')
      show ?thesis
      proof (cases "xs ! i")
        case (Creating c)
        obtain c' u' where "create_step sv (c, t) = (c', u')" by (metis prod.exhaust)
        then show ?thesis using jobs_inv_create [OF IH assms(3)] serve Creating
          by (auto simp: xy simp del: create_step.simps)
      next
        case (Deleting d)
        obtain d' u' where "delete_step sv (d, t) = (d', u')" by (metis prod.exhaust)
        then show ?thesis using jobs_inv_delete [OF IH] serve Deleting
          by (auto simp: xy simp del: delete_step.simps)
      qed
    next
      case other
      then have "bystander (job_container_ids js0) (job_service_ids js0) t u" using assms(4) by blast
      moreover have "tidy t" using IH by (simp add: jobs_inv_def)
      ultimately show ?thesis using jobs_inv_kept [OF IH] other by (simp add: xy bystander_def)
    qed
  qed
  then show ?thesis using assms(1) by blast
qed

end
