(* ===== verification/Concurrency.thy ===== *)
theory Concurrency
  imports Jobs
begin

text \<open>
  What requests that are handled at the same time can rely on, and what not. The answer to a creation stays
  true whatever the interleaving, as long as nobody else writes its service and its containers. But what
  one request has planned or listed is not safe from the others: the handlers hold no lock between their
  steps, and the races that follow are runs of the model.
\<close>

section \<open>Runs of a single job\<close>


text \<open>
  The start of a creation on a server that has other jobs: up to the point where the service is in the
  log, and up to the point where the plan is made.
\<close>

lemma run_submit:
  assumes "create_ok sv c" and "cjPc c = CSubmit"
  shows "reaches (job_step sv) (Creating c, s) (Creating (c\<lparr>cjPc := CPlanning PPool\<rparr>), AddService (cjService c) s)"
proof -
  have "all_committed (cjEnv c)" "service_ok (cjService c)" using assms(1) by (simp_all add: create_ok_def)
  then have "create_step sv (c, s) = (c\<lparr>cjPc := CPlanning PPool\<rparr>, AddService (cjService c) s)"
    using assms(2) commit_AddService [of "cjService c" s] by (simp add: Let_def all_committed_def)
  from job_alone(1) [OF reaches_one [where f = "create_step sv", OF this]] show ?thesis .
qed

lemma run_plan:
  assumes "cjPc c = CPlanning PPool" and "wf_state s"
    and "Plan (svBalancer sv) (\<lambda>i. aeOrders (cjEnv c) i (containers s)) s (cjService c) (cjReplicas c) = Inr plan"
  shows "reaches (job_step sv) (Creating c, s) (Creating (c\<lparr>cjPc := CScheduleAt 0 plan\<rparr>), s)"
proof -
  have "c\<lparr>cjPc := CPlanning PPool\<rparr> = c" using assms(1) by (cases c) simp
  moreover have "create_step sv (c\<lparr>cjPc := CPlanning (PDone (Inr plan))\<rparr>, s) = (c\<lparr>cjPc := CScheduleAt 0 plan\<rparr>, s)"
    by (simp add: Let_def)
  ultimately have "reaches (create_step sv) (c, s) (c\<lparr>cjPc := CScheduleAt 0 plan\<rparr>, s)"
    using steps_planning [where p = PPool and r = "Inr plan" and sv = sv and j = c and s = s]
      steps_Plan [OF assms(2), of "svBalancer sv" "aeOrders (cjEnv c)" "cjService c" "cjReplicas c"] assms(3)
    by (metis reaches_then reaches_refl)
  then show ?thesis by (rule job_alone(1))
qed

text \<open>The rest of a creation that has its plan.\<close>

lemma run_started:
  assumes "create_ok sv c" and "cjInfos c = []" and "cjSent c = []" and plan: "plan_ok (cjReplicas c) plan"
    and "cjPc c = CScheduleAt 0 plan"
  shows "\<exists>c'. reaches (job_step sv) (Creating c, s) (Creating c',
      create_audit (cjEnv c) (cjRequest c) (cjService c) (cjReplicas c) ''''
        (s\<lparr>containers := containers s ++ map_of (rev (planned (cjEnv c) (cjService c) 0 plan))\<rparr>)) \<and>
    cjPc c' = CDone (started_answer (cjService c) (cjInfos c')) \<and> cjSent c' = sent_starts (cjService c) plan"
proof -
  let ?env = "cjEnv c" and ?svc = "cjService c"
  have ok: "all_committed ?env" "valid_answers ?env" "valid_utf8 (sID ?svc)" "int (length plan) = cjReplicas c"
    using assms(1) plan by (simp_all add: create_ok_def service_ok_def plan_ok_def)
  obtain infos ms t where p: "create_replicas sv ?env ?svc 0 plan ([], []) s = ((infos, ms), t)"
    by (metis prod.exhaust)
  have t: "t = s\<lparr>containers := containers s ++ map_of (rev (planned ?env ?svc 0 plan))\<rparr>" "ms = sent_starts ?svc plan"
    using create_replicas_committed [OF ok(1-3), of plan sv 0 "[]" "[]" s] plan p
    by (simp_all add: plan_ok_def sent_starts_def)
  let ?last = "c\<lparr>cjPc := CScheduleAt (length plan) plan, cjInfos := infos, cjSent := ms\<rparr>"
  have "reaches (create_step sv) (c\<lparr>cjPc := CScheduleAt 0 plan\<rparr>, s) (?last, t)"
    using assms(2,3) ok(4) p by (intro steps_replicas) simp_all
  moreover have "c\<lparr>cjPc := CScheduleAt 0 plan\<rparr> = c" using assms(5) by (cases c) simp
  moreover have "create_step sv (?last, t) = (?last\<lparr>cjPc := CDone (started_answer ?svc infos)\<rparr>,
      create_audit ?env (cjRequest c) ?svc (cjReplicas c) '''' t)"
    using ok(4) by (simp add: Let_def)
  ultimately have "reaches (create_step sv) (c, s) (?last\<lparr>cjPc := CDone (started_answer ?svc infos)\<rparr>,
      create_audit ?env (cjRequest c) ?svc (cjReplicas c) '''' t)"
    by (metis reaches_then reaches_refl)
  from job_alone(1) [OF this] show ?thesis
    by (intro exI [of _ "?last\<lparr>cjPc := CDone (started_answer ?svc infos)\<rparr>"]) (simp add: t)
qed

lemma working_copies_cong:
  assumes "containers t = containers s" and "\<forall>c\<in>ran (containers s). services t (cServiceID c) = services s (cServiceID c)"
  shows "working_copies ord i t pns acc = working_copies ord i s pns acc"
proof -
  have active: "GetActiveContainersByNode o' n t = GetActiveContainersByNode o' n s" for o' n
    by (simp add: GetActiveContainersByNode_def assms(1))
  have ports: "collect_ports t cs P = collect_ports s cs P" if "set cs \<subseteq> ran (containers s)" for cs P
    using that assms(2) by (induction cs arbitrary: P) (auto simp: GetService_def split: option.split)
  have "set (GetActiveContainersByNode o' n s) \<subseteq> ran (containers s)" for o' n
    by (auto simp: GetActiveContainersByNode_def set_range_vals ran_def)
  then have same: "collect_ports t (GetActiveContainersByNode o' n s) P = collect_ports s (GetActiveContainersByNode o' n s) P"
    for o' n P by (rule ports)
  show ?thesis
  proof (induction pns arbitrary: i acc)
    case (Cons pn pns)
    then show ?case by (cases acc) (simp add: active same Let_def)
  qed simp
qed

text \<open>A plan depends on the nodes, the pools, and the containers with their services.\<close>

lemma Plan_cong:
  assumes "nodes t = nodes s" and "pools t = pools s" and "containers t = containers s"
    and "\<forall>c\<in>ran (containers s). services t (cServiceID c) = services s (cServiceID c)"
  shows "Plan lb ord t svc n = Plan lb ord s svc n"
  using assms(1,2) working_copies_cong [OF assms(3,4)]
  by (simp add: Plan_place_all GetPoolNodes_def cong: option.case_cong)

text \<open>The containers of two creations, from their plans.\<close>

lemma planned_recorded:
  assumes "create_ok sv c" and "plan_ok (cjReplicas c) plan" and "k < nat (cjReplicas c)"
  shows "map_of (rev (planned (cjEnv c) (cjService c) 0 plan)) (new_ctr_id (cjEnv c) k) =
    Some (replica_container (cjEnv c) (cjService c) k (plan ! k))"
  using assms by (intro planned_lookup) (simp_all add: create_ok_def plan_ok_def)

lemma planned_elsewhere:
  assumes "plan_ok (cjReplicas c) plan" and "k \<notin> create_ids c"
  shows "map_of (rev (planned (cjEnv c) (cjService c) 0 plan)) k = None"
proof -
  have "dom (map_of (rev (planned (cjEnv c) (cjService c) 0 plan))) = create_ids c"
    using assms(1) by (simp only: planned_keys) (simp add: plan_ok_def create_ids_def)
  with assms(2) show ?thesis by (metis domIff)
qed

lemma Plan_plan_ok:
  assumes "Plan (svBalancer sv) (\<lambda>i. aeOrders env i (containers s)) s svc n = Inr plan" and "0 < n"
    and "\<exists>f. svBalancer sv = lb_of_flag f" and "\<forall>i. chooser (aeOrders env i)" and "tidy s"
  shows "plan_ok n plan"
proof -
  obtain f where f: "svBalancer sv = lb_of_flag f" using assms(3) by blast
  have wf: "wf_state s" using assms(5) by (simp add: tidy_def)
  have orders: "orders (\<lambda>i. aeOrders env i (containers s)) (containers s)" by (rule chooser_orders [OF assms(4) wf])
  have "valid_utf8 (nID nd)" if nd: "nd \<in> set plan" for nd
  proof -
    obtain n0 where n0: "n0 \<in> set (alive_pool_nodes (sPoolID svc) s)" "nID nd = nID n0"
      using flag.Plan_members [OF assms(1) [unfolded f] orders nd] by blast
    then have "n0 \<in> ran (nodes s)" using alive_pool_nodes_props(2) [OF wf] by (auto simp: ran_def)
    then show ?thesis using assms(5) n0(2) by (simp add: tidy_def)
  qed
  then show ?thesis using flag.Plan_length [OF assms(1) [unfolded f] orders] assms(2) by (auto simp: plan_ok_def)
qed

section \<open>Properties\<close>


text \<open>
  C20: a deletion can miss the containers of a creation that is under way. The service is known as soon as
  its log entry is committed, the containers only later: a deletion in between finds none, sends no kill
  command, and answers that the service is deleted; the creation goes on and answers that it has started
  the service. In the end there is no service, so that no request can delete it, but its containers are
  there, with the statuses of the answers of the workers.
\<close>

theorem deletion_misses_a_creation:
  assumes c: "create_ok sv c" "cjPc c = CSubmit" "cjInfos c = []" "cjSent c = []" "\<forall>i. chooser (aeOrders (cjEnv c) i)"
    and s: "tidy s" "\<forall>d\<in>ran (containers s). cServiceID d \<noteq> sID (cjService c)" "services s (sID (cjService c)) = None"
    and plan: "Plan (svBalancer sv) (\<lambda>i. aeOrders (cjEnv c) i (containers s)) s (cjService c) (cjReplicas c) = Inr plan"
    and d: "all_committed env" "chooser (aeOrders env 0)"
  shows "\<exists>c' d' t. (request_step sv R)\<^sup>*\<^sup>*
      ([Creating c, Deleting (delete_job_for env (sID (cjService c)) r)], s) ([Creating c', Deleting d'], t) \<and>
    cjPc c' = CDone (started_answer (cjService c) (cjInfos c')) \<and>
    job_answer (Deleting d') = Some (writeJSON 200 (enc_strmap [(''status'', ''deleted'')])) \<and> djSent d' = [] \<and>
    services t (sID (cjService c)) = None \<and>
    (\<forall>k<nat (cjReplicas c). containers t (new_ctr_id (cjEnv c) k) =
       Some (replica_container (cjEnv c) (cjService c) k (plan ! k)))"
proof -
  let ?svc = "cjService c" and ?v = "sID (cjService c)"
  let ?d = "delete_job_for env ?v r"
  let ?s1 = "AddService ?svc s"
  have v: "valid_utf8 ?v" and n: "0 < cjReplicas c" "\<exists>f. svBalancer sv = lb_of_flag f"
    using c(1) by (simp_all add: create_ok_def service_ok_def)
  have wf: "wf_state s" "wf_state ?s1" using s(1) by (simp_all add: tidy_def wf_AddService)
  have s1: "services ?s1 ?v = Some ?svc" "containers ?s1 = containers s"
    by (simp_all add: service_table.lookup_add)
  obtain out msgs s2 where del: "deleteService sv env ?v r ?s1 = (out, msgs, s2)" by (metis prod.exhaust)
  have "\<forall>d\<in>ran (containers ?s1). valid_utf8 (cID d)" using s(1) by (simp add: tidy_def)
  note eff = deleteService_effect [OF d(1) v d(2) wf(2) this del]
  have none: "map_option (\<lambda>e. if cServiceID e = ?v then e\<lparr>cStatus := ContainerStopped\<rparr> else e) (containers s k) = containers s k" for k
    using s(2) by (cases "containers s k") (auto simp: ran_def)
  have "services s2 = (services s)(?v := None)" "nodes s2 = nodes s" "containers s2 = containers s"
    using eff by (simp_all add: s1 fun_eq_iff none service_table.lookup_add)
  moreover have "pools s2 = pools s" using same_base_deleteService [of ?s1 sv env ?v r] del by (simp add: same_base_def)
  moreover have "GetContainersByService (aeOrders env 0 (containers s)) ?v ?s1 = []"
    using s(2) by (auto simp: GetContainersByService_def filter_empty_conv set_range_vals ran_def)
  ultimately have s2: "services s2 = services s" "nodes s2 = nodes s" "containers s2 = containers s" "pools s2 = pools s"
    and out: "out = writeJSON 200 (enc_strmap [(''status'', ''deleted'')])" "msgs = []"
    using eff s(3) del by (simp_all add: s1 fun_upd_idem deleteService_def GetService_def Let_def case_prod_beta)
  have wf2: "wf_state s2" using wf_deleteService [OF wf(2), of sv env ?v r] del by simp
  obtain d' where d': "djPc d' = DDone out" "djSent d' = msgs" "reaches (delete_step sv) (?d, ?s1) (d', s2)"
    using steps_deleteService [OF del] by blast
  have pl: "Plan (svBalancer sv) (\<lambda>i. aeOrders (cjEnv c) i (containers s2)) s2 ?svc (cjReplicas c) = Inr plan"
    using plan Plan_cong [OF s2(2,4,3)] by (simp add: s2)
  have ok: "plan_ok (cjReplicas c) plan" by (rule Plan_plan_ok [OF plan n(1,2) c(5) s(1)])
  let ?c1 = "c\<lparr>cjPc := CPlanning PPool\<rparr>" and ?c2 = "c\<lparr>cjPc := CScheduleAt 0 plan\<rparr>"
  have p2: "reaches (job_step sv) (Creating ?c1, s2) (Creating ?c2, s2)"
    using run_plan [of ?c1 s2 sv plan] wf2 pl by simp
  have "create_ok sv ?c2" using c(1) by (simp add: create_ok_def)
  from run_started [OF this, of plan s2] c(3,4) ok obtain c' where
    c': "reaches (job_step sv) (Creating ?c2, s2) (Creating c', create_audit (cjEnv c) (cjRequest c) ?svc (cjReplicas c) ''''
        (s2\<lparr>containers := containers s2 ++ map_of (rev (planned (cjEnv c) ?svc 0 plan))\<rparr>))"
      "cjPc c' = CDone (started_answer ?svc (cjInfos c'))" by auto
  let ?t = "create_audit (cjEnv c) (cjRequest c) ?svc (cjReplicas c) ''''
        (s2\<lparr>containers := containers s2 ++ map_of (rev (planned (cjEnv c) ?svc 0 plan))\<rparr>)"
  have "(request_step sv R)\<^sup>*\<^sup>* ([Creating c, Deleting ?d], s) ([Creating ?c1, Deleting ?d], ?s1)"
    using run_job [of sv "[Creating c, Deleting ?d]" 0 s _ _ R] run_submit [OF c(1,2), of s] by simp
  also have "(request_step sv R)\<^sup>*\<^sup>* ([Creating ?c1, Deleting ?d], ?s1) ([Creating ?c1, Deleting d'], s2)"
    using run_job [of sv "[Creating ?c1, Deleting ?d]" 1 ?s1 _ _ R] job_alone(2) [OF d'(3)] by simp
  also have "(request_step sv R)\<^sup>*\<^sup>* ([Creating ?c1, Deleting d'], s2) ([Creating c', Deleting d'], ?t)"
    using run_job [of sv "[Creating ?c1, Deleting d']" 0 s2 _ _ R] reaches_trans [OF p2 c'(1)] by simp
  finally have run: "(request_step sv R)\<^sup>*\<^sup>* ([Creating c, Deleting ?d], s) ([Creating c', Deleting d'], ?t)" .
  have "services ?t ?v = None" using s2(1) s(3) by (simp add: create_audit_def)
  moreover have "containers ?t (new_ctr_id (cjEnv c) k) = Some (replica_container (cjEnv c) ?svc k (plan ! k))"
    if "k < nat (cjReplicas c)" for k
    using planned_recorded [OF c(1) ok that] by (simp add: create_audit_def map_add_def)
  ultimately show ?thesis using run c'(2) d'(1,2) out
    by (intro exI [of _ c'] exI [of _ d'] exI [of _ ?t]) simp
qed

text \<open>
  C21: plans that are made at the same time do not see each other. Two creations that ask for the same
  port can both be answered that their replicas were placed, although a plan never puts a port twice on a
  node: when both plans are made before either of them has recorded a container, each is the plan the
  request would get alone, and their workers are told to open the same port of the same node. The
  replicas of both services are in the state on that node.
\<close>

theorem concurrent_creations_share_a_port:
  assumes a: "create_ok sv a" "cjPc a = CSubmit" "cjInfos a = []" "cjSent a = []" "\<forall>i. chooser (aeOrders (cjEnv a) i)"
    and b: "create_ok sv b" "cjPc b = CSubmit" "cjInfos b = []" "cjSent b = []" "\<forall>i. chooser (aeOrders (cjEnv b) i)"
    and s: "tidy s" "\<forall>d\<in>ran (containers s). cServiceID d \<notin> {sID (cjService a), sID (cjService b)}"
    and apart: "create_ids a \<inter> create_ids b = {}" "sID (cjService a) \<noteq> sID (cjService b)"
    and pa: "Plan (svBalancer sv) (\<lambda>i. aeOrders (cjEnv a) i (containers s)) s (cjService a) (cjReplicas a) = Inr pa"
    and pb: "Plan (svBalancer sv) (\<lambda>i. aeOrders (cjEnv b) i (containers s)) s (cjService b) (cjReplicas b) = Inr pb"
    and clash: "p \<in> set (sPorts (cjService a)) \<inter> set (sPorts (cjService b))" "x < length pa" "y < length pb"
      "nID (pa ! x) = nID (pb ! y)"
  shows "\<exists>ca cb t. (request_step sv R)\<^sup>*\<^sup>* ([Creating a, Creating b], s) ([Creating ca, Creating cb], t) \<and>
    cjPc ca = CDone (started_answer (cjService a) (cjInfos ca)) \<and>
    cjPc cb = CDone (started_answer (cjService b) (cjInfos cb)) \<and>
    (nAddress (pa ! x), start_command (cjService a)) \<in> set (cjSent ca) \<and> p \<in> set (cmPorts (start_command (cjService a))) \<and>
    (nAddress (pb ! y), start_command (cjService b)) \<in> set (cjSent cb) \<and> p \<in> set (cmPorts (start_command (cjService b))) \<and>
    containers t (new_ctr_id (cjEnv a) x) = Some (replica_container (cjEnv a) (cjService a) x (pa ! x)) \<and>
    containers t (new_ctr_id (cjEnv b) y) = Some (replica_container (cjEnv b) (cjService b) y (pb ! y)) \<and>
    cNodeID (replica_container (cjEnv a) (cjService a) x (pa ! x)) = nID (pa ! x) \<and>
    cNodeID (replica_container (cjEnv b) (cjService b) y (pb ! y)) = nID (pa ! x)"
proof -
  let ?s1 = "AddService (cjService a) s"
  let ?s2 = "AddService (cjService b) ?s1"
  have wf: "wf_state ?s2" using s(1) by (simp add: tidy_def wf_AddService)
  have same: "nodes ?s2 = nodes s" "pools ?s2 = pools s" "containers ?s2 = containers s"
    "\<forall>d\<in>ran (containers s). services ?s2 (cServiceID d) = services s (cServiceID d)"
    using s(2) by (auto simp: service_table.lookup_add)
  have plans: "Plan (svBalancer sv) (\<lambda>i. aeOrders (cjEnv a) i (containers ?s2)) ?s2 (cjService a) (cjReplicas a) = Inr pa"
    "Plan (svBalancer sv) (\<lambda>i. aeOrders (cjEnv b) i (containers ?s2)) ?s2 (cjService b) (cjReplicas b) = Inr pb"
    unfolding Plan_cong [OF same] using pa pb by (simp_all add: same(3))
  have n: "0 < cjReplicas a" "0 < cjReplicas b" "\<exists>f. svBalancer sv = lb_of_flag f"
    using a(1) b(1) by (simp_all add: create_ok_def)
  have ok: "plan_ok (cjReplicas a) pa" "plan_ok (cjReplicas b) pb"
    by (rule Plan_plan_ok [OF pa n(1,3) a(5) s(1)], rule Plan_plan_ok [OF pb n(2,3) b(5) s(1)])
  let ?a1 = "a\<lparr>cjPc := CPlanning PPool\<rparr>" and ?a2 = "a\<lparr>cjPc := CScheduleAt 0 pa\<rparr>"
  let ?b1 = "b\<lparr>cjPc := CPlanning PPool\<rparr>" and ?b2 = "b\<lparr>cjPc := CScheduleAt 0 pb\<rparr>"
  let ?u = "create_audit (cjEnv a) (cjRequest a) (cjService a) (cjReplicas a) ''''
    (?s2\<lparr>containers := containers ?s2 ++ map_of (rev (planned (cjEnv a) (cjService a) 0 pa))\<rparr>)"
  let ?t = "create_audit (cjEnv b) (cjRequest b) (cjService b) (cjReplicas b) ''''
    (?u\<lparr>containers := containers ?u ++ map_of (rev (planned (cjEnv b) (cjService b) 0 pb))\<rparr>)"
  have "create_ok sv ?a2" "create_ok sv ?b2" using a(1) b(1) by (simp_all add: create_ok_def)
  then obtain ca cb where ca: "reaches (job_step sv) (Creating ?a2, ?s2) (Creating ca, ?u)"
      "cjPc ca = CDone (started_answer (cjService a) (cjInfos ca))" "cjSent ca = sent_starts (cjService a) pa"
    and cb: "reaches (job_step sv) (Creating ?b2, ?u) (Creating cb, ?t)"
      "cjPc cb = CDone (started_answer (cjService b) (cjInfos cb))" "cjSent cb = sent_starts (cjService b) pb"
    using run_started [of sv ?a2 pa ?s2] run_started [of sv ?b2 pb ?u] a(3,4) b(3,4) ok by auto
  have r1: "(request_step sv R)\<^sup>*\<^sup>* ([Creating a, Creating b], s) ([Creating ?a1, Creating b], ?s1)"
    using run_job [of sv "[Creating a, Creating b]" 0 s _ _ R] run_submit [OF a(1,2), of s] by simp
  have r2: "(request_step sv R)\<^sup>*\<^sup>* ([Creating ?a1, Creating b], ?s1) ([Creating ?a1, Creating ?b1], ?s2)"
    using run_job [of sv "[Creating ?a1, Creating b]" 1 ?s1 _ _ R] run_submit [OF b(1,2), of ?s1] by simp
  have r3: "(request_step sv R)\<^sup>*\<^sup>* ([Creating ?a1, Creating ?b1], ?s2) ([Creating ?a2, Creating ?b1], ?s2)"
    using run_job [of sv "[Creating ?a1, Creating ?b1]" 0 ?s2 _ _ R] run_plan [of ?a1 ?s2 sv pa] wf plans(1) by simp
  have r4: "(request_step sv R)\<^sup>*\<^sup>* ([Creating ?a2, Creating ?b1], ?s2) ([Creating ?a2, Creating ?b2], ?s2)"
    using run_job [of sv "[Creating ?a2, Creating ?b1]" 1 ?s2 _ _ R] run_plan [of ?b1 ?s2 sv pb] wf plans(2) by simp
  have r5: "(request_step sv R)\<^sup>*\<^sup>* ([Creating ?a2, Creating ?b2], ?s2) ([Creating ca, Creating ?b2], ?u)"
    using run_job [of sv "[Creating ?a2, Creating ?b2]" 0 ?s2 _ _ R] ca(1) by simp
  have r6: "(request_step sv R)\<^sup>*\<^sup>* ([Creating ca, Creating ?b2], ?u) ([Creating ca, Creating cb], ?t)"
    using run_job [of sv "[Creating ca, Creating ?b2]" 1 ?u _ _ R] cb(1) by simp
  have run: "(request_step sv R)\<^sup>*\<^sup>* ([Creating a, Creating b], s) ([Creating ca, Creating cb], ?t)"
    by (rule rtranclp_trans [OF r1 rtranclp_trans [OF r2 rtranclp_trans [OF r3 rtranclp_trans [OF r4 rtranclp_trans [OF r5 r6]]]]])
  have xy: "x < nat (cjReplicas a)" "y < nat (cjReplicas b)" using clash(2,3) ok by (simp_all add: plan_ok_def)
  then have "new_ctr_id (cjEnv a) x \<notin> create_ids b" using apart(1) by (auto simp: create_ids_def)
  then have "containers ?t (new_ctr_id (cjEnv a) x) = Some (replica_container (cjEnv a) (cjService a) x (pa ! x))"
    using planned_elsewhere [OF ok(2)] planned_recorded [OF a(1) ok(1) xy(1)] by (simp add: create_audit_def map_add_def)
  moreover have "containers ?t (new_ctr_id (cjEnv b) y) = Some (replica_container (cjEnv b) (cjService b) y (pb ! y))"
    using planned_recorded [OF b(1) ok(2) xy(2)] by (simp add: create_audit_def map_add_def)
  moreover have "(nAddress (pa ! x), start_command (cjService a)) \<in> set (cjSent ca)"
    "(nAddress (pb ! y), start_command (cjService b)) \<in> set (cjSent cb)"
    using clash(2,3) by (simp_all add: ca(3) cb(3) sent_starts_def)
  moreover have "p \<in> set (cmPorts (start_command (cjService a)))" "p \<in> set (cmPorts (start_command (cjService b)))"
    using clash(1) by (simp_all add: start_command_def)
  ultimately show ?thesis using run ca(2) cb(2) clash(4)
    by (intro exI [of _ ca] exI [of _ cb] exI [of _ ?t]) (simp add: replica_container_node)
qed

text \<open>
  C22: a worker that is slow to answer leaves a replica too many. When the node of a replica is declared DEAD
  while its worker is still starting it, the recovery starts the replica elsewhere and sets the container
  to STOPPED; when the worker answers after all, the handler of the request writes its container again as
  RUNNING on the dead node. Then the service has one live container more than before, and two of them are
  RUNNING for one replica.
\<close>

theorem slow_start_duplicates_a_replica:
  assumes c: "create_ok sv c" "create_inv c s" "cjPc c = CRecordAt i plan (Inr resp)" "rsSuccess resp"
    and s: "wf_state s" "names_ok s" "containers s (new_id e) = None"
    and e: "committed e" "d = scheduled_container (cjEnv c) (cjService c) i (plan ! i)"
    and moved: "containers (recover_container (lb_of_flag f) e d s) (new_ctr_id (cjEnv c) i) =
      Some (d\<lparr>cStatus := ContainerStopped\<rparr>)"
  shows "\<exists>c' t a b. (request_step sv (\<lambda>x y. y = recover_container (lb_of_flag f) e d x))\<^sup>*\<^sup>* ([Creating c], s) ([Creating c'], t) \<and>
    card (replicas_of (sID (cjService c)) t) = card (replicas_of (sID (cjService c)) s) + 1 \<and>
    containers t (new_ctr_id (cjEnv c) i) = Some a \<and> containers t (new_id e) = Some b \<and>
    cStatus a = ContainerRunning \<and> cStatus b = ContainerRunning \<and>
    cServiceID a = sID (cjService c) \<and> cServiceID b = sID (cjService c) \<and> cNodeID a = nID (plan ! i)"
proof -
  let ?env = "cjEnv c" and ?svc = "cjService c" and ?id = "new_ctr_id (cjEnv c) i"
  let ?u = "recover_container (lb_of_flag f) e d s"
  let ?R = "\<lambda>x y. y = recover_container (lb_of_flag f) e d x"
  have inv: "i < nat (cjReplicas c)" "plan_ok (cjReplicas c) plan" "containers s ?id = Some d"
      "Inr resp = aeNet ?env i (nAddress (plan ! i)) (start_command ?svc)"
    using c(2,3) by (simp_all add: create_inv_simp e(2))
  have ok: "all_committed ?env" "valid_answers ?env" "valid_utf8 (sID ?svc)"
    using c(1) by (simp_all add: create_ok_def service_ok_def)
  have nd: "valid_utf8 (nID (plan ! i))" using inv(1,2) by (simp add: plan_ok_def)
  have d: "cID d = ?id" "cServiceID d = sID ?svc" "cStatus d = ContainerScheduled" "valid_utf8 (cID d)" "live d"
    by (simp_all add: e(2) scheduled_container_def live_def)
  have u: "wf_state ?u" by (rule wf_recover_container [OF s(1)])
  from e(1) s(1,2) d(4) obtain b where b: "containers ?u = (with_status ?id ContainerStopped s)(cID b \<mapsto> b)"
      "cID b = new_id e" "cServiceID b = sID ?svc" "cStatus b = ContainerRunning"
  proof (cases rule: recover_container_effect [where f = f])
    case (waiting st)
    then have "d\<lparr>cStatus := st\<rparr> = d\<lparr>cStatus := ContainerStopped\<rparr>" using moved inv(3) by (simp add: d(1) with_status_simps)
    from arg_cong [OF this, of cStatus] show ?thesis using waiting(1) by (auto simp: container_status_defs)
  next
    case (moved b)
    then show ?thesis using that [of b] d by simp
  qed
  have new: "new_id e \<noteq> ?id" using inv(3) s(3) by auto
  have card: "card (replicas_of (sID ?svc) ?u) = card (replicas_of (sID ?svc) s)"
    by (rule replicas_moved [OF b(1) s(1) inv(3) d(5)]) (use b s(3) d(2) in simp_all)
  have "applyAddContainer sv (aeRaft ?env i 1) (d\<lparr>cDockerID := rsContainerID resp, cStatus := ContainerRunning\<rparr>) ?u =
      AddContainer (d\<lparr>cDockerID := rsContainerID resp, cStatus := ContainerRunning\<rparr>) ?u"
  proof (rule apply_committed(1) [OF ok(1)])
    have "valid_utf8 (rsContainerID resp)" using ok(2) inv(4) by (metis valid_answers_def)
    then show "container_ok (d\<lparr>cDockerID := rsContainerID resp, cStatus := ContainerRunning\<rparr>)"
      using scheduled_container_ok [OF ok(3) nd, of ?env i] by (simp add: container_ok_def e(2))
  qed
  then obtain info where rec: "record_answer sv ?env ?svc i (plan ! i) (Inr resp) ?u =
      (info, AddContainer (d\<lparr>cDockerID := rsContainerID resp, cStatus := ContainerRunning\<rparr>) ?u)"
    using c(4) by (simp add: record_answer_def e(2) [symmetric] Let_def)
  let ?a = "d\<lparr>cDockerID := rsContainerID resp, cStatus := ContainerRunning\<rparr>"
  let ?t = "AddContainer ?a ?u"
  let ?c' = "c\<lparr>cjPc := CScheduleAt (Suc i) plan, cjInfos := cjInfos c @ [info]\<rparr>"
  have "job_step sv (Creating c, ?u) = (Creating ?c', ?t)" using c(3) rec by (simp add: Let_def)
  then have "request_step sv ?R ([Creating c], ?u) ([Creating ?c'], ?t)"
    using request_step.serve [of 0 "[Creating c]" sv ?u "Creating ?c'" ?t ?R] by (simp del: job_step.simps)
  moreover have "request_step sv ?R ([Creating c], s) ([Creating c], ?u)" by (rule request_step.other) simp
  ultimately have run: "(request_step sv ?R)\<^sup>*\<^sup>* ([Creating c], s) ([Creating ?c'], ?t)"
    by (meson converse_rtranclp_into_rtranclp r_into_rtranclp)
  have t: "containers ?t k = (if k = ?id then Some ?a else containers ?u k)" for k
    using d(1) by (simp add: container_table.lookup_add)
  have dead: "?id \<notin> replicas_of (sID ?svc) ?u" using moved by (simp add: replicas_of_def live_def container_status_defs)
  have "replicas_of (sID ?svc) ?t = insert ?id (replicas_of (sID ?svc) ?u)"
    using d(2) by (auto simp: replicas_of_def t live_def)
  then have "card (replicas_of (sID ?svc) ?t) = card (replicas_of (sID ?svc) s) + 1"
    using dead card finite_replicas_of [OF u] by simp
  moreover have "containers ?t (new_id e) = Some b" using new b(1,2) by (simp add: t)
  moreover have "cNodeID ?a = nID (plan ! i)" by (simp add: e(2) scheduled_container_def)
  ultimately show ?thesis using run b(3,4) d(2) t [of ?id]
    by (intro exI [of _ ?c'] exI [of _ ?t] exI [of _ ?a] exI [of _ b]) simp
qed

section \<open>Witnesses\<close>

text \<open>A creation of one replica on the fixture's cluster, with random letters that are all the \<open>i\<close>-th.\<close>

definition fixture_job :: "nat \<Rightarrow> go_string \<Rightarrow> int list \<Rightarrow> create_job" where
  "fixture_job i v ports =
     \<lparr>cjEnv = (fixture_api_env 0 True)\<lparr>aeLetters := (\<lambda>_ _. i)\<rparr>, cjRequest = fixture_request fixture_create,
      cjService = zero_service\<lparr>sID := v, sImage := ''i'', sPoolID := ''pool-1'', sPorts := ports\<rparr>, cjReplicas = 1,
      cjPc = CSubmit, cjInfos = [], cjSent = []\<rparr>"

lemma fixture_job_simps [simp]:
  "cjReplicas (fixture_job i v ps) = 1" "cjPc (fixture_job i v ps) = CSubmit" "cjInfos (fixture_job i v ps) = []"
  "cjSent (fixture_job i v ps) = []" "sID (cjService (fixture_job i v ps)) = v" "sPorts (cjService (fixture_job i v ps)) = ps"
  "create_ids (fixture_job i v ps) = {generateID ''ctr'' (\<lambda>_. i)}"
  "new_ctr_id (cjEnv (fixture_job i v ps)) k = generateID ''ctr'' (\<lambda>_. i)"
  "chooser (aeOrders (cjEnv (fixture_job i v ps)) k)"
  by (simp_all add: fixture_job_def create_ids_def new_ctr_id_def fixture_env_ok(3) lessThan_Suc fixture_api_env_def
      chooser_sorted del: new_ctr_id_fold)

lemma fixture_job_ok:
  "valid_utf8 v \<Longrightarrow> list_all int64_range ps \<Longrightarrow> create_ok fixture_server (fixture_job i v ps)"
  using fixture_env_ok(1,2) [of 0]
  by (auto simp: create_ok_def fixture_job_def fixture_server_def service_ok_def zero_service_def finite_f64_def
      zero_f64_def int64_range_def strmap_ok_def all_committed_def valid_answers_def byte_in_def lessThan_Suc)

lemma tidy_setupState [simp]: "tidy setupState"
  by (simp add: tidy_def byte_in_def)

lemma fixture_job_plan:
  "Plan (svBalancer fixture_server) (\<lambda>k. aeOrders (cjEnv (fixture_job i v ps)) k (containers setupState)) setupState
     (cjService (fixture_job i v ps)) 1 = Inr [place_on (cjService (fixture_job i v ps)) fixture_node]"
proof -
  let ?svc = "cjService (fixture_job i v ps)"
  have svc: "sPoolID ?svc = ''pool-1''" "sRequiredCPU ?svc = Fin 0" "sRequiredRAM ?svc = 0"
    by (simp_all add: fixture_job_def zero_service_def zero_f64_def)
  have "fits ?svc {} fixture_node" by (simp add: fits_def svc fixture_available word_sle_eq)
  then have cs: "candidates ?svc [fixture_node] [''n1'' \<mapsto> {}] = [(0, fixture_node)]"
    by (simp add: candidates_def ports_at_def)
  have "aeOrders (cjEnv (fixture_job i v ps)) k Map.empty = []" for k
    by (simp add: fixture_job_def fixture_api_env_def)
  then show ?thesis using cs
    by (simp add: Plan_def svc fixture_server_def GetActiveContainersByNode_def flag.select_singleton bind_ports_def)
qed

lemma fixture_ids_differ: "generateID ''ctr'' (\<lambda>_. 0) \<noteq> generateID ''ctr'' (\<lambda>_. 1)"
  by code_simp

theorem concurrent_creations_share_a_port_witness:
  "\<exists>ca cb t. (request_step fixture_server (\<lambda>_ _. False))\<^sup>*\<^sup>*
       ([Creating (fixture_job 0 ''a'' [80]), Creating (fixture_job 1 ''b'' [80])], setupState) ([Creating ca, Creating cb], t) \<and>
     (\<exists>d e. containers t (generateID ''ctr'' (\<lambda>_. 0)) = Some d \<and> containers t (generateID ''ctr'' (\<lambda>_. 1)) = Some e \<and>
        cNodeID d = ''n1'' \<and> cNodeID e = ''n1'')"
proof -
  have v: "valid_utf8 ''a''" "valid_utf8 ''b''" "list_all int64_range [80]"
    by (simp_all add: byte_in_def int64_range_def)
  have plan: "Plan (svBalancer fixture_server) (\<lambda>k. aeOrders (cjEnv (fixture_job i v ps)) k (containers setupState)) setupState
     (cjService (fixture_job i v ps)) (cjReplicas (fixture_job i v ps)) = Inr [place_on (cjService (fixture_job i v ps)) fixture_node]" for i v ps
    using fixture_job_plan [of i v ps] by simp
  have ids: "create_ids (fixture_job 0 ''a'' [80]) \<inter> create_ids (fixture_job 1 ''b'' [80]) = {}"
    using fixture_ids_differ by simp
  have clash: "80 \<in> set (sPorts (cjService (fixture_job 0 ''a'' [80]))) \<inter> set (sPorts (cjService (fixture_job 1 ''b'' [80])))"
    by simp
  obtain ca cb t where t: "(request_step fixture_server (\<lambda>_ _. False))\<^sup>*\<^sup>*
       ([Creating (fixture_job 0 ''a'' [80]), Creating (fixture_job 1 ''b'' [80])], setupState) ([Creating ca, Creating cb], t)"
    and "\<exists>d. containers t (new_ctr_id (cjEnv (fixture_job 0 ''a'' [80])) 0) = Some d \<and> cNodeID d = ''n1''"
    and "\<exists>d. containers t (new_ctr_id (cjEnv (fixture_job 1 ''b'' [80])) 0) = Some d \<and> cNodeID d = ''n1''"
    using concurrent_creations_share_a_port [OF fixture_job_ok [OF v(1,3)] _ _ _ _ fixture_job_ok [OF v(2,3)] _ _ _ _
        tidy_setupState _ ids _ plan plan clash, of 0 0 "\<lambda>_ _. False"] by auto
  then have "\<exists>d e. containers t (generateID ''ctr'' (\<lambda>_. 0)) = Some d \<and> containers t (generateID ''ctr'' (\<lambda>_. 1)) = Some e \<and>
      cNodeID d = ''n1'' \<and> cNodeID e = ''n1''" by simp blast
  then show ?thesis using t by blast
qed

theorem deletion_misses_a_creation_witness:
  "\<exists>c' d' t. (request_step fixture_server (\<lambda>_ _. False))\<^sup>*\<^sup>*
       ([Creating (fixture_job 0 ''a'' []), Deleting (delete_job_for (fixture_api_env 0 True) ''a'' (fixture_request JNull))], setupState)
       ([Creating c', Deleting d'], t) \<and>
     services t ''a'' = None \<and> djSent d' = [] \<and>
     (\<exists>c. containers t (generateID ''ctr'' (\<lambda>_. 0)) = Some c \<and> cServiceID c = ''a'')"
proof -
  have v: "valid_utf8 ''a''" "list_all int64_range []" by (simp_all add: byte_in_def)
  have plan: "Plan (svBalancer fixture_server) (\<lambda>k. aeOrders (cjEnv (fixture_job 0 ''a'' [])) k (containers setupState)) setupState
     (cjService (fixture_job 0 ''a'' [])) (cjReplicas (fixture_job 0 ''a'' [])) = Inr [place_on (cjService (fixture_job 0 ''a'' [])) fixture_node]"
    using fixture_job_plan [of 0 "''a''" "[]"] by simp
  obtain c' d' t where "(request_step fixture_server (\<lambda>_ _. False))\<^sup>*\<^sup>*
       ([Creating (fixture_job 0 ''a'' []), Deleting (delete_job_for (fixture_api_env 0 True) ''a'' (fixture_request JNull))], setupState)
       ([Creating c', Deleting d'], t)" "services t ''a'' = None" "djSent d' = []"
    and "\<forall>k<Suc 0. containers t (new_ctr_id (cjEnv (fixture_job 0 ''a'' [])) k) = Some (replica_container (cjEnv (fixture_job 0 ''a'' []))
       (cjService (fixture_job 0 ''a'' [])) k ([place_on (cjService (fixture_job 0 ''a'' [])) fixture_node] ! k))"
    using deletion_misses_a_creation [OF fixture_job_ok [OF v] _ _ _ _ tidy_setupState _ _ plan
        fixture_env_ok(1) [of 0] fixture_env_ok(3) [of 0 True 0], where R = "\<lambda>_ _. False" and r = "fixture_request JNull"]
    by auto
  moreover from this(4) have "\<exists>c. containers t (generateID ''ctr'' (\<lambda>_. 0)) = Some c \<and> cServiceID c = ''a''" by simp
  ultimately show ?thesis by blast
qed


text \<open>A replica that is being started on a node that was declared DEAD, and a node for it to go to.\<close>

definition slow_container :: container where
  "slow_container = scheduled_container (cjEnv (fixture_job 0 ''a'' [])) (cjService (fixture_job 0 ''a'' [])) 0 fixture_dead"

definition slow_state :: state where
  "slow_state = AddContainer slow_container (AddService (cjService (fixture_job 0 ''a'' [])) (AddNode fixture_dead setupState))"

lemma slow_state_simps:
  "nodes slow_state = [''n1'' \<mapsto> fixture_node, ''a'' \<mapsto> fixture_dead]" "pools slow_state = pools setupState"
  "services slow_state = [''a'' \<mapsto> cjService (fixture_job 0 ''a'' [])]"
  "containers slow_state = [generateID ''ctr'' (\<lambda>_. 0) \<mapsto> slow_container]"
  "cNodeID slow_container = ''a''" "cServiceID slow_container = ''a''" "cStatus slow_container = ContainerScheduled"
  "cID slow_container = generateID ''ctr'' (\<lambda>_. 0)"
  by (simp_all add: slow_state_def slow_container_def scheduled_container_def AddContainer_def AddService_def AddNode_def
      fixture_dead_def fixture_job_def fixture_api_env_def fun_upd_twist)

lemma slow_ids_differ: "new_id (fixture_env 7) \<noteq> generateID ''ctr'' (\<lambda>_. 0)"
proof -
  have "format_int 7 = ''7''" by code_simp
  then have "length (new_id (fixture_env 7)) < length (generateID ''ctr'' (\<lambda>_. 0))"
    by (simp add: new_id_def fixture_env_def generateID_def randomString_def)
  then show ?thesis by auto
qed

lemma slow_state_moved:
  "containers (recover_container (lb_of_flag ''weighted'') (fixture_env 7) slow_container slow_state)
     (generateID ''ctr'' (\<lambda>_. 0)) = Some (slow_container\<lparr>cStatus := ContainerStopped\<rparr>)"
proof -
  let ?svc = "cjService (fixture_job 0 ''a'' [])" and ?k = "generateID ''ctr'' (\<lambda>_. 0)"
  let ?s1 = "snd (SetContainerStatus ?k ContainerRescheduling slow_state)"
  have svc: "sPoolID ?svc = ''pool-1''" "sRequiredCPU ?svc = Fin 0" "sRequiredRAM ?svc = 0" "sPorts ?svc = []"
    by (simp_all add: fixture_job_def zero_service_def zero_f64_def)
  have k: "valid_utf8 ?k" by (simp add: ascii_def byte_in_def)
  have s1: "nodes ?s1 = nodes slow_state" "services ?s1 = services slow_state" "pools ?s1 = pools setupState"
      "containers ?s1 = [?k \<mapsto> slow_container\<lparr>cStatus := ContainerRescheduling\<rparr>]"
    by (simp_all add: slow_state_simps containers_SetContainerStatus)
  have none: "GetActiveContainersByNode ord ''n1'' ?s1 = []" for ord
  proof -
    have "\<forall>c\<in>set (range_vals ord (containers ?s1)). cNodeID c = ''a''"
      by (auto simp: set_range_vals s1(4) slow_state_simps split: if_splits)
    then show ?thesis by (auto simp: GetActiveContainersByNode_def filter_empty_conv)
  qed
  have pool: "GetPoolNodes ''pool-1'' ?s1 = [fixture_node]"
    by (simp add: GetPoolNodes_def slow_state_simps(1,2))
  have "fits ?svc {} fixture_node" by (simp add: fits_def svc fixture_available word_sle_eq)
  then have cs: "candidates ?svc [fixture_node] [''n1'' \<mapsto> {}] = [(0, fixture_node)]"
    by (simp add: candidates_def ports_at_def)
  have "Schedule (lb_of_flag ''weighted'') ord ?s1 ?svc = Inr (place_on ?svc fixture_node)" for ord
    using cs by (simp add: Schedule_def Plan_def svc pool none flag.select_singleton bind_ports_def)
  then have start: "startReplica (lb_of_flag ''weighted'') ord (eNet (fixture_env 7)) ?s1 ?svc = Inr (''n1'', ''d'')" for ord
    by (simp add: startReplica_def startOn_def fixture_env_def)
  let ?d = "new_container 7 ?svc ''n1'' ''d''"
  let ?s2 = "snd (SetContainerStatus ?k ContainerStopped ?s1)"
  have id: "cID ?d = new_id (fixture_env 7)" by (simp add: new_container_def new_id_def fixture_env_def)
  have "container_ok ?d"
    using valid_new_id [of "fixture_env 7"] id
    by (simp add: container_ok_def new_container_def zero_container_def byte_in_def)
  from commit_AddContainer [OF this, of ?s2]
  have "containers (recover_container (lb_of_flag ''weighted'') (fixture_env 7) slow_container slow_state) =
      (containers ?s2)(cID ?d \<mapsto> ?d)"
    using start k
    by (simp add: recover_container_def fixture_env_def s1(2) slow_state_simps GetService_def Let_def container_table.lookup_add)
  then show ?thesis using id slow_ids_differ
    by (simp add: containers_SetContainerStatus slow_state_simps)
qed

theorem slow_start_duplicates_a_replica_witness:
  "\<exists>c t. (request_step fixture_server (\<lambda>x y. y = recover_container (lb_of_flag ''weighted'') (fixture_env 7) slow_container x))\<^sup>*\<^sup>*
       ([Creating ((fixture_job 0 ''a'' [])\<lparr>cjPc := CRecordAt 0 [fixture_dead] (Inr (zero_response\<lparr>rsSuccess := True, rsContainerID := ''d''\<rparr>)),
          cjSent := [('''', start_command (cjService (fixture_job 0 ''a'' [])))]\<rparr>)], slow_state) ([Creating c], t) \<and>
     card (replicas_of ''a'' t) = 2"
proof -
  let ?j = "fixture_job 0 ''a'' []" and ?resp = "zero_response\<lparr>rsSuccess := True, rsContainerID := ''d''\<rparr>"
  let ?c = "?j\<lparr>cjPc := CRecordAt 0 [fixture_dead] (Inr ?resp), cjSent := [('''', start_command (cjService ?j))]\<rparr>"
  have v: "valid_utf8 ''a''" "list_all int64_range []" by (simp_all add: byte_in_def)
  have ok: "create_ok fixture_server ?c" using fixture_job_ok [OF v, of 0] by (simp add: create_ok_def)
  have net: "aeNet (cjEnv ?j) k x y = Inr ?resp" for k x y
    by (simp add: fixture_job_def fixture_api_env_def zero_response_def)
  have inv: "create_inv ?c slow_state"
    by (simp add: create_inv_simp slow_state_simps recorded_def plan_ok_def sent_starts_def net fixture_dead_def zero_node_def
        slow_container_def byte_in_def)
  have s: "wf_state slow_state" "names_ok slow_state" "containers slow_state (new_id (fixture_env 7)) = None"
  proof -
    show "wf_state slow_state" by (simp add: slow_state_def wf_AddContainer wf_AddService wf_AddNode)
    show "names_ok slow_state" by (auto simp: names_ok_def slow_state_simps byte_in_def fixture_dead_def)
    show "containers slow_state (new_id (fixture_env 7)) = None" using slow_ids_differ by (simp add: slow_state_simps)
  qed
  have "card (replicas_of ''a'' slow_state) = 1"
  proof -
    have "replicas_of ''a'' slow_state = {generateID ''ctr'' (\<lambda>_. 0)}"
      by (auto simp: replicas_of_def slow_state_simps live_def split: if_splits)
    then show ?thesis by simp
  qed
  moreover obtain c t where "(request_step fixture_server
        (\<lambda>x y. y = recover_container (lb_of_flag ''weighted'') (fixture_env 7) slow_container x))\<^sup>*\<^sup>* ([Creating ?c], slow_state) ([Creating c], t)"
      "card (replicas_of ''a'' t) = card (replicas_of ''a'' slow_state) + 1"
    using slow_start_duplicates_a_replica [OF ok inv _ _ s committed_fixture, of 0 "[fixture_dead]" ?resp slow_container "''weighted''"]
      slow_state_moved by (auto simp: slow_container_def)
  ultimately have "card (replicas_of ''a'' t) = 2" by simp
  then show ?thesis using \<open>(request_step _ _)\<^sup>*\<^sup>* _ ([Creating c], t)\<close> by blast
qed

end
