(* ===== verification/Flags.thy ===== *)
theory Flags
  imports Setup Processes
begin

text \<open>
  The command lines of the two programs: the package \<open>flag\<close> as far as they use it, the flags
  of \<open>cmd/master/main.go\<close> and \<open>cmd/worker/main.go\<close> with their defaults, and what a process is made of
  when it has read them.
\<close>

section \<open>Durations\<close>

text \<open>The units of \<open>time.ParseDuration\<close> in nanoseconds; the micro sign has two encodings.\<close>

definition duration_unit :: "go_string \<Rightarrow> nat option" where
  "duration_unit u =
     map_of [(''ns'', 1), (''us'', 1000), ([CHR 0xC2, CHR 0xB5] @ ''s'', 1000), ([CHR 0xCE, CHR 0xBC] @ ''s'', 1000),
       (''ms'', 10 ^ 6), (''s'', 10 ^ 9), (''m'', 60 * 10 ^ 9), (''h'', 3600 * 10 ^ 9)] u"

text \<open>The digits after the point: their value while it fits, and its scale; the rest of them is skipped.\<close>

fun leading_fraction :: "go_string \<Rightarrow> bool \<Rightarrow> nat \<Rightarrow> f64 \<Rightarrow> nat \<times> f64" where
  "leading_fraction [] overflow x scale = (x, scale)"
| "leading_fraction (c # s) overflow x scale =
     (if overflow \<or> (2 ^ 63 - 1) div 10 < x \<or> 2 ^ 63 < x * 10 + dec_value [c] then leading_fraction s True x scale
      else leading_fraction s False (x * 10 + dec_value [c]) (f64_mul scale (Fin 10)))"

text \<open>One number with its unit, from the start of the text: its value and the rest.\<close>

definition duration_part :: "go_string \<Rightarrow> (nat \<times> go_string) option" where
  "duration_part s =
     (let whole = takeWhile is_digit s;
          s1 = dropWhile is_digit s;
          point = s1 \<noteq> [] \<and> hd s1 = CHR ''.'';
          frac = (if point then takeWhile is_digit (tl s1) else []);
          s2 = (if point then dropWhile is_digit (tl s1) else s1);
          u = takeWhile (\<lambda>c. c \<noteq> CHR ''.'' \<and> \<not> is_digit c) s2;
          v = dec_value whole;
          (f, scale) = leading_fraction frac False 0 (Fin 1)
      in if 2 ^ 63 < v \<or> whole = [] \<and> frac = [] \<or> u = [] then None
         else case duration_unit u of
           None \<Rightarrow> None
         | Some unit \<Rightarrow>
             if 2 ^ 63 div unit < v then None
             else case f64_to_int64 (f64_mul (f64_of_int (int f)) (f64_div (f64_of_int (int unit)) scale)) of
               None \<Rightarrow> None
             | Some n \<Rightarrow>
                 (let v' = v * unit + (if 0 < f then nat n else 0)
                  in if 2 ^ 63 < v' then None else Some (v', drop (length u) s2)))"

lemma duration_part_shorter: "duration_part s = Some (v, r) \<Longrightarrow> length r < length s"
proof -
  assume part: "duration_part s = Some (v, r)"
  define s1 where "s1 = dropWhile is_digit s"
  define s2 where "s2 = (if s1 \<noteq> [] \<and> hd s1 = CHR ''.'' then dropWhile is_digit (tl s1) else s1)"
  define u where "u = takeWhile (\<lambda>c. c \<noteq> CHR ''.'' \<and> \<not> is_digit c) s2"
  have r: "u \<noteq> []" "r = drop (length u) s2"
    using part by (auto simp: duration_part_def Let_def u_def s2_def s1_def case_prod_beta split: option.splits if_splits)
  have "length s1 \<le> length s" unfolding s1_def by (rule length_dropWhile_le)
  moreover have "length s2 \<le> length s1"
    unfolding s2_def by (cases s1) (auto intro: order_trans [OF length_dropWhile_le])
  moreover have "length u \<le> length s2" unfolding u_def by (rule length_takeWhile_le)
  ultimately show ?thesis using r by (cases u) auto
qed

function duration_sum :: "go_string \<Rightarrow> nat \<Rightarrow> nat option" where
  "duration_sum s d =
     (if s = [] then Some d
      else case duration_part s of
        None \<Rightarrow> None
      | Some (v, r) \<Rightarrow> if 2 ^ 63 < d + v then None else duration_sum r (d + v))"
  by pat_completeness auto

termination
  by (relation "measure (\<lambda>(s, d). length s)") (auto dest: duration_part_shorter)

declare duration_sum.simps [simp del]

definition ParseDuration :: "go_string \<Rightarrow> duration option" where
  "ParseDuration text =
     (let (neg, s) = strip_sign text
      in if s = ''0'' then Some 0
         else if s = '''' then None
         else case duration_sum s 0 of
           None \<Rightarrow> None
         | Some d \<Rightarrow> if neg then Some (- int d) else if 2 ^ 63 - 1 < d then None else Some (int d))"

text \<open>A whole number of seconds, as the flags are usually given.\<close>

lemma takeWhile_digits: "takeWhile is_digit (digits n @ ''s'') = digits n" "dropWhile is_digit (digits n @ ''s'') = ''s''"
  using digits_all [of n] by (simp_all add: list_all_iff is_digit_def digit_chars_def)

lemma no_fraction: "f64_to_int64 (f64_mul (f64_of_int 0) (f64_div (f64_of_int 1000000000) (Fin 1))) = Some 0"
  by (simp add: f64_of_int_def f64_of_rat_def Let_def f64_to_int64_def)

lemma duration_part_seconds:
  assumes "n * 10 ^ 9 \<le> 2 ^ 63"
  shows "duration_part (digits n @ ''s'') = Some (n * 10 ^ 9, '''')"
proof -
  have "n \<le> 2 ^ 63 div 10 ^ 9" using assms by (simp add: less_eq_div_iff_mult_less_eq)
  then show ?thesis
    using assms no_fraction
    by (simp add: duration_part_def Let_def takeWhile_digits duration_unit_def is_digit_def digit_chars_def)
qed

lemma ParseDuration_seconds:
  assumes "n * 10 ^ 9 < 2 ^ 63"
  shows "ParseDuration (digits n @ ''s'') = Some (int n * second)"
proof -
  have sign: "strip_sign (digits n @ ''s'') = (False, digits n @ ''s'')"
    using digits_all [of n] by (cases "digits n") (auto simp: strip_sign_def dest!: is_digit_simps)
  have "digits n @ ''s'' \<noteq> ''0''" by (cases "digits n") auto
  moreover have "duration_sum (digits n @ ''s'') 0 = Some (n * 10 ^ 9)"
    using assms duration_part_seconds [of n] by (subst duration_sum.simps) (simp, subst duration_sum.simps, simp)
  ultimately show ?thesis
    using assms by (simp add: ParseDuration_def sign second_def)
qed

section \<open>The package flag\<close>

text \<open>The kind of a flag is that of its value.\<close>

datatype flag_value = FlagString go_string | FlagBool bool | FlagDuration duration

text \<open>Every error ends the process: with status 0 after \<open>-help\<close>, else with status 2.\<close>

datatype flag_error =
    FlagHelp
  | FlagSyntax go_string
  | FlagUndefined go_string
  | FlagNeedsArgument go_string
  | FlagInvalid go_string go_string

fun flag_Set :: "flag_value \<Rightarrow> go_string \<Rightarrow> flag_value option" where
  "flag_Set (FlagString old) v = Some (FlagString v)"
| "flag_Set (FlagBool old) v =
     (if v \<in> {''1'', ''t'', ''T'', ''true'', ''TRUE'', ''True''} then Some (FlagBool True)
      else if v \<in> {''0'', ''f'', ''F'', ''false'', ''FALSE'', ''False''} then Some (FlagBool False)
      else None)"
| "flag_Set (FlagDuration old) v = map_option FlagDuration (ParseDuration v)"

definition is_bool_flag :: "flag_value \<Rightarrow> bool" where
  "is_bool_flag x = (case x of FlagBool b \<Rightarrow> True | _ \<Rightarrow> False)"

text \<open>\<open>name=value\<close>, or just a name.\<close>

definition split_flag :: "go_string \<Rightarrow> go_string \<times> go_string option" where
  "split_flag s =
     (takeWhile (\<lambda>c. c \<noteq> CHR ''='') s,
      if CHR ''='' \<in> set s then Some (tl (dropWhile (\<lambda>c. c \<noteq> CHR ''='') s)) else None)"

fun flag_Parse :: "go_string list \<Rightarrow> (go_string \<rightharpoonup> flag_value) \<Rightarrow> flag_error + (go_string \<rightharpoonup> flag_value)" where
  "flag_Parse [] m = Inr m"
| "flag_Parse (s # args) m =
     (if length s < 2 \<or> hd s \<noteq> CHR ''-'' \<or> s = ''--'' then Inr m
      else
        let text = (if s ! 1 = CHR ''-'' then drop 2 s else drop 1 s) in
        if text = '''' \<or> hd text = CHR ''-'' \<or> hd text = CHR ''='' then Inl (FlagSyntax s)
        else
          let (name, value) = split_flag text in
          case m name of
            None \<Rightarrow> Inl (if name = ''help'' \<or> name = ''h'' then FlagHelp else FlagUndefined name)
          | Some old \<Rightarrow>
              (case (value, is_bool_flag old, args) of
                 (Some v, _, _) \<Rightarrow>
                   (case flag_Set old v of None \<Rightarrow> Inl (FlagInvalid v name) | Some new \<Rightarrow> flag_Parse args (m(name \<mapsto> new)))
               | (None, True, _) \<Rightarrow> flag_Parse args (m(name \<mapsto> FlagBool True))
               | (None, False, []) \<Rightarrow> Inl (FlagNeedsArgument name)
               | (None, False, v # args') \<Rightarrow>
                   (case flag_Set old v of None \<Rightarrow> Inl (FlagInvalid v name) | Some new \<Rightarrow> flag_Parse args' (m(name \<mapsto> new)))))"

definition flag_text :: "flag_value option \<Rightarrow> go_string" where
  "flag_text x = (case x of Some (FlagString v) \<Rightarrow> v | _ \<Rightarrow> '''')"

section \<open>The flags of a master and of a worker\<close>

record master_flags =
  mfMulticast :: go_string
  mfLb :: go_string
  mfApi :: go_string
  mfRaftAddr :: go_string
  mfRaftID :: go_string
  mfRaftDir :: go_string
  mfRaftBootstrap :: bool
  mfRaftPeers :: go_string
  mfPeersAPI :: go_string

definition master_flag_defaults :: "go_string \<rightharpoonup> flag_value" where
  "master_flag_defaults =
     [''multicast'' \<mapsto> FlagString ''239.0.0.1:9090'', ''lb'' \<mapsto> FlagString ''leastconn'',
      ''api'' \<mapsto> FlagString '':8090'', ''raft-addr'' \<mapsto> FlagString ''localhost:9000'',
      ''raft-id'' \<mapsto> FlagString ''master-1'', ''raft-dir'' \<mapsto> FlagString ''/tmp/dcp-raft'',
      ''raft-bootstrap'' \<mapsto> FlagBool False, ''raft-peers'' \<mapsto> FlagString '''', ''peers-api'' \<mapsto> FlagString '''']"

definition master_flags_of :: "go_string list \<Rightarrow> flag_error + master_flags" where
  "master_flags_of args =
     (case flag_Parse args master_flag_defaults of
        Inl err \<Rightarrow> Inl err
      | Inr m \<Rightarrow>
          Inr \<lparr>mfMulticast = flag_text (m ''multicast''), mfLb = flag_text (m ''lb''), mfApi = flag_text (m ''api''),
            mfRaftAddr = flag_text (m ''raft-addr''), mfRaftID = flag_text (m ''raft-id''),
            mfRaftDir = flag_text (m ''raft-dir''), mfRaftBootstrap = (m ''raft-bootstrap'' = Some (FlagBool True)),
            mfRaftPeers = flag_text (m ''raft-peers''), mfPeersAPI = flag_text (m ''peers-api'')\<rparr>)"

record worker_flags =
  wfID :: go_string
  wfAddr :: go_string
  wfMulticast :: go_string
  wfInterval :: duration

definition worker_flag_defaults :: "go_string \<rightharpoonup> flag_value" where
  "worker_flag_defaults =
     [''id'' \<mapsto> FlagString '''', ''addr'' \<mapsto> FlagString ''localhost:7000'',
      ''multicast'' \<mapsto> FlagString ''239.0.0.1:9090'', ''interval'' \<mapsto> FlagDuration (5 * second)]"

definition worker_flags_of :: "go_string list \<Rightarrow> flag_error + worker_flags" where
  "worker_flags_of args =
     (case flag_Parse args worker_flag_defaults of
        Inl err \<Rightarrow> Inl err
      | Inr m \<Rightarrow>
          Inr \<lparr>wfID = flag_text (m ''id''), wfAddr = flag_text (m ''addr''), wfMulticast = flag_text (m ''multicast''),
            wfInterval = (case m ''interval'' of Some (FlagDuration d) \<Rightarrow> d | _ \<Rightarrow> 0)\<rparr>)"

section \<open>Reading back\<close>

lemma split_flag_text:
  assumes "CHR ''='' \<notin> set name"
  shows "split_flag (name @ CHR ''='' # v) = (name, Some v)" and "split_flag name = (name, None)"
  using assms by (induction name) (auto simp: split_flag_def)

definition flag_name :: "go_string \<Rightarrow> bool" where
  "flag_name name \<longleftrightarrow> name \<noteq> '''' \<and> hd name \<noteq> CHR ''-'' \<and> CHR ''='' \<notin> set name"

text \<open>The three forms of a flag on the command line.\<close>

lemma parse_one:
  assumes "flag_name name" and "m name = Some old"
  shows "flag_Set old v = Some new \<Longrightarrow>
      flag_Parse ((''-'' @ name @ CHR ''='' # v) # args) m = flag_Parse args (m(name \<mapsto> new))"
    and "flag_Set old v = Some new \<Longrightarrow> \<not> is_bool_flag old \<Longrightarrow>
      flag_Parse ((''-'' @ name) # v # args) m = flag_Parse args (m(name \<mapsto> new))"
    and "is_bool_flag old \<Longrightarrow> flag_Parse ((''-'' @ name) # args) m = flag_Parse args (m(name \<mapsto> FlagBool True))"
proof -
  obtain c cs where name: "name = c # cs" "c \<noteq> CHR ''-''" "c \<noteq> CHR ''=''"
    using assms(1) by (cases name) (auto simp: flag_name_def)
  have split: "split_flag (name @ CHR ''='' # v) = (name, Some v)" "split_flag name = (name, None)"
    using assms(1) split_flag_text by (simp_all add: flag_name_def)
  show "flag_Set old v = Some new \<Longrightarrow>
      flag_Parse ((''-'' @ name @ CHR ''='' # v) # args) m = flag_Parse args (m(name \<mapsto> new))"
    using split assms(2) name by (simp add: Let_def)
  show "flag_Set old v = Some new \<Longrightarrow> \<not> is_bool_flag old \<Longrightarrow>
      flag_Parse ((''-'' @ name) # v # args) m = flag_Parse args (m(name \<mapsto> new))"
    using split assms(2) name by (simp add: Let_def)
  show "is_bool_flag old \<Longrightarrow> flag_Parse ((''-'' @ name) # args) m = flag_Parse args (m(name \<mapsto> FlagBool True))"
    using split assms(2) name by (cases args) (simp_all add: Let_def)
qed


text \<open>A command line that gives some of the flags, each of them once.\<close>

definition flag_args :: "(go_string \<times> go_string) list \<Rightarrow> go_string list" where
  "flag_args ps = map (\<lambda>(name, v). ''-'' @ name @ CHR ''='' # v) ps"

lemma flag_Parse_args:
  assumes "distinct (map fst ps)"
    and "\<forall>(name, v)\<in>set ps. flag_name name \<and> (\<exists>old. m name = Some old \<and> flag_Set old v \<noteq> None)"
  shows "flag_Parse (flag_args ps) m =
    Inr (\<lambda>k. case map_of ps k of None \<Rightarrow> m k | Some v \<Rightarrow> Option.bind (m k) (\<lambda>old. flag_Set old v))"
  using assms
proof (induction ps arbitrary: m)
  case (Cons p ps)
  obtain name v where p: "p = (name, v)" by (cases p)
  then obtain old new where set: "flag_name name" "m name = Some old" "flag_Set old v = Some new"
    using Cons.prems(2) by auto
  have "\<forall>(n, v)\<in>set ps. flag_name n \<and> (\<exists>old. (m(name \<mapsto> new)) n = Some old \<and> flag_Set old v \<noteq> None)"
    using Cons.prems p by (force simp: image_iff)
  note IH = Cons.IH [OF _ this]
  have fresh: "map_of ps name = None" using Cons.prems(1) p by (simp add: map_of_eq_None_iff)
  have "flag_Parse (flag_args (p # ps)) m = flag_Parse (flag_args ps) (m(name \<mapsto> new))"
    using parse_one(1) [of name m old v new "flag_args ps", OF set] by (simp add: flag_args_def p del: flag_Parse.simps)
  also have "\<dots> = Inr (\<lambda>k. case map_of ps k of None \<Rightarrow> (m(name \<mapsto> new)) k
      | Some v \<Rightarrow> Option.bind ((m(name \<mapsto> new)) k) (\<lambda>old. flag_Set old v))"
    by (rule IH) (use Cons.prems(1) in simp)
  also have "\<dots> = Inr (\<lambda>k. case map_of (p # ps) k of None \<Rightarrow> m k
      | Some v \<Rightarrow> Option.bind (m k) (\<lambda>old. flag_Set old v))"
    using set(2,3) fresh by (auto simp: p fun_eq_iff split: option.split)
  finally show ?case .
qed (simp add: flag_args_def)

end
