(* ===== verification/Platform.thy ===== *)
theory Platform
  imports Jobs Processes
begin

text \<open>
  A whole master while the program runs: the receiver, the failure detector, the recoveries of late nodes
  (\<open>Lifecycle\<close>), the recovery of dead nodes and the retry loop with the closures of \<open>cmd/master/main.go\<close>,
  log entries that arrive through Raft, requests that only read, and the jobs of the requests that write,
  all interleaved. What every reachable state has is an invariant of the program as a whole.
\<close>

section \<open>A running master\<close>

record platform =
  plSystem :: system
  plJobs :: "job list"

definition on_state :: "(state \<Rightarrow> state) \<Rightarrow> platform \<Rightarrow> platform" where
  "on_state f P = P\<lparr>plSystem := on_cluster f (plSystem P)\<rparr>"

abbreviation plState :: "platform \<Rightarrow> state" where
  "plState P \<equiv> cluster (world_of (plSystem P))"

text \<open>The callbacks \<open>main\<close> passes to the receiver and to the fault tolerance module.\<close>

definition node_discovered :: "go_time \<Rightarrow> go_string \<Rightarrow> state \<Rightarrow> state" where
  "node_discovered now i = Log now ''system'' EventNodeDiscovered i ''node discovered via first heartbeat''"

definition node_died :: "balancer \<Rightarrow> bool \<Rightarrow> go_time \<Rightarrow> (nat \<Rightarrow> env) \<Rightarrow> dead_callback" where
  "node_died lb isLeader now es = recover_node lb isLeader now es"

text \<open>
  One step of one goroutine. The leadership is read anew wherever the code reads it, so every step may
  find another one. \<open>entry\<close>: an entry that another master has submitted, or that this one applies again
  after a restart. \<open>reader\<close>: a request that the handlers answer without writing services or containers.
\<close>

inductive platform_step :: "server \<Rightarrow> platform \<Rightarrow> platform \<Rightarrow> bool" for sv where
  tick: "clock (plSystem P) \<le> now \<Longrightarrow> platform_step sv P (P\<lparr>plSystem := (plSystem P)\<lparr>clock := now\<rparr>\<rparr>)"
| datagram: "rpc (plSystem P) = RIdle \<Longrightarrow> platform_step sv P (P\<lparr>plSystem := (plSystem P)\<lparr>rpc := RGet hb\<rparr>\<rparr>)"
| receive: "platform_step sv P
    (P\<lparr>plSystem := recv_step pord (Some isLeader) (Some (node_discovered now)) (plSystem P)\<rparr>)"
| detect: "platform_step sv P
    (P\<lparr>plSystem := check_step master_tolerance nord ord (Some (node_died (svBalancer sv) isLeader now es)) (plSystem P)\<rparr>)"
| late: "platform_step sv P (P\<lparr>plSystem := recovery_step ord (Some (applyContainerStatus r)) reply i (plSystem P)\<rparr>)"
| retry: "platform_step sv P (on_state (retry_round (svBalancer sv) isLeader pord sord es svcIDs) P)"
| entry: "platform_step sv P (on_state (\<lambda>s. snd (FSM_Apply data s)) P)"
| reader: "harmless (plState P) (serve sv' env r (plState P)) \<Longrightarrow>
    platform_step sv P (on_state (\<lambda>s. snd (snd (serve sv' env r s))) P)"
| create: "platform_step sv P (P\<lparr>plJobs := plJobs P @ [Creating (create_job_for env r)]\<rparr>)"
| delete: "platform_step sv P (P\<lparr>plJobs := plJobs P @ [Deleting (delete_job_for env v r)]\<rparr>)"
| handle: "i < length (plJobs P) \<Longrightarrow> job_step sv (plJobs P ! i, plState P) = (j', s') \<Longrightarrow>
    platform_step sv P (on_state (\<lambda>s. s') (P\<lparr>plJobs := (plJobs P)[i := j']\<rparr>))"

inductive_cases platform_stepE: "platform_step sv P Q"

definition start_platform :: "state \<Rightarrow> go_time \<Rightarrow> platform" where
  "start_platform s now = \<lparr>plSystem = init_system s now, plJobs = []\<rparr>"

lemma on_state_simps [simp]:
  "plState (on_state f P) = f (plState P)" "cluster (world_of (on_cluster f S)) = f (cluster (world_of S))" "plSystem (on_state f P) = on_cluster f (plSystem P)"
  "plState (start_platform s now) = s"
  by (simp_all add: on_state_def on_cluster_def start_platform_def init_system_def NewTolerance_def)

section \<open>How a state evolves\<close>

text \<open>
  What no operation of a running master undoes: the tables stay well-formed, the users are as they were,
  the audit log is appended to, a node that is known stays known, and the pools are the same pools, with
  their ranges and their members, to which new ones are appended.
\<close>

definition more_members :: "(go_string \<Rightarrow> go_string list) \<Rightarrow> (go_string \<rightharpoonup> resource_pool) \<Rightarrow> (go_string \<rightharpoonup> resource_pool)" where
  "more_members ids m = (\<lambda>p. map_option (\<lambda>q. q\<lparr>pNodeIDs := pNodeIDs q @ ids p\<rparr>) (m p))"

lemma more_members_simps [simp]:
  "more_members (\<lambda>_. []) m = m" "more_members js (more_members is m) = more_members (\<lambda>p. is p @ js p) m"
  "dom (more_members is m) = dom m"
  by (auto simp: more_members_def option.map_ident option.map_comp comp_def intro!: ext)

definition evolves :: "state \<Rightarrow> state \<Rightarrow> bool" where
  "evolves s t \<longleftrightarrow> (wf_state s \<longrightarrow> wf_state t) \<and> users t = users s \<and> (\<exists>es. audit t = audit s @ es) \<and>
     dom (nodes s) \<subseteq> dom (nodes t) \<and> (\<exists>ids. pools t = more_members ids (pools s))"

lemma evolvesI:
  assumes "wf_state s \<Longrightarrow> wf_state t" and "users t = users s" and "audit t = audit s @ es"
    and "dom (nodes s) \<subseteq> dom (nodes t)" and "pools t = more_members ids (pools s)"
  shows "evolves s t"
  using assms unfolding evolves_def by blast

text \<open>The pools are left alone.\<close>

lemmas evolvesI_pools = evolvesI [where ids = "\<lambda>_. []", unfolded more_members_simps]

named_theorems evolving "operations that let the state evolve"

lemma evolves_refl [evolving]: "evolves s s"
  by (rule evolvesI_pools [where es = "[]"]) simp_all

lemma evolves_trans:
  assumes "evolves s t" and "evolves t u"
  shows "evolves s u"
proof -
  have "\<exists>ids. pools u = more_members ids (pools s)" using assms by (auto simp: evolves_def)
  moreover have "\<exists>es. audit u = audit s @ es" using assms by (auto simp: evolves_def)
  moreover have "users u = users s" using assms by (simp add: evolves_def)
  moreover have "dom (nodes s) \<subseteq> dom (nodes u)" using assms subset_trans unfolding evolves_def by blast
  moreover have "wf_state s \<longrightarrow> wf_state u" using assms unfolding evolves_def by blast
  ultimately show ?thesis unfolding evolves_def by blast
qed

text \<open>An operation on services and containers only.\<close>

lemma evolves_frame:
  assumes "evolves s t" and "nodes u = nodes t" and "pools u = pools t" and "users u = users t" and "audit u = audit t"
    and "wf_state t \<Longrightarrow> wf_state u"
  shows "evolves s u"
  using assms unfolding evolves_def by auto

lemma evolves_Log [evolving]: "evolves s t \<Longrightarrow> evolves s (Log now u a r d t)"
  by (rule evolves_trans, assumption) (rule evolvesI_pools; simp add: Log_def wf_AppendAudit)

lemma evolves_nodes [evolving]:
  "evolves s t \<Longrightarrow> evolves s (AddNode n t)"
  "evolves s t \<Longrightarrow> evolves s (snd (SetNodeStatus i st t))"
  "evolves s t \<Longrightarrow> evolves s (snd (UpdateNodeFromHeartbeat now hb t))"
proof -
  have "evolves t (AddNode n t)"
    by (rule evolvesI_pools [where es = "[]"]) (auto simp: wf_AddNode node_table.lookup_add)
  moreover have "evolves t (snd (SetNodeStatus i st t))"
    by (rule evolvesI_pools [where es = "[]"]) (auto simp: wf_SetNodeStatus nodes_SetNodeStatus)
  moreover have "evolves t (snd (UpdateNodeFromHeartbeat now hb t))"
    by (rule evolvesI_pools [where es = "[]"]) (auto simp: wf_UpdateNodeFromHeartbeat nodes_UpdateNodeFromHeartbeat)
  ultimately show "evolves s t \<Longrightarrow> evolves s (AddNode n t)" "evolves s t \<Longrightarrow> evolves s (snd (SetNodeStatus i st t))"
    "evolves s t \<Longrightarrow> evolves s (snd (UpdateNodeFromHeartbeat now hb t))"
    by (blast intro: evolves_trans)+
qed

lemma evolves_AssignNodeToPool [evolving]: "evolves s t \<Longrightarrow> evolves s (snd (AssignNodeToPool ord i n t))"
proof -
  have "evolves t (snd (AssignNodeToPool ord i n t))"
  proof (cases "first_match ord n t")
    case None
    then show ?thesis by (simp add: AssignNodeToPool_eq evolves_refl)
  next
    case (Some k)
    have "join_pool i q = q\<lparr>pNodeIDs := pNodeIDs q @ (if i \<in> set (pNodeIDs q) then [] else [i])\<rparr>" for q
      by (simp add: join_pool_def)
    then have "pools (snd (AssignNodeToPool ord i n t)) =
        more_members (\<lambda>p. if p = k \<and> i \<notin> set (pNodeIDs (the (pools t k))) then [i] else []) (pools t)"
      by (intro ext, case_tac "pools t x") (auto simp: AssignNodeToPool_eq Some more_members_def)
    then show ?thesis by (intro evolvesI [where es = "[]"]) (simp_all add: wf_AssignNodeToPool)
  qed
  then show "evolves s t \<Longrightarrow> evolves s (snd (AssignNodeToPool ord i n t))" by (blast intro: evolves_trans)
qed

lemma evolves_FSM_Apply [evolving]: "evolves s t \<Longrightarrow> evolves s (snd (FSM_Apply data t))"
  by (erule evolves_frame) (simp_all add: wf_FSM_Apply)

lemma evolves_RaftNode_Apply [evolving]: "evolves s t \<Longrightarrow> evolves s (snd (RaftNode_Apply l fut ty data t))"
  by (erule evolves_frame) (simp_all add: wf_RaftNode_Apply)

lemma evolves_entities [evolving]:
  "evolves s t \<Longrightarrow> evolves s (AddService svc t)" "evolves s t \<Longrightarrow> evolves s (AddContainer c t)"
  "evolves s t \<Longrightarrow> evolves s (RemoveService i t)" "evolves s t \<Longrightarrow> evolves s (snd (SetContainerStatus i st t))"
  by (erule evolves_frame; simp add: wf_AddService wf_AddContainer wf_removes wf_SetContainerStatus)+

lemma evolves_apply [evolving]:
  "evolves s t \<Longrightarrow> evolves s (applyAddContainer sv rf c t)"
  "evolves s t \<Longrightarrow> evolves s (applySetContainerStatus sv rf i st t)"
  "evolves s t \<Longrightarrow> evolves s (applyRemoveService sv rf i t)"
  "evolves s t \<Longrightarrow> evolves s (applyContainerStatus rf i st t)"
  by (simp_all add: applyAddContainer_def applySetContainerStatus_def applyRemoveService_def applyContainerStatus_def evolving)

section \<open>Every goroutine lets the state evolve\<close>

lemma evolves_recover_container [evolving]: "evolves s t \<Longrightarrow> evolves s (recover_container lb e c t)"
  by (auto simp: recover_container_def Let_def case_prod_beta split: option.split sum.split intro!: evolving)

lemma evolves_recover_loop [evolving]: "evolves s t \<Longrightarrow> evolves s (recover_loop lb es cs t)"
  by (induction lb es cs t rule: recover_loop.induct) (simp_all add: evolving)

lemma evolves_recover_node [evolving]: "evolves s t \<Longrightarrow> evolves s (recover_node lb l now es i cs t)"
  by (simp add: recover_node_def evolving)

lemma evolves_retry_container [evolving]: "evolves s t \<Longrightarrow> evolves s (retry_container svc e c nd t)"
  by (simp add: retry_container_def evolving split: sum.split)

lemma evolves_retry_group [evolving]: "evolves s t \<Longrightarrow> evolves s (retry_group svc es cs plan t)"
  by (induction svc es cs plan t rule: retry_group.induct) (simp_all add: evolving)

lemma evolves_retry_service [evolving]: "evolves s t \<Longrightarrow> evolves s (retry_service lb ord es grp i t)"
  by (auto simp: retry_service_def split: option.split sum.split intro!: evolving)

lemma evolves_retry_groups [evolving]: "evolves s t \<Longrightarrow> evolves s (retry_groups lb ord es grp is t)"
  by (induction lb ord es grp "is" t rule: retry_groups.induct) (simp_all add: evolving)

lemma evolves_retry_round [evolving]: "evolves s t \<Longrightarrow> evolves s (retry_round lb l pord ord es svcIDs t)"
  by (simp add: retry_round_def evolving)

lemma evolves_create_step: "evolves s (snd (create_step sv (c, s)))"
  by (cases "cjPc c")
    (auto simp: Let_def case_prod_beta record_answer_def create_audit_def intro!: evolving
      split: option.split plan_pc.split sum.split)

lemma evolves_delete_step: "evolves s (snd (delete_step sv (d, s)))"
  by (cases "djPc d") (auto simp: Let_def intro!: evolving split: list.split)

lemma evolves_job_step: "evolves s (snd (job_step sv (j, s)))"
  using evolves_create_step [of s sv] evolves_delete_step [of s sv]
  by (cases j) (simp_all add: case_prod_beta Let_def del: create_step.simps delete_step.simps)

lemma evolves_create_pending [evolving]: "evolves s t \<Longrightarrow> evolves s (snd (create_pending sv env svc i m infos t))"
  by (induction m arbitrary: i infos t) (simp_all add: Let_def evolving)

lemma evolves_create_replica [evolving]: "evolves s t \<Longrightarrow> evolves s (snd (snd (create_replica sv env svc i nd t)))"
  by (auto simp: create_replica_def Let_def intro!: evolving split: sum.split)

lemma evolves_create_replicas [evolving]: "evolves s t \<Longrightarrow> evolves s (snd (create_replicas sv env svc i plan acc t))"
proof (induction plan arbitrary: i acc t)
  case (Cons nd plan)
  then show ?case by (cases acc) (simp add: Let_def case_prod_beta evolves_create_replica)
qed simp

lemma evolves_delete_containers [evolving]: "evolves s t \<Longrightarrow> evolves s (snd (delete_containers sv env v i cs msgs t))"
  by (induction cs arbitrary: i msgs t) (simp_all add: Let_def evolving)

lemma evolves_handlers [evolving]:
  "evolves s (snd (snd (createService sv env r s)))" "evolves s (snd (snd (deleteService sv env v r s)))"
  "evolves s (snd (snd (login sv env r s)))" "evolves s (snd (snd (refresh sv env r s)))"
  by (auto simp: createService_def create_containers_def create_audit_def deleteService_def login_def refresh_def
      case_prod_beta Let_def intro!: evolving split: option.split sum.split)

lemma evolves_readers [evolving]:
  "evolves s (snd (snd (getNodes env r s)))" "evolves s (snd (snd (getPools env r s)))"
  "evolves s (snd (snd (getServices env r s)))" "evolves s (snd (snd (getAudit r s)))"
  by (simp_all add: getNodes_def getPools_def getServices_def getAudit_def Let_def evolving)

lemma evolves_auth [evolving]:
  "(\<And>r. evolves s (snd (snd (h r s)))) \<Longrightarrow> evolves s (snd (snd (auth sv env res act h r s)))"
  by (auto simp: auth_def Let_def intro!: evolving split: sum.split)

lemma evolves_leaderForward [evolving]:
  "evolves s (snd (snd (h r s))) \<Longrightarrow> evolves s (snd (snd (leaderForward sv env h r s)))"
  by (auto simp: leaderForward_def case_prod_beta Let_def intro!: evolving split: option.split)

lemma evolves_serve [evolving]: "evolves s (snd (snd (serve sv env r s)))"
  by (auto simp: serve_def post_route_def get_route_def plain_def intro!: evolving split: option.split)

lemma evolves_discovered [evolving]: "evolves s t \<Longrightarrow> evolves s (node_discovered now i t)"
  by (simp add: node_discovered_def evolving)

lemma evolves_died [evolving]: "evolves s t \<Longrightarrow> evolves s (node_died lb l now es i cs t)"
  by (simp add: node_died_def evolving)

lemma evolves_late [evolving]:
  "evolves s (cluster w) \<Longrightarrow> evolves s (cluster (HandleLateHeartbeat l i w))"
  by (auto simp: HandleLateHeartbeat_def intro!: evolving split: option.split)

lemma evolves_set_pc [simp]: "cluster (set_pc i pc w) = cluster w"
  by (simp add: set_pc_def)

lemma evolves_kill_step [evolving]:
  "evolves s (cluster w) \<Longrightarrow> evolves s (cluster (kill_step ord (Some (applyContainerStatus r)) reply i w))"
  by (auto simp: kill_step_def Let_def setContainerStatus_def intro!: evolving
      split: kill_pc.split sum.split list.split)

lemma evolves_recv_step [evolving]:
  "evolves s (cluster (world_of S)) \<Longrightarrow>
   evolves s (cluster (world_of (recv_step pord l (Some (node_discovered now)) S)))"
  by (auto simp: recv_step_def on_cluster_def intro!: evolving split: recv_pc.split)

lemma evolves_check_step [evolving]:
  "evolves s (cluster (world_of S)) \<Longrightarrow>
   evolves s (cluster (world_of (check_step t nord ord (Some (node_died lb l now es)) S)))"
  by (auto simp: check_step_def on_cluster_def Let_def intro!: evolving split: check_pc.split list.split)

lemma platform_step_evolves:
  assumes "platform_step sv P Q"
  shows "evolves (plState P) (plState Q)"
  using assms
proof (cases rule: platform_step.cases)
  case (handle i j' s')
  then show ?thesis
    using evolves_job_step [of "plState P" sv "plJobs P ! i"] by (simp add: on_state_def on_cluster_def)
qed (simp_all add: evolving recovery_step_def)

section \<open>Every step of the platform is a step of the nodes' lifecycle\<close>

lemma nodes_job_step [simp]: "nodes (snd (job_step sv (j, s))) = nodes s"
proof (cases j)
  case (Creating c)
  have "nodes (snd (create_step sv (c, s))) = nodes s"
    by (cases "cjPc c")
      (auto simp: Let_def case_prod_beta record_answer_def create_audit_def applyAddContainer_def
          applySetContainerStatus_def
        split: option.split plan_pc.split sum.split)
  with Creating show ?thesis by (simp add: case_prod_beta Let_def del: create_step.simps)
next
  case (Deleting d)
  have "nodes (snd (delete_step sv (d, s))) = nodes s"
    by (cases "djPc d")
      (auto simp: Let_def applySetContainerStatus_def applyRemoveService_def split: list.split)
  with Deleting show ?thesis by (simp add: case_prod_beta Let_def del: delete_step.simps)
qed

lemma nodes_retry_round [simp]: "nodes (retry_round lb l pord ord es svcIDs s) = nodes s"
proof -
  have "nodes (retry_groups lb ord es grp is s) = nodes s" for grp and "is" :: "go_string list"
    by (induction lb ord es grp "is" s rule: retry_groups.induct) simp_all
  then show ?thesis by (simp add: retry_round_def)
qed

lemma platform_sys_step:
  assumes "platform_step sv P Q"
  obtains (same) "plSystem Q = plSystem P"
  | (step) isLeader now es r where "sys_step master_tolerance (Some isLeader) (Some (node_discovered now))
      (Some (node_died (svBalancer sv) isLeader now es)) (Some (applyContainerStatus r)) (plSystem P) (plSystem Q)"
  using assms
proof (cases rule: platform_step.cases)
  case (tick now)
  then show ?thesis by (intro step) (simp add: sys_step.tick)
next
  case (datagram hb)
  then show ?thesis by (intro step) (simp add: sys_step.arrive)
next
  case (receive pord isLeader now)
  then show ?thesis by (intro step [of isLeader now]) (simp add: sys_step.recv)
next
  case (detect nord ord isLeader now es)
  then show ?thesis by (intro step [of isLeader now es]) (simp add: sys_step.detect)
next
  case (late ord r reply i)
  then show ?thesis by (intro step [where r = r]) (simp add: sys_step.recover)
next
  case (retry isLeader pord sord es svcIDs)
  then show ?thesis by (intro step) (simp add: sys_step.other sys_nodes_def)
next
  case (entry data)
  then show ?thesis by (intro step) (simp add: sys_step.other sys_nodes_def)
next
  case (reader sv' env r)
  then show ?thesis by (intro step) (simp add: sys_step.other sys_nodes_def harmless_def same_base_def)
next
  case (handle i j' s')
  moreover have "nodes s' = nodes (plState P)"
    using nodes_job_step [of sv "plJobs P ! i" "plState P"] handle by (metis snd_conv)
  ultimately show ?thesis by (intro step) (simp add: on_state_def sys_step.other sys_nodes_def)
qed (simp_all add: same)

lemma callbacks_ok_main:
  "callbacks_ok (Some (node_died lb l now es)) (Some (node_discovered now')) (Some (applyContainerStatus r))"
  by (auto simp: callbacks_ok_def node_died_def node_discovered_def)

interpretation main_callbacks: lifecycle "Some (node_died lb l now es)" "Some (node_discovered now')"
  "Some (applyContainerStatus r)" for lb l now es now' r
  by (rule callbacks_ok_lifecycle) (rule callbacks_ok_main)

section \<open>The members of the pools\<close>

text \<open>
  Every member of a pool is a known node and no node is a member of two pools. A node joins a pool only on
  its first heartbeat, between its registration and the discovery.
\<close>

definition member_of :: "go_string \<Rightarrow> go_string \<Rightarrow> state \<Rightarrow> bool" where
  "member_of i p s \<longleftrightarrow> (\<exists>q. pools s p = Some q \<and> i \<in> set (pNodeIDs q))"

definition members_ok :: "state \<Rightarrow> bool" where
  "members_ok s \<longleftrightarrow> (\<forall>i p p'. member_of i p s \<longrightarrow> nodes s i \<noteq> None \<and> (member_of i p' s \<longrightarrow> p = p'))"

definition members_inv :: "system \<Rightarrow> bool" where
  "members_inv S \<longleftrightarrow> members_ok (cluster (world_of S)) \<and>
     (\<forall>hb. rpc S = RAssign hb \<longrightarrow> sys_nodes S (hbNodeID hb) \<noteq> None \<and>
        (\<forall>p. \<not> member_of (hbNodeID hb) p (cluster (world_of S))))"

lemma members_ok_frame:
  "pools t = pools s \<Longrightarrow> dom (nodes s) \<subseteq> dom (nodes t) \<Longrightarrow> members_ok s \<Longrightarrow> members_ok t"
  by (fastforce simp: members_ok_def member_of_def)

lemma members_inv_frame:
  assumes "pools (cluster (world_of T)) = pools (cluster (world_of S))" and "dom (sys_nodes S) \<subseteq> dom (sys_nodes T)"
    and "rpc T = rpc S \<or> (\<forall>hb. rpc T \<noteq> RAssign hb)" and "members_inv S"
  shows "members_inv T"
  using assms members_ok_frame [of "cluster (world_of T)" "cluster (world_of S)"]
  by (fastforce simp: members_inv_def sys_nodes_def member_of_def)

lemma member_of_assign:
  assumes "member_of j p (snd (AssignNodeToPool ord i n s))"
  shows "member_of j p s \<or> j = i \<and> first_match ord n s = Some p"
  using assms by (auto simp: member_of_def AssignNodeToPool_eq split: option.splits if_splits)

lemma pools_late [simp]: "pools (cluster (HandleLateHeartbeat l i w)) = pools (cluster w)"
  by (simp add: HandleLateHeartbeat_def split: option.split)

lemma pools_kill_step [simp]:
  "pools (cluster (kill_step ord (Some (applyContainerStatus r)) reply i w)) = pools (cluster w)"
  by (simp add: kill_step_def Let_def setContainerStatus_def split: kill_pc.split sum.split list.split)

lemma pools_check_step [simp]:
  "pools (cluster (world_of (check_step t nord ord (Some (node_died lb l now es)) S))) = pools (cluster (world_of S))"
  by (simp add: check_step_def on_cluster_def Let_def node_died_def split: check_pc.split list.split)

lemma rpc_check_step [simp]: "rpc (check_step t nord ord cb S) = rpc S"
  by (simp add: check_step_def split: check_pc.split list.split)

lemma pools_retry_round [simp]: "pools (retry_round lb l pord ord es svcIDs s) = pools s"
proof -
  have "pools (retry_service lb ord es grp i s) = pools s" for ord es grp i s
    by (simp add: retry_service_def split: option.split sum.split)
  then have "pools (retry_groups lb ord es grp is s) = pools s" for grp and "is" :: "go_string list"
    by (induction lb ord es grp "is" s rule: retry_groups.induct) simp_all
  then show ?thesis by (simp add: retry_round_def)
qed

lemma pools_job_step [simp]: "pools (snd (job_step sv (j, s))) = pools s"
proof (cases j)
  case (Creating c)
  have "pools (snd (create_step sv (c, s))) = pools s"
    by (cases "cjPc c")
      (auto simp: Let_def case_prod_beta record_answer_def create_audit_def applyAddContainer_def
        applySetContainerStatus_def split: option.split plan_pc.split sum.split)
  with Creating show ?thesis by (simp add: case_prod_beta Let_def del: create_step.simps)
next
  case (Deleting d)
  have "pools (snd (delete_step sv (d, s))) = pools s"
    by (cases "djPc d")
      (auto simp: Let_def applySetContainerStatus_def applyRemoveService_def split: list.split)
  with Deleting show ?thesis by (simp add: case_prod_beta Let_def del: delete_step.simps)
qed

lemma members_recv_step:
  assumes "members_inv S" and "sys_inv S" and "evolves (cluster (world_of S)) (cluster (world_of T))"
    and T: "T = recv_step pord l (Some (node_discovered now)) S"
  shows "members_inv T"
proof -
  have dom: "dom (sys_nodes S) \<subseteq> dom (sys_nodes T)"
    using assms(3) by (simp add: evolves_def sys_nodes_def)
  show ?thesis
  proof (cases "rpc S")
    case (RAdd hb)
    then have new: "sys_nodes S (hbNodeID hb) = None" using assms(2) by (simp add: sys_inv_def)
    have same: "pools (cluster (world_of T)) = pools (cluster (world_of S))" "rpc T = RAssign hb"
        "sys_nodes T (hbNodeID hb) \<noteq> None"
      using RAdd by (simp_all add: T recv_step_def node_table.lookup_add)
    have "members_ok (cluster (world_of T))"
      using members_ok_frame [OF same(1)] dom assms(1) by (simp add: members_inv_def sys_nodes_def)
    moreover have "\<not> member_of (hbNodeID hb) p (cluster (world_of T))" for p
      using assms(1) new same(1) by (fastforce simp: members_inv_def members_ok_def member_of_def sys_nodes_def)
    ultimately show ?thesis using same(2,3) by (simp add: members_inv_def)
  next
    case (RAssign hb)
    let ?s = "cluster (world_of S)" and ?n = "new_node hb"
    let ?t = "snd (AssignNodeToPool (pord (pools ?s)) (hbNodeID hb) ?n ?s)"
    have t: "cluster (world_of T) = ?t" "rpc T = RDiscovered hb"
      using RAssign by (simp_all add: T recv_step_def on_cluster_def)
    have "nodes ?t i \<noteq> None \<and> (member_of i p' ?t \<longrightarrow> p = p')" if "member_of i p ?t" for i p p'
      using member_of_assign [OF that] member_of_assign [of i p' "pord (pools ?s)" "hbNodeID hb" ?n ?s] assms(1) RAssign
      by (auto simp: members_inv_def members_ok_def sys_nodes_def)
    then show ?thesis using t unfolding members_inv_def members_ok_def by simp
  qed (rule members_inv_frame [OF _ dom _ assms(1)];
      auto simp: T recv_step_def on_cluster_def node_discovered_def split: option.split)+
qed

lemma members_step:
  assumes "platform_step sv P Q" and "members_inv (plSystem P)" and "sys_inv (plSystem P)"
  shows "members_inv (plSystem Q)"
proof -
  have ev: "evolves (plState P) (plState Q)" by (rule platform_step_evolves [OF assms(1)])
  then have dom: "dom (sys_nodes (plSystem P)) \<subseteq> dom (sys_nodes (plSystem Q))"
    by (simp add: evolves_def sys_nodes_def)
  show ?thesis
    using assms(1)
  proof (cases rule: platform_step.cases)
    case (receive pord isLeader now)
    then show ?thesis by (intro members_recv_step [OF assms(2,3) ev]) simp
  next
    case (handle i j' s')
    moreover have "pools s' = pools (plState P)"
      using pools_job_step [of sv "plJobs P ! i" "plState P"] handle by (metis snd_conv)
    ultimately show ?thesis
      by (intro members_inv_frame [OF _ dom _ assms(2)]) (simp_all add: on_state_def)
  qed (rule members_inv_frame [OF _ dom _ assms(2)];
      simp add: recovery_step_def harmless_def same_base_def)+
qed

section \<open>The invariant\<close>

text \<open>The state a master starts with: empty tables, or those of a snapshot.\<close>

definition start_ok :: "state \<Rightarrow> bool" where
  "start_ok s \<longleftrightarrow> wf_state s \<and> (\<forall>n\<in>ran (nodes s). nStatus n \<in> {NodeAlive, NodeSuspect, NodeDead}) \<and> members_ok s"

definition platform_inv :: "state \<Rightarrow> platform \<Rightarrow> bool" where
  "platform_inv s P \<longleftrightarrow> evolves s (plState P) \<and> sys_inv (plSystem P) \<and> mutex (world_of (plSystem P)) \<and>
     members_inv (plSystem P)"

lemma platform_inv_step:
  assumes "platform_step sv P Q" and "platform_inv s P"
  shows "platform_inv s Q"
proof -
  have inv: "sys_inv (plSystem P)" "mutex (world_of (plSystem P))" "members_inv (plSystem P)" "evolves s (plState P)"
    using assms(2) by (simp_all add: platform_inv_def)
  have "evolves s (plState Q)" using inv(4) platform_step_evolves [OF assms(1)] by (rule evolves_trans)
  moreover have "members_inv (plSystem Q)" by (rule members_step [OF assms(1) inv(3,1)])
  moreover from assms(1) have "sys_inv (plSystem Q) \<and> mutex (world_of (plSystem Q))"
  proof (cases rule: platform_sys_step)
    case (step isLeader now es r)
    with inv(1,2) show ?thesis by (blast intro: main_callbacks.sys_inv_step mutex_sys_step)
  qed (use inv in simp)
  ultimately show ?thesis by (simp add: platform_inv_def)
qed

lemma platform_inv_reachable:
  assumes "(platform_step sv)\<^sup>*\<^sup>* (start_platform s now) P" and "start_ok s"
  shows "platform_inv s P"
  using assms(1)
proof (induction rule: rtranclp_induct)
  case base
  have "sys_inv (init_system s now)" using assms(2) by (intro sys_inv_init) (simp_all add: start_ok_def)
  moreover have "mutex (world_of (init_system s now))"
    by (simp add: mutex_def init_system_def NewTolerance_def)
  moreover have "members_inv (init_system s now)"
    using assms(2) by (simp add: members_inv_def start_ok_def init_system_def NewTolerance_def)
  ultimately show ?case by (simp add: platform_inv_def evolves_refl) (simp add: start_platform_def)
qed (blast intro: platform_inv_step)

text \<open>What any reachable state is, is good enough to start from again.\<close>

lemma platform_inv_start_ok: "platform_inv s P \<Longrightarrow> wf_state s \<Longrightarrow> start_ok (plState P)"
  by (auto simp: platform_inv_def start_ok_def evolves_def sys_inv_def members_inv_def sys_nodes_def)

end
