(* ===== verification/Startup.thy ===== *)
theory Startup
  imports Flags Platform
begin

text \<open>
  From the command line to the running processes: what \<open>main\<close> of \<open>cmd/master\<close> and of \<open>cmd/worker\<close> put
  together, and all lives of a master: its first start, its runs, its crashes and its restarts from the
  snapshots it has taken. The invariant of \<open>Platform\<close> is carried from one life to the next.
\<close>

section \<open>The REST server and the master\<close>

definition NewServer :: "jwt_library \<Rightarrow> balancer \<Rightarrow> jwt_manager \<Rightarrow> (go_string \<rightharpoonup> go_string) \<Rightarrow> server" where
  "NewServer lib sched jwt peersAPI =
     \<lparr>svJwtLibrary = lib, svJwt = jwt, svBalancer = sched, svRaft = True, svPeersAPI = peersAPI\<rparr>"

text \<open>
  The master before its goroutines start. The scheduler and the audit logger are a pointer to the state and,
  for the scheduler, the balancer; the state is passed explicitly here.
\<close>

record master =
  maFlags :: master_flags
  maRaft :: raft_started
  maState :: state
  maServer :: server

datatype master_exit = BadFlags flag_error | RaftFailed go_string

text \<open>
  \<open>disk\<close>: the state that the Raft library restores from the last snapshot in the data directory, if there
  is one. A bootstrapping master removes the directory first; \<open>removed\<close>: whether that works.
\<close>

definition restored_state :: "bool \<Rightarrow> bool \<Rightarrow> state option \<Rightarrow> state" where
  "restored_state raftBootstrap removed disk =
     (if raftBootstrap \<and> removed then NewState else case disk of None \<Rightarrow> NewState | Some s \<Rightarrow> s)"

definition master_main ::
  "go_string list \<Rightarrow> bool \<Rightarrow> raft_opens \<Rightarrow> jwt_library \<Rightarrow> state option \<Rightarrow> master_exit + master" where
  "master_main args removed opens lib disk =
     (case master_flags_of args of
        Inl err \<Rightarrow> Inl (BadFlags err)
      | Inr fl \<Rightarrow>
          (case NewRaftNode (raft_config_of_flags (mfRaftID fl) (mfRaftAddr fl) (mfRaftDir fl)
                  (mfRaftBootstrap fl) (mfRaftPeers fl)) opens of
             Inl err \<Rightarrow> Inl (RaftFailed (''raft: '' @ err))
           | Inr raftNode \<Rightarrow>
               Inr \<lparr>maFlags = fl, maRaft = raftNode,
                 maState = master_start (restored_state (mfRaftBootstrap fl) removed disk),
                 maServer = NewServer lib (lb_of_flag (mfLb fl))
                   (NewJWTManager ''super-secret-key'' (15 * 60 * second) (24 * 3600 * second))
                   (api_peers_of_flag (mfPeersAPI fl))\<rparr>))"

section \<open>The worker\<close>

text \<open>What the closures of the worker work on: the manager, the daemon, and the reports of the machine.\<close>

type_synonym 'd worker_world = "docker_manager \<times> 'd \<times> os_reports"

type_synonym 'd world_handler = "command \<Rightarrow> 'd worker_world \<Rightarrow> command_response option \<times> 'd worker_world"

record 'd worker =
  wkDocker :: docker_manager
  wkServer :: "'d world_handler command_server"
  wkSender :: "'d worker_world sender"

datatype worker_failure = WorkerFlags flag_error | WorkerExit worker_exit

definition worker_main ::
  "'d docker_sdk \<Rightarrow> go_string list \<Rightarrow> go_string list \<Rightarrow> go_string + unit \<Rightarrow> worker_failure + 'd worker" where
  "worker_main sdk ks args client =
     (case worker_flags_of args of
        Inl err \<Rightarrow> Inl (WorkerFlags err)
      | Inr fl \<Rightarrow>
          (case worker_start client (wfID fl) of
             Inl err \<Rightarrow> Inl (WorkerExit err)
           | Inr docker \<Rightarrow>
               Inr \<lparr>wkDocker = docker,
                 wkServer = NewCommandServer (wfAddr fl)
                   (\<lambda>cmd (dm, d, os). let (resp, dm', d') = worker_handler sdk ks cmd dm d in (resp, dm', d', os)),
                 wkSender = NewSender (wfMulticast fl) (wfID fl) (wfAddr fl) (wfInterval fl)
                   (\<lambda>(dm, d, os). (GetMetrics os, dm, d, os))
                   (\<lambda>(dm, d, os). let (cs, d') = RunningContainerIDs sdk dm d in (cs, dm, d', os))\<rparr>))"

section \<open>The command lines\<close>

text \<open>One of the forms in which the flags can be given.\<close>

definition master_arg_list :: "master_flags \<Rightarrow> (go_string \<times> go_string) list" where
  "master_arg_list fl =
     [(''multicast'', mfMulticast fl), (''lb'', mfLb fl), (''api'', mfApi fl), (''raft-addr'', mfRaftAddr fl),
      (''raft-id'', mfRaftID fl), (''raft-dir'', mfRaftDir fl),
      (''raft-bootstrap'', if mfRaftBootstrap fl then ''true'' else ''false''),
      (''raft-peers'', mfRaftPeers fl), (''peers-api'', mfPeersAPI fl)]"

definition master_args :: "master_flags \<Rightarrow> go_string list" where
  "master_args fl = flag_args (master_arg_list fl)"

definition worker_args :: "worker_flags \<Rightarrow> go_string \<Rightarrow> go_string list" where
  "worker_args fl interval = flag_args
     [(''id'', wfID fl), (''addr'', wfAddr fl), (''multicast'', wfMulticast fl), (''interval'', interval)]"

lemma master_flag_lookup:
  "master_flag_defaults ''multicast'' = Some (FlagString ''239.0.0.1:9090'')"
  "master_flag_defaults ''lb'' = Some (FlagString ''leastconn'')"
  "master_flag_defaults ''api'' = Some (FlagString '':8090'')"
  "master_flag_defaults ''raft-addr'' = Some (FlagString ''localhost:9000'')"
  "master_flag_defaults ''raft-id'' = Some (FlagString ''master-1'')"
  "master_flag_defaults ''raft-dir'' = Some (FlagString ''/tmp/dcp-raft'')"
  "master_flag_defaults ''raft-bootstrap'' = Some (FlagBool False)"
  "master_flag_defaults ''raft-peers'' = Some (FlagString '''')"
  "master_flag_defaults ''peers-api'' = Some (FlagString '''')"
  by (simp_all add: master_flag_defaults_def)

lemma master_arg_lookup:
  "map_of (master_arg_list fl) ''multicast'' = Some (mfMulticast fl)"
  "map_of (master_arg_list fl) ''lb'' = Some (mfLb fl)"
  "map_of (master_arg_list fl) ''api'' = Some (mfApi fl)"
  "map_of (master_arg_list fl) ''raft-addr'' = Some (mfRaftAddr fl)"
  "map_of (master_arg_list fl) ''raft-id'' = Some (mfRaftID fl)"
  "map_of (master_arg_list fl) ''raft-dir'' = Some (mfRaftDir fl)"
  "map_of (master_arg_list fl) ''raft-bootstrap'' = Some (if mfRaftBootstrap fl then ''true'' else ''false'')"
  "map_of (master_arg_list fl) ''raft-peers'' = Some (mfRaftPeers fl)"
  "map_of (master_arg_list fl) ''peers-api'' = Some (mfPeersAPI fl)"
  by (simp_all add: master_arg_list_def)

lemma master_arg_list_ok:
  "distinct (map fst (master_arg_list fl))"
  "\<forall>(name, v)\<in>set (master_arg_list fl). flag_name name \<and> (\<exists>old. master_flag_defaults name = Some old \<and> flag_Set old v \<noteq> None)"
proof -
  show "distinct (map fst (master_arg_list fl))" by (simp add: master_arg_list_def)
  have "list_all (\<lambda>(name, v). flag_name name \<and> (\<exists>old. master_flag_defaults name = Some old \<and> flag_Set old v \<noteq> None))
      (master_arg_list fl)"
    by (simp add: master_arg_list_def master_flag_lookup flag_name_def)
  then show "\<forall>(name, v)\<in>set (master_arg_list fl). flag_name name \<and>
      (\<exists>old. master_flag_defaults name = Some old \<and> flag_Set old v \<noteq> None)"
    by (simp add: list_all_iff)
qed

lemma master_flags_of_args: "master_flags_of (master_args fl) = Inr fl"
  unfolding master_flags_of_def master_args_def flag_Parse_args [OF master_arg_list_ok] sum.case
  by (simp add: master_arg_lookup master_flag_lookup flag_text_def)

lemma worker_flags_of_args:
  "ParseDuration interval = Some (wfInterval fl) \<Longrightarrow> worker_flags_of (worker_args fl interval) = Inr fl"
  unfolding worker_flags_of_def worker_args_def
  by (subst flag_Parse_args) (simp_all add: worker_flag_defaults_def flag_name_def flag_text_def)

section \<open>The lives of a master\<close>

text \<open>
  A first start, or a restart from a snapshot of any state of an earlier life; then a run. The entries that
  Raft applies again after a restart are steps \<open>entry\<close> of the run.
\<close>

inductive master_lives :: "jwt_library \<Rightarrow> master \<Rightarrow> platform \<Rightarrow> bool" for lib where
  first_life: "master_main args removed opens lib None = Inr m \<Longrightarrow>
    (platform_step (maServer m))\<^sup>*\<^sup>* (start_platform (maState m) now) P \<Longrightarrow> master_lives lib m P"
| next_life: "master_lives lib m P \<Longrightarrow>
    iterates on (nodes (plState P)) \<Longrightarrow> iterates os (services (plState P)) \<Longrightarrow>
    iterates oc (containers (plState P)) \<Longrightarrow> iterates op (pools (plState P)) \<Longrightarrow> iterates ou (users (plState P)) \<Longrightarrow>
    master_main args removed opens lib (Some (Restore (Snapshot on os oc op ou (plState P)) NewState)) = Inr m' \<Longrightarrow>
    (platform_step (maServer m'))\<^sup>*\<^sup>* (start_platform (maState m') now) Q \<Longrightarrow> master_lives lib m' Q"

lemma users_master_start [simp]:
  "users (master_start s) = (users s)(''u1'' \<mapsto> admin_user, ''u2'' \<mapsto> writer_user, ''u3'' \<mapsto> reader_user)"
  by (simp add: master_start_def add_default_pools_def add_default_users_def user_table.lookup_add
      admin_user_def writer_user_def reader_user_def)

definition default_users :: "go_string \<rightharpoonup> user" where
  "default_users = [''u1'' \<mapsto> admin_user, ''u2'' \<mapsto> writer_user, ''u3'' \<mapsto> reader_user]"

lemma NewState_tables [simp]: "pools NewState = Map.empty" "users NewState = Map.empty"
  by (simp_all add: NewState_def)

lemma start_ok_NewState: "start_ok NewState"
  by (simp add: start_ok_def wf_NewState members_ok_def member_of_def)

lemma start_ok_master_start: "start_ok s \<Longrightarrow> start_ok (master_start s)"
  by (auto simp: start_ok_def members_ok_def member_of_def default_pools default_pool_fields split: if_splits)

lemma more_members_pools_with: "more_members ids (pools_with js) = pools_with (\<lambda>p. js p @ ids p)"
  by (rule ext) (simp add: more_members_def pools_with_def)

text \<open>What every life of a master starts with, and what it keeps.\<close>

definition default_tables :: "state \<Rightarrow> bool" where
  "default_tables s \<longleftrightarrow> users s = default_users \<and> (\<exists>ids. pools s = pools_with ids)"

lemma default_tables_start:
  assumes "s = NewState \<or> default_tables s"
  shows "default_tables (master_start s)"
proof -
  have "pools (master_start s) = pools_with (\<lambda>_. [])"
    using assms by (auto simp: default_tables_def default_pools pools_with_def default_pool_fields general_pool_def
        high_cpu_pool_def high_ram_pool_def zero_pool_def fun_eq_iff)
  moreover have "users (master_start s) = default_users"
    using assms by (auto simp: default_tables_def default_users_def fun_eq_iff)
  ultimately show ?thesis by (auto simp: default_tables_def)
qed

lemma default_tables_evolves: "default_tables s \<Longrightarrow> evolves s t \<Longrightarrow> default_tables t"
  by (auto simp: default_tables_def evolves_def more_members_pools_with)

lemma master_main_state:
  assumes "master_main args removed opens lib disk = Inr m"
  shows "\<exists>s. (s = NewState \<or> disk = Some s) \<and> maState m = master_start s"
    and "svBalancer (maServer m) = lb_of_flag (mfLb (maFlags m))"
  using assms by (auto simp: master_main_def restored_state_def NewServer_def split: sum.splits option.splits)

lemma run_inv:
  assumes "(platform_step sv)\<^sup>*\<^sup>* (start_platform (master_start s) now) P"
    and "start_ok s" and "s = NewState \<or> default_tables s"
  shows "platform_inv (master_start s) P" and "start_ok (plState P)" and "default_tables (plState P)"
proof -
  have ok: "start_ok (master_start s)" using assms(2) by (rule start_ok_master_start)
  show inv: "platform_inv (master_start s) P" by (rule platform_inv_reachable [OF assms(1) ok])
  show "start_ok (plState P)"
    using ok by (intro platform_inv_start_ok [OF inv]) (simp add: start_ok_def)
  show "default_tables (plState P)"
    using default_tables_start [OF assms(3)] inv by (auto simp: platform_inv_def intro: default_tables_evolves)
qed

lemma lives_inv:
  assumes "master_lives lib m P"
  shows "platform_inv (maState m) P \<and> start_ok (plState P) \<and> default_tables (plState P) \<and>
    svBalancer (maServer m) = lb_of_flag (mfLb (maFlags m))"
  using assms
proof (induction rule: master_lives.induct)
  case (first_life args removed opens m now P)
  then obtain s where s: "s = NewState" "maState m = master_start s"
    using master_main_state(1) by blast
  then show ?case
    using run_inv [of "maServer m" s now P] first_life master_main_state(2) start_ok_NewState by simp
next
  case (next_life m P on os oc op ou args removed opens m' now Q)
  have "wf_state (plState P)" using next_life.IH by (simp add: start_ok_def)
  then have "Restore (Snapshot on os oc op ou (plState P)) NewState = plState P"
    using next_life.hyps by (intro Restore_Snapshot)
  then obtain s where s: "s = NewState \<or> s = plState P" "maState m' = master_start s"
    using master_main_state(1) [OF next_life.hyps(7)] by auto
  then have "start_ok s" "s = NewState \<or> default_tables s" using next_life.IH start_ok_NewState by auto
  from run_inv [OF _ this, of "maServer m'" now Q] next_life.hyps(8) s(2) master_main_state(2) [OF next_life.hyps(7)]
  show ?case by simp
qed

text \<open>
  The first heartbeat of a worker at a new master, with a request that arrives in between.
\<close>

definition first_contact :: "state \<Rightarrow> api_env \<Rightarrow> http_request \<Rightarrow> platform" where
  "first_contact s env r =
     (let recv = (\<lambda>P. P\<lparr>plSystem := recv_step (\<lambda>_. []) (Some True) (Some (node_discovered 0)) (plSystem P)\<rparr>);
          P = start_platform s 0;
          P1 = recv (P\<lparr>plSystem := (plSystem P)\<lparr>rpc := RGet birth_heartbeat\<rparr>\<rparr>)
      in recv (recv (recv (P1\<lparr>plJobs := plJobs P1 @ [Deleting (delete_job_for env ''svc'' r)]\<rparr>))))"

lemma first_contact_reachable: "(platform_step sv)\<^sup>*\<^sup>* (start_platform s 0) (first_contact s env r)"
proof -
  have recv: "(platform_step sv)\<^sup>*\<^sup>* P (Q\<lparr>plSystem := recv_step (\<lambda>_. []) (Some True) (Some (node_discovered 0)) (plSystem Q)\<rparr>)"
    if "(platform_step sv)\<^sup>*\<^sup>* P Q" for P Q
    using that by (rule rtranclp.rtrancl_into_rtrancl) (rule platform_step.receive)
  have more: "(platform_step sv)\<^sup>*\<^sup>* P (Q\<lparr>plJobs := plJobs Q @ [Deleting (delete_job_for env ''svc'' r)]\<rparr>)"
    if "(platform_step sv)\<^sup>*\<^sup>* P Q" for P Q
    using that by (rule rtranclp.rtrancl_into_rtrancl) (rule platform_step.delete)
  show ?thesis
    unfolding first_contact_def Let_def
    by (intro recv more r_into_rtranclp platform_step.datagram) (simp add: start_platform_def init_system_def)
qed

definition opens_all :: raft_opens where
  "opens_all = \<lparr>roMkdirAll = None, roBoltStore = None, roSnapshotStore = None, roResolve = None,
    roTransport = None, roNewRaft = (\<lambda>_. None), roBootstrap = (\<lambda>_. None)\<rparr>"

lemma master_main_opens:
  "\<exists>m. master_main (master_args fl) removed opens_all lib disk = Inr m \<and>
     maState m = master_start (restored_state (mfRaftBootstrap fl) removed disk)"
  by (simp add: master_main_def master_flags_of_args NewRaftNode_def opens_all_def raft_config_of_flags_def Let_def)

section \<open>Properties\<close>



text \<open>
  What the command line of a master is good for. Whatever is given to the flags, written as
  \<open>-name=value\<close>, is what the program reads back, and with it the master has the strategy and the peers
  that were asked for, signs its tokens for 15 minutes and for 24 hours, and starts with the default users and
  pools on top of what the library has restored, unless it bootstraps, which clears the data directory; it
  does not start exactly if the Raft library does not.
\<close>

theorem master_command_line_roundtrip:
  "master_flags_of (master_args fl) = Inr fl \<and>
   (case NewRaftNode (raft_config_of_flags (mfRaftID fl) (mfRaftAddr fl) (mfRaftDir fl) (mfRaftBootstrap fl)
       (mfRaftPeers fl)) opens of
      Inl err \<Rightarrow> master_main (master_args fl) removed opens lib disk = Inl (RaftFailed (''raft: '' @ err))
    | Inr raftNode \<Rightarrow> \<exists>m. master_main (master_args fl) removed opens lib disk = Inr m \<and> maRaft m = raftNode \<and>
        svBalancer (maServer m) = lb_of_flag (mfLb fl) \<and>
        svPeersAPI (maServer m) = api_peers_of_flag (mfPeersAPI fl) \<and>
        jmAccessDuration (svJwt (maServer m)) = 900 * second \<and> jmRefreshDuration (svJwt (maServer m)) = 86400 * second \<and>
        maState m = master_start (if mfRaftBootstrap fl \<and> removed then NewState
          else case disk of None \<Rightarrow> NewState | Some s \<Rightarrow> s))"
  by (simp add: master_flags_of_args master_main_def NewServer_def NewJWTManager_def restored_state_def
      second_def split: sum.split)

text \<open>
  C39: how a worker comes up. It reads its flags back from the command line, needs a node ID, and its
  command server and its sender get the addresses that were asked for. An interval of zero or less
  is accepted, although the sender goroutine then panics, which ends the process, whatever the
  network does and whatever containers the worker has.
\<close>

theorem zero_interval_kills_the_worker:
  assumes "ParseDuration text = Some (wfInterval fl)"
  shows "worker_flags_of (worker_args fl text) = Inr fl \<and>
    (if wfID fl = '''' then worker_main sdk ks (worker_args fl text) client = Inl (WorkerExit Usage)
     else \<exists>w. worker_main sdk ks (worker_args fl text) (Inr ()) = Inr w \<and>
       csListenAddr (wkServer w) = wfAddr fl \<and> seMulticastAddr (wkSender w) = wfMulticast fl \<and>
       (\<forall>written es d. isl (Sender_Start (\<lambda>_. Inr ()) (\<lambda>_. Inr ()) (wkSender w) written es d) \<longleftrightarrow> wfInterval fl \<le> 0) \<and>
       (wfInterval fl \<le> 0 \<longrightarrow> (\<forall>resolve dial written es d. isl (Sender_Start resolve dial (wkSender w) written es d))))"
proof (cases "wfID fl = ''''")
  case True
  then show ?thesis
    by (simp add: worker_flags_of_args [OF assms] worker_main_def worker_start_def)
next
  case False
  define w where "w = projr (worker_main sdk ks (worker_args fl text) (Inr ()))"
  have "worker_main sdk ks (worker_args fl text) (Inr ()) = Inr w" "csListenAddr (wkServer w) = wfAddr fl"
      "seMulticastAddr (wkSender w) = wfMulticast fl" "seInterval (wkSender w) = wfInterval fl"
    using False by (simp_all add: w_def worker_flags_of_args [OF assms] worker_main_def worker_start_def
        NewDockerManager_def NewCommandServer_def NewSender_def)
  moreover from this(4) have "isl (Sender_Start (\<lambda>_. Inr ()) (\<lambda>_. Inr ()) (wkSender w) written es d) \<longleftrightarrow> wfInterval fl \<le> 0"
      "wfInterval fl \<le> 0 \<Longrightarrow> isl (Sender_Start resolve dial (wkSender w) written es d)" for resolve dial written es d
    by (simp_all add: Sender_Start_def NewTicker_def split: sum.split)
  ultimately show ?thesis
    using False worker_flags_of_args [OF assms] by auto
qed

theorem zero_interval_kills_the_worker_witness:
  "let fl = \<lparr>wfID = ''w1'', wfAddr = ''h:7000'', wfMulticast = ''239.0.0.1:9090'', wfInterval = 0\<rparr>
   in \<exists>w. worker_main small_docker [] (worker_args fl ''0s'') (Inr ()) = Inr w \<and>
     (\<forall>d. isl (Sender_Start (\<lambda>_. Inr ()) (\<lambda>_. Inr ()) (wkSender w) (\<lambda>_. True) [] d))"
proof -
  let ?fl = "\<lparr>wfID = ''w1'', wfAddr = ''h:7000'', wfMulticast = ''239.0.0.1:9090'', wfInterval = 0\<rparr>"
  have "digits 0 = ''0''" by code_simp
  then have "ParseDuration ''0s'' = Some (wfInterval ?fl)" using ParseDuration_seconds [of 0] by simp
  from zero_interval_kills_the_worker [OF this, of small_docker "[]"] show ?thesis by auto
qed

end
