(* ===== verification/Spec2Isabelle.thy ===== *)
theory Spec2Isabelle
  imports AccessControl AuditLog Datagrams ApiTypes EndToEnd Concurrency Startup
begin

text \<open>
  A model of the Distributed Cluster Platform, a small container orchestrator in Go (\<open>src/cmd\<close> and
  \<open>src/internal\<close>), and the theorems that make it correct.

  \<^bold>\<open>The program.\<close> Workers send heartbeats by UDP multicast to every master. A master keeps the cluster in
  memory: nodes, pools, users and an audit log of its own, and services and containers that are
  replicated through Raft. It marks silent nodes SUSPECT and DEAD, starts the containers of a dead node
  elsewhere, and deals with nodes that come back. Users create and delete services over a REST API on
  any master; a follower forwards what changes the cluster to the leader. The leader plans the replicas
  of a service, all or nothing, and tells the workers by a TCP command each to start or kill containers,
  which a worker does through its Docker daemon.

  \<^bold>\<open>Theories and code\<close> (paths under \<open>src/\<close>), each importing the ones it builds on.
  \<^item> \<open>Prelude\<close>: range loops over Go maps, numbers in decimal, the lemma collections.
    \<open>Float64\<close>: binary64 arithmetic with rounding to nearest even. \<open>GoStrings\<close>: the functions of
    \<open>strings\<close> and \<open>strconv\<close> that are used. \<open>Sha256\<close>: the password hashes.
  \<^item> \<open>Domain\<close>: \<open>internal/domain/models.go\<close>. \<open>ClusterState\<close>: \<open>internal/cluster/state.go\<close>, one definition
    per method of \<open>State\<close>, under the method's name. \<open>Json\<close>: the JSON form of the models.
  \<^item> \<open>LoadBalancer\<close>: \<open>internal/loadbalancer\<close>. \<open>Scheduler\<close>: \<open>internal/scheduler/scheduler.go\<close>; \<open>Plan\<close>
    works on copies of the nodes, as the code does.
  \<^item> \<open>Fsm\<close>: \<open>internal/cluster/fsm.go\<close> and \<open>RaftNode.Apply\<close>. \<open>Setup\<close>: \<open>NewRaftNode\<close> of
    \<open>internal/cluster/raft.go\<close> and the start of \<open>cmd/master/main.go\<close>.
  \<^item> \<open>Command\<close>: \<open>internal/agent/command.go\<close>. \<open>FaultTolerance\<close>: \<open>internal/fault/tolerance.go\<close>.
    \<open>Heartbeat\<close>: \<open>internal/heartbeat\<close>. \<open>Lifecycle\<close>: the same goroutines as interleaved steps.
    \<open>Master\<close>: the closures, the recovery and the retry loop of \<open>cmd/master/main.go\<close>.
  \<^item> \<open>AccessControl\<close> and \<open>Jwt\<close>: \<open>internal/security\<close>. \<open>AuditLog\<close>: \<open>internal/audit/logger.go\<close>. \<open>Api\<close>:
    \<open>internal/api/server.go\<close>, one definition per handler and middleware, \<open>serve\<close> for the routes;
    \<open>ApiProofs\<close>, \<open>ApiTypes\<close> and \<open>Capacity\<close> hold what is proved of it.
  \<^item> \<open>Docker\<close> and \<open>Monitor\<close>: \<open>internal/agent/docker.go\<close> and \<open>monitor.go\<close>. \<open>Worker\<close>:
    \<open>cmd/worker/main.go\<close>, and the worker joined to the master.
  \<^item> \<open>Processes\<close>: the loops (\<open>Start\<close> of the failure detector, the sender, the receiver and the command
    server). \<open>Datagrams\<close>: heartbeats by their length, and the receiver's buffer. \<open>EndToEnd\<close>: requests
    to the API with the workers and daemons they reach.
  \<^item> \<open>Planning\<close>, \<open>Requests\<close>, \<open>Jobs\<close>: \<open>Plan\<close> and the two writing handlers as the steps between which other
    goroutines run, each request a job with a program counter. \<open>Concurrency\<close>: what holds of requests that
    are handled at the same time, and three interleavings that go wrong.
  \<^item> \<open>Platform\<close>: a whole master while it runs, all goroutines interleaved (\<open>platform_step\<close>). \<open>Flags\<close>: the
    package \<open>flag\<close> and the flags of the two programs. \<open>Startup\<close>: what \<open>main\<close> of \<open>cmd/master\<close> and
    \<open>cmd/worker\<close> put together, and all lives of a master (\<open>master_lives\<close>): starts, runs, crashes, restarts.

  \<^bold>\<open>State and operations.\<close> A struct is a record, a method a function that returns the changed state, an
  error or a panic a value (\<open>Inl\<close>, \<open>None\<close>, or a datatype with one constructor for each error site). A map
  is a partial function; the order of a range loop is an argument. Integers of the wire formats and the
  RAM sizes are 64 bits wide. Time is an integer number of nanoseconds. What the environment decides is
  an argument as well: leadership, the outcome of a Raft submission, the clock, the answers of
  workers, the reports of the operating system. A goroutine that interleaves with others is a state
  machine with a program counter (\<open>Lifecycle\<close>, \<open>Jobs\<close>, \<open>Platform\<close>; inductive step relations).

  \<^bold>\<open>What is proved.\<close>
  \<^item> Scheduling: a plan succeeds exactly if the replicas fit; it never oversubscribes the RAM, the CPU
    or the ports of a node. Requests reserve nothing, however: only heartbeats change what is free.
  \<^item> Failure detection: the verdicts of one check, the time in which a silent node is found, and for
    every interleaving that on a leader only a recovery brings a DEAD node back, one recovery per node.
    The steps of a recovery refine its atomic specification.
  \<^item> Replication: a committed entry is the operation on the state; replicas converge; a snapshot that
    is persisted and restored is the state it was taken of.
  \<^item> Recovery and retry: replicas are conserved, pending groups are started as a whole or left alone.
  \<^item> API: the type of every route, who may change the cluster, what creating and deleting leave
    behind, what a login is good for, forwarding.
  \<^item> Workers: from the master's command to the daemon and back in the heartbeat, metrics, limits; how
    many containers fit into a heartbeat, and what happens to a worker with more.
  \<^item> The whole path: after a creation the containers of the daemons are those the state calls RUNNING,
    and a deletion takes them away again.
  \<^item> Concurrent requests: the handlers in steps refine the handlers as functions; every request is answered;
    what a creation has answered stays true; a deletion can miss a creation, two creations can share a
    port, and a slow worker can duplicate a replica.
  \<^item> Invariants: in every state a master reaches, in any interleaving and over any number of restarts from
    its own snapshots, the tables are well-formed (\<open>wf_state\<close>), the users and the pools are the default ones, a
    pool has known members and shares none, and there is one recovery per node at most.
  \<^item> Command lines: what is given to the flags reaches the components; which workers come up.

  The locales are the interfaces: \<open>entity_table\<close> and \<open>removable_table\<close> (the five tables), \<open>json_codec\<close>
  (every struct that travels), \<open>load_balancer\<close> (both strategies, and the choice by the flag),
  \<open>dead_node_callback\<close>, \<open>discovery_callback\<close> and \<open>lifecycle\<close> (the callbacks of the master), \<open>ticker_body\<close>.
  Each is interpreted on the definitions of the model.

  \<^bold>\<open>Hypotheses about other code.\<close> \<open>jwt_laws\<close>: a token library parses what it has signed and
  nothing else. \<open>docker_laws\<close>: a daemon lists by labels, refuses a name that is taken, and changes only
  the container it is told; \<open>removal_works\<close> and \<open>forced_removal_works\<close> are assumed only where stated.
  For each there is an instance, \<open>small_docker\<close> and the like, that the witnesses run on.

  \<^bold>\<open>Bounds.\<close> A float64 has no signed zeros; no operation of the program tells them apart. White space
  and field separators are the ASCII ones, and hexadecimal floats are not parsed: the reports that are
  parsed have neither. A forwarded request needs two handlers at most, so two steps of \<open>deliver\<close> suffice.
  Every loop over a list is structural recursion. The steps of a job decrease a lexicographic rank, so a
  job needs no fuel. Lengths of JSON texts are for valid UTF-8; the lengths of fractions and times are
  arguments.

  \<^bold>\<open>Not modelled.\<close> Logging and the status printer, the signals, opening sockets (their results are
  arguments), the interior of the Raft, JWT and Docker libraries, and the constructors of structs that are
  only a pointer to the state. Calls of one container manager run one after the other. In \<open>Platform\<close> the
  recovery of one dead node and one round of the retry loop are one step each, and a follower is not sent
  a snapshot while it runs. The thesis and the scripts under \<open>docs\<close> are no code of the platform.
\<close>

end
